(* ===== verification/Prelude.thy ===== *)
theory Prelude
  imports Main "HOL-Library.Word" "HOL-Library.Code_Target_Nat"
begin

unbundle bit_operations_syntax

text \<open>
  The vocabulary every component shares: machine integers at their Rust widths, errors as values,
  byte order conversions (\<open>to_be_bytes\<close>, \<open>from_be_bytes\<close> and the little-endian pair), slices and
  in-place slice writes (\<open>buf[a..b].copy_from_slice(..)\<close>), and the generic lemmas about them that
  the component proofs use through the collections \<open>byte_simps\<close> and \<open>slice_simps\<close>.
\<close>

section \<open>Machine integers and results\<close>

type_synonym u8 = "8 word"
type_synonym u16 = "16 word"
type_synonym u32 = "32 word"
type_synonym u64 = "64 word"

text \<open>
  A Rust function of type \<open>Result<T>\<close> returns \<open>Inl (Err message)\<close> or \<open>Inr value\<close>. An arithmetic
  overflow that a checked build rejects, an index out of range and a failed assertion are the value
  \<open>Inl Panic\<close>, so that a theorem about a result excludes them.
\<close>

datatype error = Err string | Panic

type_synonym 'a result = "error + 'a"

definition and_then :: "'a result \<Rightarrow> ('a \<Rightarrow> 'b result) \<Rightarrow> 'b result" where
  "and_then r f = (case r of Inl e \<Rightarrow> Inl e | Inr x \<Rightarrow> f x)"

definition ok_or :: "'a option \<Rightarrow> string \<Rightarrow> 'a result" where
  "ok_or r message = (case r of None \<Rightarrow> Inl (Err message) | Some x \<Rightarrow> Inr x)"

definition is_ok :: "'a result \<Rightarrow> bool" where
  "is_ok r = (case r of Inl _ \<Rightarrow> False | Inr _ \<Rightarrow> True)"

named_theorems byte_simps
named_theorems slice_simps

lemma and_then_Inr [simp]: "and_then (Inr x) f = f x"
  by (simp add: and_then_def)

lemma and_then_Inl [simp]: "and_then (Inl e) f = Inl e"
  by (simp add: and_then_def)

lemma and_then_eq_Inr: "and_then r f = Inr y \<longleftrightarrow> (\<exists>x. r = Inr x \<and> f x = Inr y)"
  by (cases r) auto

lemma if_err_eq_Inr: "(if b then Inl e else x) = Inr y \<longleftrightarrow> \<not> b \<and> x = Inr y"
  by simp

lemma ok_or_simps [simp]: "ok_or None m = Inl (Err m)" "ok_or (Some x) m = Inr x"
  by (simp_all add: ok_or_def)

lemma ok_or_eq_Inr [simp]: "ok_or r m = Inr x \<longleftrightarrow> r = Some x"
  by (cases r) auto

lemma is_ok_simps [simp]: "is_ok (Inr x)" "\<not> is_ok (Inl e)"
  by (simp_all add: is_ok_def)

section \<open>Byte order\<close>

definition to_be_bytes :: "'a::len word \<Rightarrow> u8 list" where
  "to_be_bytes w = map (\<lambda>i. ucast (drop_bit (8 * i) w)) (rev [0..<LENGTH('a) div 8])"

definition to_le_bytes :: "'a::len word \<Rightarrow> u8 list" where
  "to_le_bytes w = map (\<lambda>i. ucast (drop_bit (8 * i) w)) [0..<LENGTH('a) div 8]"

fun from_le_bytes :: "u8 list \<Rightarrow> 'a::len word" where
  "from_le_bytes [] = 0"
| "from_le_bytes (b # bs) = ucast b OR push_bit 8 (from_le_bytes bs)"

definition from_be_bytes :: "u8 list \<Rightarrow> 'a::len word" where
  "from_be_bytes bs = from_le_bytes (rev bs)"

lemma length_to_be_bytes [simp]: "length (to_be_bytes (w :: 'a::len word)) = LENGTH('a) div 8"
  by (simp add: to_be_bytes_def)

lemma length_to_le_bytes [simp]: "length (to_le_bytes (w :: 'a::len word)) = LENGTH('a) div 8"
  by (simp add: to_le_bytes_def)

lemma to_be_bytes_rev: "to_be_bytes w = rev (to_le_bytes w)"
  by (simp add: to_be_bytes_def to_le_bytes_def rev_map)

lemma bit_from_le_bytes:
  "bit (from_le_bytes bs :: 'a::len word) n \<longleftrightarrow>
     n < LENGTH('a) \<and> n < 8 * length bs \<and> bit (bs ! (n div 8)) (n mod 8)"
proof (induction bs arbitrary: n)
  case Nil
  then show ?case by simp
next
  case (Cons b bs)
  show ?case
  proof (cases "n < 8")
    case True
    then show ?thesis
      by (auto simp: bit_simps)
  next
    case False
    then obtain m where m: "n = m + 8" by (metis le_add_diff_inverse2 not_less)
    have "\<not> bit b (m + 8)" by (rule impossible_bit) simp
    moreover have "(m + 8) div 8 = Suc (m div 8)" by simp
    ultimately show ?thesis
      using m by (auto simp: bit_simps Cons.IH)
  qed
qed

lemma from_le_bytes_to_le_bytes [byte_simps]:
  assumes "8 dvd LENGTH('a)"
  shows "from_le_bytes (to_le_bytes (w :: 'a::len word)) = w"
proof (rule bit_word_eqI)
  fix n assume n: "n < LENGTH('a)"
  from assms obtain k where k: "LENGTH('a) = 8 * k" by blast
  with n have "n div 8 < k" by auto
  then show "bit (from_le_bytes (to_le_bytes w) :: 'a word) n = bit w n"
    using n k by (simp add: bit_from_le_bytes to_le_bytes_def bit_simps)
qed

lemma from_be_bytes_to_be_bytes [byte_simps]:
  assumes "8 dvd LENGTH('a)"
  shows "from_be_bytes (to_be_bytes (w :: 'a::len word)) = w"
  using from_le_bytes_to_le_bytes [OF assms, of w]
  by (simp add: from_be_bytes_def to_be_bytes_rev)

lemma to_le_bytes_from_le_bytes:
  assumes "length bs * 8 = LENGTH('a::len)"
  shows "to_le_bytes (from_le_bytes bs :: 'a word) = bs"
proof (rule nth_equalityI)
  show len: "length (to_le_bytes (from_le_bytes bs :: 'a word)) = length bs"
    using assms by simp
  fix i assume "i < length (to_le_bytes (from_le_bytes bs :: 'a word))"
  then have i: "i < length bs" using len by simp
  have "ucast (drop_bit (8 * i) (from_le_bytes bs :: 'a word)) = bs ! i"
    by (rule bit_word_eqI) (use i assms in \<open>auto simp: bit_simps bit_from_le_bytes\<close>)
  moreover have "LENGTH('a) div 8 = length bs" using assms by simp
  ultimately show "to_le_bytes (from_le_bytes bs :: 'a word) ! i = bs ! i"
    using i by (simp add: to_le_bytes_def)
qed

lemma to_be_bytes_from_be_bytes:
  assumes "length bs * 8 = LENGTH('a::len)"
  shows "to_be_bytes (from_be_bytes bs :: 'a word) = bs"
  using to_le_bytes_from_le_bytes [of "rev bs", where 'a = 'a] assms
  by (simp add: from_be_bytes_def to_be_bytes_rev)

lemma to_le_bytes_inject [simp]:
  assumes "8 dvd LENGTH('a)"
  shows "to_le_bytes (v :: 'a::len word) = to_le_bytes w \<longleftrightarrow> v = w"
  using from_le_bytes_to_le_bytes [OF assms] by metis

lemma to_be_bytes_inject [simp]:
  assumes "8 dvd LENGTH('a)"
  shows "to_be_bytes (v :: 'a::len word) = to_be_bytes w \<longleftrightarrow> v = w"
  using from_be_bytes_to_be_bytes [OF assms] by metis

section \<open>Slices and chunks\<close>

text \<open>\<open>slice a n xs\<close> is \<open>xs[a..a + n]\<close>; \<open>copy_at a src xs\<close> is \<open>xs[a..a + src.len()]\<close> overwritten.\<close>

definition slice :: "nat \<Rightarrow> nat \<Rightarrow> 'a list \<Rightarrow> 'a list" where
  "slice a n xs = take n (drop a xs)"

definition copy_at :: "nat \<Rightarrow> 'a list \<Rightarrow> 'a list \<Rightarrow> 'a list" where
  "copy_at a src xs = take a xs @ src @ drop (a + length src) xs"

text \<open>\<open>xs.get(a..a + n)\<close>: None when the range runs past the end.\<close>

definition get_slice :: "nat \<Rightarrow> nat \<Rightarrow> 'a list \<Rightarrow> 'a list option" where
  "get_slice a n xs = (if a + n \<le> length xs then Some (slice a n xs) else None)"

definition get :: "'a list \<Rightarrow> nat \<Rightarrow> 'a option" where
  "get xs i = (if i < length xs then Some (xs ! i) else None)"

text \<open>\<open>xs.chunks(n)\<close>: consecutive pieces of \<open>n\<close> elements, the last one possibly shorter.\<close>

function chunks :: "nat \<Rightarrow> 'a list \<Rightarrow> 'a list list" where
  "chunks n xs = (if xs = [] \<or> n = 0 then [] else take n xs # chunks n (drop n xs))"
  by pat_completeness auto
termination
  by (relation "measure (\<lambda>(n, xs). length xs)") auto

declare chunks.simps [simp del]

lemma chunks_Nil [simp]: "chunks n [] = []"
  by (simp add: chunks.simps)

lemma chunks_Cons: "xs \<noteq> [] \<Longrightarrow> 0 < n \<Longrightarrow> chunks n xs = take n xs # chunks n (drop n xs)"
  by (simp add: chunks.simps [of n xs])

lemma concat_chunks [simp]: "0 < n \<Longrightarrow> concat (chunks n xs) = xs"
  by (induction n xs rule: chunks.induct) (subst chunks.simps, auto)

lemma enumerate_chunks_Cons:
  "xs \<noteq> [] \<Longrightarrow> 0 < m \<Longrightarrow>
   enumerate k (chunks m xs) = (k, take m xs) # enumerate (Suc k) (chunks m (drop m xs))"
  by (simp add: chunks_Cons)

lemma length_slice [simp]: "length (slice a n xs) = min n (length xs - a)"
  by (simp add: slice_def)

lemma nth_slice: "i < n \<Longrightarrow> a + i < length xs \<Longrightarrow> slice a n xs ! i = xs ! (a + i)"
  by (simp add: slice_def)

lemma length_copy_at [simp]:
  "a + length src \<le> length xs \<Longrightarrow> length (copy_at a src xs) = length xs"
  by (simp add: copy_at_def)

lemma nth_copy_at:
  "a + length src \<le> length xs \<Longrightarrow> i < length xs \<Longrightarrow>
   copy_at a src xs ! i = (if a \<le> i \<and> i < a + length src then src ! (i - a) else xs ! i)"
  by (auto simp: copy_at_def nth_append)

lemma slice_copy_at_same [slice_simps]:
  "a + length src \<le> length xs \<Longrightarrow> n = length src \<Longrightarrow> slice a n (copy_at a src xs) = src"
  by (simp add: slice_def copy_at_def)

lemma slice_copy_at_other [slice_simps]:
  "b + length src \<le> length xs \<Longrightarrow> a + n \<le> b \<or> b + length src \<le> a \<Longrightarrow>
   slice a n (copy_at b src xs) = slice a n xs"
  by (rule nth_equalityI) (auto simp: slice_def nth_copy_at)

lemma nth_copy_at_other [slice_simps]:
  "b + length src \<le> length xs \<Longrightarrow> i < b \<or> b + length src \<le> i \<Longrightarrow> i < length xs \<Longrightarrow>
   copy_at b src xs ! i = xs ! i"
  by (auto simp: nth_copy_at)

lemma slice_append1 [slice_simps]: "a + n \<le> length xs \<Longrightarrow> slice a n (xs @ ys) = slice a n xs"
  by (simp add: slice_def)

lemma slice_append2 [slice_simps]: "a = length xs \<Longrightarrow> slice a n (xs @ ys) = take n ys"
  by (simp add: slice_def)

lemma slice_full [slice_simps]: "length xs \<le> n \<Longrightarrow> slice 0 n xs = xs"
  by (simp add: slice_def)

lemma slice_list_update_other [slice_simps]:
  "i < a \<or> a + n \<le> i \<Longrightarrow> slice a n (xs[i := v]) = slice a n xs"
  by (rule nth_equalityI) (auto simp: slice_def)

text \<open>A per-chunk rewrite that keeps each chunk's length, read at one index.\<close>

lemma length_concat_chunks:
  assumes "\<And>i c. length (g i c) = length c" and "0 < m"
  shows "length (concat (map (\<lambda>(i, c). g i c) (enumerate k (chunks m xs)))) = length xs"
  using assms(2)
proof (induction m xs arbitrary: k rule: chunks.induct)
  case (1 n xs)
  then show ?case
    using assms(1) by (cases "xs = []") (auto simp: chunks.simps [of n xs])
qed

lemma nth_concat_chunks:
  assumes len: "\<And>i c. length (g i c) = length c" and m: "0 < m" and j: "j < length xs"
  shows "concat (map (\<lambda>(i, c). g i c) (enumerate k (chunks m xs))) ! j
           = g (k + j div m) (slice (j div m * m) m xs) ! (j mod m)"
  using m j
proof (induction m xs arbitrary: k j rule: chunks.induct)
  case (1 n xs)
  then have ne: "xs \<noteq> []" by auto
  show ?case
  proof (cases "j < n")
    case True
    with 1 ne show ?thesis
      by (simp add: enumerate_chunks_Cons nth_append len slice_def)
  next
    case False
    then have j': "j - n < length (drop n xs)" and div: "j div n = Suc ((j - n) div n)"
      and md: "(j - n) mod n = j mod n"
      using "1.prems" by (auto simp: le_div_geq le_mod_geq)
    have "slice ((j - n) div n * n) n (drop n xs) = slice (j div n * n) n xs"
      by (simp add: slice_def div add.commute)
    with False ne 1 j' show ?thesis
      by (simp add: enumerate_chunks_Cons nth_append len div md)
  qed
qed

lemma list_all_enumerate_chunks:
  assumes "0 < m"
  shows "list_all (\<lambda>(i, c). P i c) (enumerate k (chunks m xs)) \<longleftrightarrow>
     (\<forall>q. q * m < length xs \<longrightarrow> P (k + q) (slice (q * m) m xs))"
  using assms
proof (induction m xs arbitrary: k rule: chunks.induct)
  case (1 n xs)
  show ?case
  proof (cases "xs = []")
    case False
    have sl: "slice (q * n) n (drop n xs) = slice (Suc q * n) n xs" for q
      by (simp add: slice_def add.commute)
    have "list_all (\<lambda>(i, c). P i c) (enumerate k (chunks n xs)) \<longleftrightarrow>
       P k (take n xs) \<and> (\<forall>q. q * n < length xs - n \<longrightarrow> P (Suc k + q) (slice (Suc q * n) n xs))"
      using False 1 by (simp add: enumerate_chunks_Cons sl)
    also have "\<dots> \<longleftrightarrow> (\<forall>q. q * n < length xs \<longrightarrow> P (k + q) (slice (q * n) n xs))"
      (is "?l \<longleftrightarrow> ?r")
    proof
      assume l: ?l
      show ?r
      proof (intro allI impI)
        fix q assume "q * n < length xs"
        with l show "P (k + q) (slice (q * n) n xs)"
          by (cases q) (auto simp: slice_def)
      qed
    next
      assume r: ?r
      show ?l
      proof (intro conjI allI impI)
        show "P k (take n xs)" using r [rule_format, of 0] False by (simp add: slice_def)
        fix q assume "q * n < length xs - n"
        then show "P (Suc k + q) (slice (Suc q * n) n xs)"
          using r [rule_format, of "Suc q"] by simp
      qed
    qed
    finally show ?thesis .
  qed simp
qed

end
