(* ===== verification/Pattern.thy ===== *)
theory Pattern
  imports Prelude
begin

unbundle bit_operations_syntax

text \<open>
  \<open>src/rust/src/pattern.rs\<close>: the data a write puts on the device and a verifying read expects. Every
  512-byte sector starts with its absolute address mixed with the seed; the other words repeat every
  4096 bytes. \<open>fill\<close> and \<open>matches\<close> compute the pattern word by word; \<open>fill_cached\<close> and
  \<open>matches_cached\<close> copy a 4096-byte template and only restamp the addresses. The lemmas give \<open>fill\<close>
  as a function of the absolute byte address and show that the cached forms equal the plain ones.
\<close>

section \<open>Definitions\<close>

definition golden :: u64 where
  "golden = 0x9e3779b97f4a7c15"

definition mix :: "u64 \<Rightarrow> u64" where
  "mix x =
     (let x = (x XOR drop_bit 30 x) * 0xbf58476d1ce4e5b9;
          x = (x XOR drop_bit 27 x) * 0x94d049bb133111eb
      in x XOR drop_bit 31 x)"

text \<open>\<open>offset & !7\<close>: the address of the word that holds the byte.\<close>

definition align8 :: "u64 \<Rightarrow> u64" where
  "align8 a = a AND NOT 7"

definition word_pat :: "u64 \<Rightarrow> u64 \<Rightarrow> u8 list" where
  "word_pat offset seed =
     (if offset mod 512 = 0 then to_le_bytes (offset XOR seed * golden)
      else to_le_bytes (mix (((offset mod 4096) div 8) XOR seed * golden)))"

function fill :: "u8 list \<Rightarrow> u64 \<Rightarrow> u64 \<Rightarrow> u8 list" where
  "fill buf offset seed =
     (if buf = [] then []
      else let skip = unat (offset mod 8); n = min (8 - skip) (length buf)
           in slice skip n (word_pat (align8 offset) seed)
              @ fill (drop n buf) (offset + of_nat n) seed)"
  by pat_completeness auto
termination
  by (relation "measure (\<lambda>(buf, _, _). length buf)")
    (auto simp: Let_def unat_mod word_less_nat_alt)

definition stamp :: "u8 list \<Rightarrow> u64 \<Rightarrow> u64 \<Rightarrow> u8 list" where
  "stamp buf offset seed =
     concat (map (\<lambda>(i, sector).
         let n = min (length sector) 8
         in take n (word_pat (offset + of_nat i * 512) seed) @ drop n sector)
       (enumerate 0 (chunks 512 buf)))"

text \<open>
  The copy loop of \<open>fill_cached\<close>. The template is a \<open>[u8; 4096]\<close> and the phase is a remainder by its
  length, so the second disjunct of the guard, which keeps the function total, is never met.
\<close>

function copy_template :: "u8 list \<Rightarrow> nat \<Rightarrow> u8 list \<Rightarrow> u8 list" where
  "copy_template remaining phase template =
     (if remaining = [] \<or> length template \<le> phase then remaining
      else let n = min (length remaining) (length template - phase)
           in slice phase n template @ copy_template (drop n remaining) 0 template)"
  by pat_completeness auto
termination
  by (relation "measure (\<lambda>(remaining, _, _). length remaining)") (auto simp: Let_def)

definition fill_cached :: "u8 list \<Rightarrow> u64 \<Rightarrow> u64 \<Rightarrow> u8 list \<Rightarrow> u8 list" where
  "fill_cached buf offset seed template =
     (if offset mod 512 \<noteq> 0 \<or> length buf mod 512 \<noteq> 0 then fill buf offset seed
      else stamp (copy_template buf (unat offset mod length template) template) offset seed)"

function matches :: "u8 list \<Rightarrow> u64 \<Rightarrow> u64 \<Rightarrow> bool" where
  "matches buf offset seed =
     (if buf = [] then True
      else let skip = unat (offset mod 8); n = min (8 - skip) (length buf)
           in if take n buf \<noteq> slice skip n (word_pat (align8 offset) seed) then False
              else matches (drop n buf) (offset + of_nat n) seed)"
  by pat_completeness auto
termination
  by (relation "measure (\<lambda>(buf, _, _). length buf)")
    (auto simp: Let_def unat_mod word_less_nat_alt)

text \<open>
  \<open>chunks_exact(512)\<close> equals \<open>chunks(512)\<close> here, since the length is a multiple of 512; the early
  \<open>return false\<close> of the loop is the negation of \<open>list_all\<close>.
\<close>

definition matches_cached :: "u8 list \<Rightarrow> u64 \<Rightarrow> u64 \<Rightarrow> u8 list \<Rightarrow> bool" where
  "matches_cached buf offset seed template =
     (if offset mod 512 \<noteq> 0 \<or> length buf mod 512 \<noteq> 0 then matches buf offset seed
      else list_all (\<lambda>(i, sector).
          let address = offset + of_nat i * 512; phase = unat address mod length template
          in take 8 sector = word_pat address seed
             \<and> drop 8 sector = slice (phase + 8) 504 template)
        (enumerate 0 (chunks 512 buf)))"

text \<open>\<open>random\<close>: the next state and the value drawn.\<close>

definition random_u64 :: "u64 \<Rightarrow> u64 \<times> u64" where
  "random_u64 state = (let s = state + golden in (s, mix s))"

text \<open>The specification: the byte of the pattern at an absolute address.\<close>

definition byte_at :: "u64 \<Rightarrow> u64 \<Rightarrow> u8" where
  "byte_at seed a = word_pat (align8 a) seed ! unat (a mod 8)"

declare fill.simps [simp del] copy_template.simps [simp del] matches.simps [simp del]

section \<open>Addresses\<close>

lemma length_word_pat [simp]: "length (word_pat offset seed) = 8"
  by (simp add: word_pat_def)

lemma align8_shift: "align8 a = push_bit 3 (drop_bit 3 a)"
proof -
  have "a AND NOT (mask 3) = push_bit 3 (drop_bit 3 a)" for a :: u64
    by (rule bit_word_eqI) (auto simp: bit_simps)
  then show ?thesis by (simp add: align8_def mask_eq_exp_minus_1)
qed

lemma unat_align8: "unat (align8 a) = unat a div 8 * 8"
proof -
  have "unat a div 8 * 8 \<le> unat a" by simp
  also have "unat a < 2 ^ 64" using unsigned_less [of a] by simp
  finally have "unat a div 8 * 8 mod 2 ^ 64 = unat a div 8 * 8" by (rule mod_less)
  moreover have "align8 a = a div 8 * 8"
    by (simp add: align8_shift push_bit_eq_mult drop_bit_eq_div)
  ultimately show ?thesis by (simp add: unat_word_ariths unat_div)
qed

lemma unat_plus_mod:
  assumes "m dvd 2 ^ 64"
  shows "unat ((a :: u64) + of_nat i) mod m = (unat a + i) mod m"
proof -
  have "unat (a + of_nat i) = (unat a + i) mod 2 ^ 64"
    by (simp add: unat_word_ariths unat_of_nat mod_add_right_eq)
  then show ?thesis using assms by (simp add: mod_mod_cancel)
qed

lemmas unat_plus_mod_numeral =
  unat_plus_mod [of 8] unat_plus_mod [of 512] unat_plus_mod [of 4096]

lemma unat_plus_same_word:
  assumes "unat (a :: u64) mod 8 + i < 8"
  shows "unat (a + of_nat i) = unat a + i"
proof -
  have "unat a < 8 * 2 ^ 61" using unsigned_less [of a] by simp
  then have "unat a div 8 < 2 ^ 61" by (simp add: less_mult_imp_div_less mult.commute)
  moreover have "unat a = 8 * (unat a div 8) + unat a mod 8" by simp
  ultimately have "unat a + i < 8 * 2 ^ 61" using assms by linarith
  then show ?thesis by (simp add: unat_word_ariths unat_of_nat)
qed

lemma mod8_same: "n mod 8 + i < 8 \<Longrightarrow> (n + i) mod 8 = n mod 8 + (i :: nat)"
  by (metis mod_add_left_eq mod_less)

lemma div8_same:
  assumes "n mod 8 + i < 8"
  shows "(n + i) div 8 = n div (8 :: nat)"
proof -
  have "i div 8 = 0" and "i mod 8 = i" using assms by simp_all
  then show ?thesis using assms div_add1_eq [of n i 8] by simp
qed

lemma same_word: "unat (a :: u64) mod 8 + i < 8 \<Longrightarrow> align8 (a + of_nat i) = align8 a"
  by (simp add: word_unat_eq_iff unat_align8 unat_plus_same_word div8_same)

lemma byte_at_in_word:
  "unat (a :: u64) mod 8 + i < 8 \<Longrightarrow>
   byte_at seed (a + of_nat i) = word_pat (align8 a) seed ! (unat a mod 8 + i)"
  by (simp add: byte_at_def same_word unat_mod unat_plus_same_word mod8_same)

section \<open>fill is the pattern of the absolute addresses\<close>

lemma fill_byte_at: "fill buf offset seed = map (\<lambda>i. byte_at seed (offset + of_nat i)) [0..<length buf]"
proof (induction buf offset seed rule: fill.induct)
  case (1 buf offset seed)
  show ?case
  proof (cases "buf = []")
    case True
    then show ?thesis by (simp add: fill.simps)
  next
    case False
    define skip where "skip = unat (offset mod 8)"
    define n where "n = min (8 - skip) (length buf)"
    have skip: "skip = unat offset mod 8" by (simp add: skip_def unat_mod)
    then have lt: "skip < 8" by simp
    have n: "n \<le> length buf" by (simp add: n_def)
    have "slice skip n (word_pat (align8 offset) seed)
            = map (\<lambda>i. byte_at seed (offset + of_nat i)) [0..<n]"
      by (rule nth_equalityI) (auto simp: slice_def n_def skip byte_at_in_word)
    moreover have "fill (drop n buf) (offset + of_nat n) seed
            = map (\<lambda>i. byte_at seed (offset + of_nat i)) [n..<length buf]"
      using 1 False n
      by (auto simp: skip_def n_def Let_def map_add_upt [symmetric] add.commute add.assoc
          simp del: map_add_upt intro!: nth_equalityI)
    ultimately show ?thesis
      using False n upt_add_eq_append [of 0 n "length buf - n"]
      by (subst fill.simps) (simp add: Let_def skip_def [symmetric] n_def [symmetric])
  qed
qed

lemma length_fill [simp]: "length (fill buf offset seed) = length buf"
  by (simp add: fill_byte_at)

lemma nth_fill: "i < length buf \<Longrightarrow> fill buf offset seed ! i = byte_at seed (offset + of_nat i)"
  by (simp add: fill_byte_at)

lemma matches_iff_fill: "matches buf offset seed \<longleftrightarrow> buf = fill buf offset seed"
proof (induction buf offset seed rule: matches.induct)
  case (1 buf offset seed)
  show ?case
  proof (cases "buf = []")
    case True
    then show ?thesis by (simp add: matches.simps fill.simps)
  next
    case False
    define n where "n = min (8 - unat (offset mod 8)) (length buf)"
    let ?w = "slice (unat (offset mod 8)) n (word_pat (align8 offset) seed)"
    let ?rest = "fill (drop n buf) (offset + of_nat n) seed"
    have w: "length ?w = n"
      by (simp add: n_def unat_mod)
    have "buf = ?w @ ?rest \<longleftrightarrow> take n buf = ?w \<and> drop n buf = ?rest"
      using w by (metis append_eq_conv_conj append_take_drop_id)
    moreover have "fill buf offset seed = ?w @ ?rest"
      using False by (subst fill.simps) (simp add: Let_def n_def [symmetric])
    moreover have "matches buf offset seed \<longleftrightarrow>
        take n buf = ?w \<and> matches (drop n buf) (offset + of_nat n) seed"
      using False by (subst matches.simps) (simp add: Let_def n_def [symmetric])
    ultimately show ?thesis
      using 1 False by (auto simp: n_def [symmetric])
  qed
qed

section \<open>The cached forms\<close>

lemma copy_template_nth:
  assumes "length template = L" and "phase < L"
  shows "length (copy_template remaining phase template) = length remaining \<and>
    (\<forall>i < length remaining.
       copy_template remaining phase template ! i = template ! ((phase + i) mod L))"
  using assms
proof (induction remaining phase template rule: copy_template.induct)
  case (1 remaining phase template)
  show ?case
  proof (cases "remaining = []")
    case True
    then show ?thesis by (simp add: copy_template.simps)
  next
    case False
    define n where "n = min (length remaining) (L - phase)"
    let ?rest = "copy_template (drop n remaining) 0 template"
    have eq: "copy_template remaining phase template = slice phase n template @ ?rest"
      using False "1.prems" by (subst copy_template.simps) (simp add: n_def Let_def)
    have IH: "length ?rest = length remaining - n"
      "\<And>i. i < length remaining - n \<Longrightarrow> ?rest ! i = template ! (i mod L)"
      using 1 False by (auto simp: n_def)
    have len: "length (slice phase n template) = n" using "1.prems" by (simp add: n_def)
    have "(slice phase n template @ ?rest) ! i = template ! ((phase + i) mod L)"
      if i: "i < length remaining" for i
    proof (cases "i < n")
      case True
      then have "phase + i < L" unfolding n_def by linarith
      with True show ?thesis using "1.prems" len by (simp add: nth_append slice_def)
    next
      case False
      then have n: "n = L - phase" using i by (auto simp: n_def)
      then have "(phase + i) mod L = (i - n) mod L"
        using False "1.prems" by (simp add: le_mod_geq add.commute)
      then show ?thesis using False IH i len by (simp add: nth_append)
    qed
    then show ?thesis using eq len IH by (simp add: n_def)
  qed
qed

lemma length_stamp [simp]: "length (stamp buf offset seed) = length buf"
  unfolding stamp_def by (rule length_concat_chunks) (simp_all add: Let_def)

lemma nth_stamp:
  assumes "j < length buf"
  shows "stamp buf offset seed ! j =
    (if j mod 512 < 8 then word_pat (offset + of_nat (j div 512) * 512) seed ! (j mod 512)
     else buf ! j)"
proof -
  have eq: "j div 512 * 512 + j mod 512 = j" by simp
  then have in_sector: "j mod 512 < length buf - j div 512 * 512" using assms by linarith
  have "stamp buf offset seed ! j =
      (let sector = slice (j div 512 * 512) 512 buf; n = min (length sector) 8
       in take n (word_pat (offset + of_nat (j div 512) * 512) seed) @ drop n sector) ! (j mod 512)"
    using assms unfolding stamp_def by (subst nth_concat_chunks) (simp_all add: Let_def)
  also have "\<dots> = (if j mod 512 < 8
       then word_pat (offset + of_nat (j div 512) * 512) seed ! (j mod 512)
       else slice (j div 512 * 512) 512 buf ! (j mod 512))"
    using in_sector by (auto simp: Let_def nth_append)
  also have "slice (j div 512 * 512) 512 buf ! (j mod 512) = buf ! j"
    using assms eq by (subst nth_slice) simp_all
  finally show ?thesis .
qed

lemma sector_aligned: "(offset :: u64) mod 512 = 0 \<longleftrightarrow> unat offset mod 512 = 0"
  by (simp add: word_unat_eq_iff unat_mod)

lemma unat_sector: "unat (offset :: u64) mod 512 = 0 \<Longrightarrow> unat (offset + of_nat q * 512) mod 512 = 0"
  using unat_plus_mod [of 512 offset "q * 512"] by (simp add: mod_add_eq [symmetric])

lemma mod_512_div_8: "(n :: nat) mod 512 div 8 = n div 8 mod 64"
  using mod_mult2_eq [of n 8 64] by simp

lemma mod_4096_div_8: "(n :: nat) mod 4096 div 8 = n div 8 mod 512"
  using mod_mult2_eq [of n 8 512] by simp

text \<open>The first word of a sector is the stamp of the sector's address.\<close>

lemma byte_at_stamp:
  assumes "unat offset mod 512 = 0" and "j mod 512 < 8"
  shows "byte_at seed (offset + of_nat j)
    = word_pat (offset + of_nat (j div 512) * 512) seed ! (j mod 512)"
proof -
  let ?b = "offset + of_nat (j div 512) * 512"
  have b: "unat ?b mod 512 = 0" using assms(1) by (rule unat_sector)
  then have b8: "unat ?b mod 8 = 0" using mod_mod_cancel [of 8 512 "unat ?b"] by simp
  have "of_nat j = (of_nat (j div 512 * 512 + j mod 512) :: u64)" by simp
  then have "of_nat j = (of_nat (j div 512) * 512 + of_nat (j mod 512) :: u64)"
    unfolding of_nat_add of_nat_mult by simp
  then have "offset + of_nat j = ?b + of_nat (j mod 512)" by (simp add: add.assoc)
  moreover have "align8 ?b = ?b" using b8 by (simp add: word_unat_eq_iff unat_align8 mod_eq_0_iff_dvd)
  ultimately show ?thesis using assms(2) b8 byte_at_in_word [of ?b "j mod 512" seed]
    by (simp add: add.assoc)
qed

text \<open>Past it, the pattern has period 4096.\<close>

lemma byte_at_interior:
  assumes "unat a mod 4096 = unat b mod 4096" and "8 \<le> unat a mod 512"
  shows "byte_at seed a = byte_at seed b"
proof -
  have ab: "unat a mod 512 = unat b mod 512" and ab8: "unat a mod 8 = unat b mod 8"
    using assms(1) mod_mod_cancel [of 512 4096 "unat a"] mod_mod_cancel [of 512 4096 "unat b"]
      mod_mod_cancel [of 8 4096 "unat a"] mod_mod_cancel [of 8 4096 "unat b"] by simp_all
  have nz: "align8 c mod 512 \<noteq> 0" if "8 \<le> unat c mod 512" for c
  proof -
    have "unat (align8 c) mod 512 = 8 * (unat c mod 512 div 8)"
      using mult_mod_right [of 8 "unat c div 8" 64] by (simp add: unat_align8 mod_512_div_8 mult.commute)
    moreover have "0 < unat c mod 512 div 8" using that by (simp add: div_greater_zero_iff)
    ultimately show ?thesis by (simp add: word_unat_eq_iff unat_mod)
  qed
  have "unat (align8 c mod 4096 div 8) = unat c mod 4096 div 8" for c
    using mult_mod_right [of 8 "unat c div 8" 512]
    by (simp add: unat_div unat_mod unat_align8 mod_4096_div_8 mult.commute)
  then have "align8 a mod 4096 div 8 = align8 b mod 4096 div 8"
    using assms(1) by (simp add: word_unat_eq_iff)
  then show ?thesis
    using nz [of a] nz [of b] assms(2) ab ab8 by (simp add: byte_at_def word_pat_def unat_mod)
qed

text \<open>A template is what \<open>fill\<close> writes at offset 0.\<close>

definition is_template :: "u8 list \<Rightarrow> u64 \<Rightarrow> bool" where
  "is_template template seed \<longleftrightarrow> template = fill (replicate 4096 0) 0 seed"

lemma is_template_nth:
  "is_template template seed \<Longrightarrow> length template = 4096 \<and>
     (\<forall>i < 4096. template ! i = byte_at seed (of_nat i))"
  by (simp add: is_template_def nth_fill)

lemma template_interior:
  assumes t: "is_template template seed" and o: "unat offset mod 512 = 0" and j: "8 \<le> j mod 512"
  shows "template ! ((unat offset + j) mod 4096) = byte_at seed (offset + of_nat j)"
proof -
  have "template ! ((unat offset + j) mod 4096) = byte_at seed (of_nat ((unat offset + j) mod 4096))"
    using is_template_nth [OF t] by simp
  also have "\<dots> = byte_at seed (offset + of_nat j)"
  proof (rule byte_at_interior)
    let ?n = "(unat offset + j) mod 4096"
    have u: "unat (of_nat ?n :: u64) = ?n" by (simp add: unat_of_nat)
    show "unat (of_nat ?n :: u64) mod 4096 = unat (offset + of_nat j) mod 4096"
      unfolding u by (simp add: unat_plus_mod_numeral)
    have "?n mod 512 = j mod 512"
      using o by (simp add: mod_mod_cancel mod_add_eq [of "unat offset" 512 j, symmetric])
    then show "8 \<le> unat (of_nat ?n :: u64) mod 512" unfolding u using j by simp
  qed
  finally show ?thesis .
qed

lemma fill_cached_eq_fill:
  assumes t: "is_template template seed"
  shows "fill_cached buf offset seed template = fill buf offset seed"
proof (cases "offset mod 512 \<noteq> 0 \<or> length buf mod 512 \<noteq> 0")
  case True
  then show ?thesis by (simp add: fill_cached_def)
next
  case False
  then have o: "unat offset mod 512 = 0" by (simp add: sector_aligned)
  let ?c = "copy_template buf (unat offset mod 4096) template"
  have L: "length template = 4096" using is_template_nth [OF t] by simp
  note c = copy_template_nth [OF L, of "unat offset mod 4096" buf]
  have "stamp ?c offset seed = fill buf offset seed"
  proof (rule nth_equalityI)
    show "length (stamp ?c offset seed) = length (fill buf offset seed)" using c by simp
    fix j assume "j < length (stamp ?c offset seed)"
    then have j: "j < length ?c" and j': "j < length buf" using c by simp_all
    show "stamp ?c offset seed ! j = fill buf offset seed ! j"
      using nth_stamp [OF j] byte_at_stamp [OF o, of j] template_interior [OF t o, of j] c j'
      by (auto simp: nth_fill mod_add_left_eq)
  qed
  then show ?thesis using False L by (simp add: fill_cached_def)
qed

text \<open>One sector of the cached comparison against the plain pattern.\<close>

lemma sector_matches:
  assumes t: "is_template template seed" and o: "unat offset mod 512 = 0"
    and q: "q * 512 + 512 \<le> length buf"
  defines "sector \<equiv> slice (q * 512) 512 buf" and "address \<equiv> offset + of_nat q * 512"
  shows "take 8 sector = word_pat address seed
      \<and> drop 8 sector = slice (unat address mod 4096 + 8) 504 template
    \<longleftrightarrow> (\<forall>r < 512. buf ! (q * 512 + r) = byte_at seed (offset + of_nat (q * 512 + r)))"
proof -
  have a: "unat address mod 512 = 0" using o unat_sector by (simp add: address_def)
  have addr: "offset + of_nat (q * 512 + r) = address + of_nat r" for r
    by (simp add: address_def add.assoc)
  have sec: "sector ! r = buf ! (q * 512 + r)" if "r < 512" for r
    using that q by (simp add: sector_def nth_slice)
  have len: "length sector = 512" using q by (simp add: sector_def)
  have L: "length template = 4096" using is_template_nth [OF t] by simp
  have room: "unat address mod 4096 + 512 \<le> 4096"
  proof -
    have "unat address mod 4096 = 512 * (unat address div 512 mod 8)"
      using mod_mult2_eq [of "unat address" 512 8] a by simp
    moreover have "unat address div 512 mod 8 \<le> 7" by simp
    ultimately show ?thesis by linarith
  qed
  have head: "word_pat address seed ! r = byte_at seed (address + of_nat r)" if "r < 8" for r
    using byte_at_stamp [OF a, of r] that by simp
  have body: "template ! (unat address mod 4096 + r) = byte_at seed (address + of_nat r)"
    if "8 \<le> r" "r < 512" for r
  proof -
    have "unat address mod 4096 + r < 4096" using that room by linarith
    then have "(unat address + r) mod 4096 = unat address mod 4096 + r"
      using mod_add_left_eq [of "unat address" 4096 r] by simp
    then show ?thesis using template_interior [OF t a, of r] that by simp
  qed
  have take8: "take 8 sector = word_pat address seed \<longleftrightarrow>
      (\<forall>r < 8. sector ! r = byte_at seed (address + of_nat r))"
    using len head by (auto simp: list_eq_iff_nth_eq)
  have drop8: "drop 8 sector = slice (unat address mod 4096 + 8) 504 template \<longleftrightarrow>
      (\<forall>r < 504. sector ! (8 + r) = byte_at seed (address + of_nat (8 + r)))"
  proof -
    have "drop 8 sector ! r = sector ! (8 + r)" for r using len by simp
    moreover have "slice (unat address mod 4096 + 8) 504 template ! r
        = byte_at seed (address + of_nat (8 + r))" if "r < 504" for r
      using body [of "8 + r"] that L room by (subst nth_slice) (simp_all add: add.assoc)
    moreover have "length (slice (unat address mod 4096 + 8) 504 template) = 504"
      using L room by simp
    ultimately show ?thesis using len by (simp add: list_eq_iff_nth_eq)
  qed
  have split: "(\<forall>r < 512. P r) \<longleftrightarrow> (\<forall>r < 8. P r) \<and> (\<forall>r < 504. P (8 + r))" for P :: "nat \<Rightarrow> bool"
  proof (intro iffI conjI allI impI)
    fix r :: nat assume *: "(\<forall>r < 8. P r) \<and> (\<forall>r < 504. P (8 + r))" and r: "r < 512"
    show "P r"
    proof (cases "r < 8")
      case False
      then show ?thesis using * [THEN conjunct2, rule_format, of "r - 8"] r by simp
    qed (use * in simp)
  qed auto
  have "(\<forall>r < 512. sector ! r = byte_at seed (address + of_nat r)) \<longleftrightarrow>
      (\<forall>r < 512. buf ! (q * 512 + r) = byte_at seed (offset + of_nat (q * 512 + r)))"
    using sec by (simp only: addr) auto
  then show ?thesis
    unfolding take8 drop8 split [of "\<lambda>r. sector ! r = byte_at seed (address + of_nat r)", symmetric] .
qed

lemma matches_cached_eq_matches:
  assumes t: "is_template template seed"
  shows "matches_cached buf offset seed template = matches buf offset seed"
proof (cases "offset mod 512 \<noteq> 0 \<or> length buf mod 512 \<noteq> 0")
  case True
  then show ?thesis by (simp add: matches_cached_def)
next
  case False
  then have o: "unat offset mod 512 = 0" by (simp add: sector_aligned)
  have L: "length template = 4096" using is_template_nth [OF t] by simp
  from False obtain k where k: "length buf = k * 512" by (auto simp: mult.commute)
  have "matches_cached buf offset seed template \<longleftrightarrow>
      (\<forall>q. q < k \<longrightarrow> (\<forall>r < 512.
         buf ! (q * 512 + r) = byte_at seed (offset + of_nat (q * 512 + r))))"
    using False k L sector_matches [OF t o, of _ buf]
    by (simp add: matches_cached_def list_all_enumerate_chunks Let_def)
  also have "\<dots> \<longleftrightarrow> (\<forall>i < k * 512. buf ! i = byte_at seed (offset + of_nat i))"
  proof (intro iffI allI impI)
    fix i assume *: "\<forall>q. q < k \<longrightarrow> (\<forall>r < 512.
         buf ! (q * 512 + r) = byte_at seed (offset + of_nat (q * 512 + r)))" and i: "i < k * 512"
    then show "buf ! i = byte_at seed (offset + of_nat i)"
      using * [rule_format, of "i div 512" "i mod 512"] by (simp add: less_mult_imp_div_less)
  next
    fix q r :: nat assume *: "\<forall>i < k * 512. buf ! i = byte_at seed (offset + of_nat i)"
      and q: "q < k" and r: "r < 512"
    have "q * 512 + 512 \<le> k * 512" using q by simp
    then have "q * 512 + r < k * 512" using r by linarith
    then show "buf ! (q * 512 + r) = byte_at seed (offset + of_nat (q * 512 + r))"
      using * by blast
  qed
  also have "\<dots> \<longleftrightarrow> buf = fill buf offset seed"
    using k by (auto simp: list_eq_iff_nth_eq fill_byte_at)
  finally show ?thesis by (simp add: matches_iff_fill)
qed

text \<open>The stamp of a sector is its address under a seeded bijection, so it tells addresses apart.\<close>

lemma word_pat_sector_inject:
  assumes "a mod 512 = 0" and "b mod 512 = 0"
  shows "word_pat a seed = word_pat b seed \<longleftrightarrow> a = b"
proof -
  have "a = b" if "a XOR c = b XOR c" for c :: u64
  proof -
    have "(a XOR c) XOR c = (b XOR c) XOR c" using that by simp
    then show ?thesis by (simp only: xor.assoc xor_self_eq xor.right_neutral)
  qed
  then show ?thesis using assms by (auto simp: word_pat_def)
qed

section \<open>Injectivity and the properties of the pattern\<close>

lemma mult_odd_inject:
  assumes "c * d = (1 :: u64)"
  shows "x * c = y * c \<longleftrightarrow> x = y"
proof
  assume "x * c = y * c"
  then have "x * (c * d) = y * (c * d)" by (simp only: mult.assoc [symmetric])
  then show "x = y" by (simp add: assms)
qed simp

lemma golden_inject: "x * golden = y * golden \<longleftrightarrow> x = y"
  by (rule mult_odd_inject [of _ "0xf1de83e19937733d"]) (simp add: golden_def)

lemma xor_shift_inject:
  fixes x y :: u64
  assumes "0 < k" and "x XOR drop_bit k x = y XOR drop_bit k y"
  shows "x = y"
proof (rule bit_word_eqI)
  have "bit x n \<longleftrightarrow> bit y n" for n
  proof (induction "64 - n" arbitrary: n rule: less_induct)
    case less
    show ?case
    proof (cases "n < 64")
      case True
      have "bit x (k + n) \<longleftrightarrow> bit y (k + n)" using True assms(1) by (intro less) simp
      moreover have "bit (x XOR drop_bit k x) n \<longleftrightarrow> bit (y XOR drop_bit k y) n" using assms(2) by simp
      ultimately show ?thesis by (auto simp: bit_simps)
    next
      case False
      then show ?thesis by (simp add: impossible_bit)
    qed
  qed
  then show "bit x n \<longleftrightarrow> bit y n" for n .
qed

lemma mix_inject: "mix x = mix y \<longleftrightarrow> x = y"
proof
  have m1: "a * 0xbf58476d1ce4e5b9 = b * (0xbf58476d1ce4e5b9 :: u64) \<longleftrightarrow> a = b" for a b
    by (rule mult_odd_inject [of _ "0x96de1b173f119089"]) simp
  have m2: "a * 0x94d049bb133111eb = b * (0x94d049bb133111eb :: u64) \<longleftrightarrow> a = b" for a b
    by (rule mult_odd_inject [of _ "0x319642b2d24d8ec3"]) simp
  assume "mix x = mix y"
  then show "x = y"
    unfolding mix_def Let_def
    by (elim xor_shift_inject [of 31, OF zero_less_numeral, elim_format] xor_shift_inject [of 27, OF zero_less_numeral, elim_format]
        xor_shift_inject [of 30, OF zero_less_numeral, elim_format])
      (auto simp only: m1 m2 dest!: xor_shift_inject [of 27, OF zero_less_numeral] xor_shift_inject [of 30, OF zero_less_numeral] xor_shift_inject [of 31, OF zero_less_numeral])
qed simp

text \<open>The first \<open>n\<close> values drawn from a state.\<close>

fun draws :: "nat \<Rightarrow> u64 \<Rightarrow> u64 list" where
  "draws 0 state = []"
| "draws (Suc n) state = (let (state, r) = random_u64 state in r # draws n state)"

lemma draws_eq: "draws n state = map (\<lambda>i. mix (state + of_nat (Suc i) * golden)) [0..<n]"
proof (induction n arbitrary: state)
  case (Suc n)
  have "[0..<Suc n] = 0 # map Suc [0..<n]" by (simp add: upt_conv_Cons map_Suc_upt del: upt_Suc)
  then show ?case using Suc by (simp add: random_u64_def Let_def algebra_simps del: upt_Suc)
qed simp

text \<open>
  the pattern generator does not repeat. \<open>mix\<close> is a bijection and the state advances by an odd
  constant, so the first \<open>2^64\<close> draws from any state are pairwise different.
\<close>

theorem random_full_period: "n \<le> 2 ^ 64 \<Longrightarrow> distinct (draws n state)"
proof -
  assume n: "n \<le> 2 ^ 64"
  have "inj_on (\<lambda>i. mix (state + of_nat (Suc i) * golden)) {..<n}"
  proof (rule inj_onI)
    fix i j assume ij: "i \<in> {..<n}" "j \<in> {..<n}"
      and "mix (state + of_nat (Suc i) * golden) = mix (state + of_nat (Suc j) * golden)"
    then have "(of_nat i :: u64) = of_nat j" by (simp add: mix_inject golden_inject flip: of_nat_Suc) simp
    then have "unat (of_nat i :: u64) = unat (of_nat j :: u64)" by simp
    then show "i = j" using ij n by (simp add: unat_of_nat)
  qed
  then show ?thesis by (simp add: draws_eq distinct_map atLeast0LessThan)
qed

theorem random_full_period_witness: "3 \<le> (2 :: nat) ^ 64 \<and> distinct (draws 3 42)"
  using random_full_period [of 3 42] by simp

text \<open>
  C21: the template forms are the plain ones. For every buffer, offset and seed, writing with the
  4096-byte template built by \<open>fill\<close> at offset 0 produces the bytes \<open>fill\<close> produces, and checking against
  it accepts exactly the buffers \<open>matches\<close> accepts.
\<close>

theorem cached_pattern_agrees:
  "fill_cached buf offset seed (fill (replicate 4096 0) 0 seed) = fill buf offset seed
   \<and> matches_cached buf offset seed (fill (replicate 4096 0) 0 seed) = matches buf offset seed"
  using fill_cached_eq_fill [of "fill (replicate 4096 0) 0 seed" seed buf offset]
    matches_cached_eq_matches [of "fill (replicate 4096 0) 0 seed" seed buf offset]
  by (simp add: is_template_def)

text \<open>
  C22: overlapping writes agree byte for byte. Any part of what \<open>fill\<close> wrote, read back on its own, is what
  \<open>matches\<close> expects at its own address, and no other buffer of that length is accepted there.
\<close>

theorem read_back_of_fill:
  assumes "a + n \<le> length buf" and "length got = n"
  shows "matches got (offset + of_nat a) seed \<longleftrightarrow> got = slice a n (fill buf offset seed)"
proof -
  have "slice a n (fill buf offset seed) = fill got (offset + of_nat a) seed"
    using assms by (intro nth_equalityI) (auto simp: nth_slice nth_fill add.assoc)
  then show ?thesis by (simp add: matches_iff_fill)
qed

theorem read_back_of_fill_witness:
  "matches (slice 8 4 (fill (replicate 16 0) 512 9)) (512 + of_nat 8) 9"
  using read_back_of_fill [of 8 4 "replicate 16 0" "slice 8 4 (fill (replicate 16 0) 512 9)" 512 9] by simp

section \<open>The stamp of a sector\<close>

lemma sector_plus_8:
  fixes a :: u64
  assumes "a mod 512 = 0"
  shows "unat a mod 8 = 0" "unat (a + 8) mod 8 = 0" "(a + 8) mod 512 \<noteq> 0"
proof -
  have u: "unat a mod 512 = 0" using assms by (simp add: sector_aligned)
  then show "unat a mod 8 = 0" using mod_mod_cancel [of 8 512 "unat a"] by simp
  then show "unat (a + 8) mod 8 = 0" using unat_plus_mod [of 8 a 8] by (simp add: mod_add_eq [symmetric])
  have "unat (a + 8) mod 512 = (unat a + 8) mod 512" using unat_plus_mod [of 512 a 8] by simp
  also have "\<dots> = (unat a mod 512 + 8) mod 512" by (simp only: mod_add_left_eq)
  also have "\<dots> = 8" using u by simp
  finally show "(a + 8) mod 512 \<noteq> 0" by (simp add: sector_aligned)
qed

lemma fill_word:
  assumes "unat a mod 8 = 0" and "8 \<le> length buf"
  shows "take 8 (fill buf a seed) = word_pat a seed" "drop 8 (fill buf a seed) = fill (drop 8 buf) (a + 8) seed"
proof -
  have "align8 a = a" using assms(1) by (simp add: word_unat_eq_iff unat_align8 mod_eq_0_iff_dvd)
  moreover have "unat (a mod 8) = 0" using assms(1) by (simp add: unat_mod)
  ultimately have "fill buf a seed = word_pat a seed @ fill (drop 8 buf) (a + 8) seed"
    using assms(2) by (subst fill.simps) (auto simp: Let_def slice_def min_def)
  then show "take 8 (fill buf a seed) = word_pat a seed" "drop 8 (fill buf a seed) = fill (drop 8 buf) (a + 8) seed"
    by simp_all
qed

lemma xor_left_cancel: "x = y" if "c XOR x = c XOR y" for c x y :: u64
  using arg_cong [OF that, of "\<lambda>z. c XOR z"] by (simp only: xor.assoc [symmetric] xor_self_eq xor.left_neutral)

lemma sector_high_bits:
  fixes a b x y :: u64
  assumes "a mod 512 = 0" and "b mod 512 = 0" and "x < 512" and "y < 512" and "a XOR x = b XOR y"
  shows "a = b"
proof -
  have z: "drop_bit 9 z = 0" if "z < 512" for z :: u64
    using that by (simp add: drop_bit_eq_div word_less_nat_alt word_unat_eq_iff unat_div)
  have "drop_bit 9 a = drop_bit 9 b"
    using arg_cong [OF assms(5), of "drop_bit 9"] assms(3,4) by (simp add: z)
  then have "a div 512 = b div 512" by (simp add: drop_bit_eq_div)
  then show ?thesis using assms(1,2) by (metis add.right_neutral div_mult_mod_eq)
qed

text \<open>The first two words of a sector determine its address and its seed.\<close>

lemma sector_words_inject:
  assumes "a mod 512 = 0" and "b mod 512 = 0"
    and "word_pat a s = word_pat b t" and "word_pat (a + 8) s = word_pat (b + 8) t"
  shows "a = b \<and> s = t"
proof -
  let ?lo = "\<lambda>a :: u64. (a + 8) mod 4096 div 8"
  have lo: "?lo c < 512" for c by (simp add: word_less_nat_alt unat_div unat_mod)
  have e1: "a XOR s * golden = b XOR t * golden" using assms(1-3) by (simp add: word_pat_def)
  have e2: "?lo a XOR s * golden = ?lo b XOR t * golden"
    using assms(4) sector_plus_8(3) [OF assms(1)] sector_plus_8(3) [OF assms(2)] by (simp add: word_pat_def mix_inject)
  have c: "(x XOR z) XOR (y XOR z) = x XOR y" for x y z :: u64
    by (rule bit_word_eqI) (auto simp: bit_xor_iff)
  have "a XOR ?lo a = (a XOR s * golden) XOR (?lo a XOR s * golden)" by (rule c [symmetric])
  also have "\<dots> = b XOR ?lo b" unfolding e1 e2 by (rule c)
  finally have "a = b" by (rule sector_high_bits [OF assms(1,2) lo lo])
  moreover have "s * golden = t * golden" using e1 unfolding \<open>a = b\<close> by (rule xor_left_cancel)
  ultimately show ?thesis by (simp add: golden_inject)
qed

text \<open>
  C23: a misdirected or stale sector is caught. What was written for another sector address, with another
  seed, or with both never passes the check of a sector-aligned read of at least two words; a read of one
  word is enough when only the address or only the seed differs.
\<close>

theorem wrong_sector_detected:
  assumes "offset mod 512 = 0" and "other mod 512 = 0" and "(other, seed') \<noteq> (offset, seed)"
    and "16 \<le> length buf \<or> 8 \<le> length buf \<and> (other = offset \<or> seed' = seed)"
  shows "\<not> matches (fill buf other seed') offset seed"
proof
  assume "matches (fill buf other seed') offset seed"
  then have eq: "fill buf other seed' = fill (fill buf other seed') offset seed" by (simp add: matches_iff_fill)
  have len: "8 \<le> length buf" using assms(4) by auto
  note w = fill_word [OF sector_plus_8(1)]
  have e1: "word_pat other seed' = word_pat offset seed"
    using arg_cong [OF eq, of "take 8"] assms(1,2) len by (simp add: w(1))
  show False
  proof (cases "other = offset \<or> seed' = seed")
    case True
    then show ?thesis
    proof
      assume "seed' = seed"
      then show False using e1 assms(1-3) by (simp add: word_pat_sector_inject)
    next
      assume "other = offset"
      then have "offset XOR seed' * golden = offset XOR seed * golden" using e1 assms(1) by (simp add: word_pat_def)
      then have "seed' * golden = seed * golden" by (rule xor_left_cancel)
      then show False using \<open>other = offset\<close> assms(3) by (simp add: golden_inject)
    qed
  next
    case False
    then have "16 \<le> length buf" using assms(4) by auto
    then have "word_pat (other + 8) seed' = word_pat (offset + 8) seed"
      using arg_cong [OF eq, of "\<lambda>x. take 8 (drop 8 x)"] assms(1,2)
      by (simp add: w(2) fill_word(1) [OF sector_plus_8(2)])
    with e1 assms(1-3) show False using sector_words_inject [of other offset seed' seed] by simp
  qed
qed

theorem wrong_sector_detected_witness:
  "\<not> matches (fill (replicate 512 0) 1024 9) 512 7"
  using wrong_sector_detected [of 512 1024 9 7 "replicate 512 0"] by simp

end
