(* ===== verification/F64.thy ===== *)
theory F64
  imports Complex_Main "HOL-Library.Log_Nat" Text
begin

text \<open>
  Rust's \<open>f64\<close> as far as the command line and the position table use it: a finite value is the
  rational it denotes, a literal is read by rounding the decimal number to the nearest value of the
  binary64 grid (ties to even), and an integer cast rounds the same way. The sign of zero is dropped:
  the program only compares, scales and truncates these values.
\<close>

section \<open>Values and rounding\<close>

datatype f64 = NaN | Infinity | NegInfinity | Finite rat

definition two_pow :: "int \<Rightarrow> rat" where
  "two_pow e = (if 0 \<le> e then 2 ^ nat e else 1 / 2 ^ nat (- e))"

text \<open>The exponent \<open>e\<close> with \<open>2^e \<le> x < 2^(e+1)\<close>, for a positive \<open>x\<close>.\<close>

definition floor_log2 :: "rat \<Rightarrow> int" where
  "floor_log2 x =
     (let (a, b) = quotient_of x; k = bitlen a - bitlen b
      in if two_pow k \<le> x then k else k - 1)"

definition round_half_even :: "rat \<Rightarrow> int" where
  "round_half_even x =
     (let f = \<lfloor>x\<rfloor>; d = x - of_int f
      in if d < 1 / 2 then f else if 1 / 2 < d then f + 1 else if even f then f else f + 1)"

text \<open>Round to nearest, ties to even, with 53 significant bits and a least exponent of -1074.\<close>

definition f64_of_rat :: "rat \<Rightarrow> f64" where
  "f64_of_rat x =
     (if x = 0 then Finite 0
      else let e = max (floor_log2 \<bar>x\<bar>) (- 1022); ulp = two_pow (e - 52);
               y = of_int (round_half_even (\<bar>x\<bar> / ulp)) * ulp
           in if two_pow 1024 \<le> y then (if x < 0 then NegInfinity else Infinity)
              else Finite (if x < 0 then - y else y))"

text \<open>\<open>x as f64\<close> for an unsigned 64-bit integer: always finite.\<close>

definition f64_of_nat :: "nat \<Rightarrow> rat" where
  "f64_of_nat n = (case f64_of_rat (of_nat n) of Finite y \<Rightarrow> y | _ \<Rightarrow> 0)"

section \<open>Reading a number\<close>

definition lower :: "char \<Rightarrow> char" where
  "lower c = (let n = of_char c :: nat in if 65 \<le> n \<and> n \<le> 90 then char_of (n + 32) else c)"

text \<open>The digits at the front of a string: how many, their value, and what follows.\<close>

fun take_digits :: "nat \<Rightarrow> nat \<Rightarrow> string \<Rightarrow> nat \<times> nat \<times> string" where
  "take_digits n acc [] = (n, acc, [])"
| "take_digits n acc (c # cs) =
     (if is_digit c then take_digits (Suc n) (10 * acc + digit_value c) cs else (n, acc, c # cs))"

definition ten_pow :: "int \<Rightarrow> rat" where
  "ten_pow e = (if 0 \<le> e then 10 ^ nat e else 1 / 10 ^ nat (- e))"

text \<open>An optional exponent, which must be the rest of the string.\<close>

definition parse_exponent :: "string \<Rightarrow> int option" where
  "parse_exponent s =
     (case s of [] \<Rightarrow> Some 0
      | c # cs \<Rightarrow>
          if lower c = CHR ''e'' then
            (let (neg, t) = (case cs of d # ds \<Rightarrow>
                   if d = CHR ''-'' then (True, ds) else if d = CHR ''+'' then (False, ds)
                   else (False, cs) | [] \<Rightarrow> (False, []));
                 (n, v, rest) = take_digits 0 0 t
             in if n = 0 \<or> rest \<noteq> [] then None else Some (if neg then - int v else int v))
          else None)"

definition parse_number :: "string \<Rightarrow> rat option" where
  "parse_number s =
     (let (n1, v1, rest1) = take_digits 0 0 s;
          (n2, v2, rest2) = (case rest1 of c # cs \<Rightarrow>
              if c = CHR ''.'' then take_digits 0 v1 cs else (0, v1, rest1) | [] \<Rightarrow> (0, v1, []))
      in if n1 + n2 = 0 then None
         else map_option (\<lambda>e. of_nat v2 * ten_pow (e - int n2)) (parse_exponent rest2))"

definition parse_f64 :: "string \<Rightarrow> f64 option" where
  "parse_f64 s =
     (let (neg, t) = (case s of c # cs \<Rightarrow>
            if c = CHR ''-'' then (True, cs) else if c = CHR ''+'' then (False, cs) else (False, s)
          | [] \<Rightarrow> (False, []));
          l = map lower t
      in if l = ''inf'' \<or> l = ''infinity'' then Some (if neg then NegInfinity else Infinity)
         else if l = ''nan'' then Some NaN
         else map_option (\<lambda>x. f64_of_rat (if neg then - x else x)) (parse_number t))"

section \<open>Lemmas\<close>

lemma two_pow_pos [simp]: "0 < two_pow e"
  by (simp add: two_pow_def)

lemma round_half_even_of_int [simp]: "round_half_even (of_int k) = k"
  by (simp add: round_half_even_def)

lemma round_half_even_0 [simp]: "round_half_even 0 = 0"
  using round_half_even_of_int [of 0] by (simp only: of_int_0)

lemma round_half_even_mono:
  assumes "x \<le> y"
  shows "round_half_even x \<le> round_half_even y"
proof (cases "\<lfloor>x\<rfloor> = \<lfloor>y\<rfloor>")
  case True
  then have "x - of_int \<lfloor>x\<rfloor> \<le> y - of_int \<lfloor>y\<rfloor>" using assms by simp
  then show ?thesis using True by (auto simp: round_half_even_def Let_def)
next
  case False
  then have "\<lfloor>x\<rfloor> + 1 \<le> \<lfloor>y\<rfloor>" using floor_mono [OF assms] by linarith
  moreover have "round_half_even x \<le> \<lfloor>x\<rfloor> + 1" and "\<lfloor>y\<rfloor> \<le> round_half_even y"
    by (auto simp: round_half_even_def Let_def)
  ultimately show ?thesis by linarith
qed

lemma two_pow_add: "two_pow (a + b) = two_pow a * two_pow b"
proof -
  have "two_pow e = 2 powi e" for e
    by (simp add: two_pow_def power_int_def field_simps)
  then show ?thesis by (simp add: power_int_add)
qed

lemma two_pow_of_nat [simp]: "two_pow (int n) = 2 ^ n"
  by (simp add: two_pow_def)

lemma two_pow_0 [simp]: "two_pow 0 = 1"
  by (simp add: two_pow_def)

lemma two_pow_minus: "two_pow (- e) = 1 / two_pow e"
  using two_pow_add [of e "- e"] two_pow_pos [of e]
  by (simp add: eq_divide_eq mult.commute less_imp_neq [symmetric])

lemma two_pow_ge_1: "0 \<le> e \<Longrightarrow> 1 \<le> two_pow e"
  by (simp add: two_pow_def)

lemma two_pow_gt_1: "0 < e \<Longrightarrow> 1 < two_pow e"
  by (simp add: two_pow_def)

lemma floor_log2_le:
  assumes "0 < x"
  shows "two_pow (floor_log2 x) \<le> x"
proof -
  obtain a b where ab: "quotient_of x = (a, b)" by fastforce
  then have b: "0 < b" by (rule quotient_of_denom_pos)
  have x: "x = of_int a / of_int b" using quotient_of_div [OF ab] .
  with assms b have a: "0 < a" by (simp add: zero_less_divide_iff)
  have ba: "2 ^ nat (bitlen a - 1) \<le> a" and bb: "b < 2 ^ nat (bitlen b)"
    using a b bitlen_bounds [of a] bitlen_bounds [of b] by simp_all
  have pa: "0 < bitlen a" and pb: "0 \<le> bitlen b"
    using a bitlen_eq_zero_iff [of a] bitlen_nonneg [of a] bitlen_nonneg [of b] by simp_all
  have "two_pow (bitlen a - 1) \<le> of_int a"
    using ba pa by (simp add: two_pow_def)
  moreover have "of_int b \<le> two_pow (bitlen b)"
    using bb pb by (simp add: two_pow_def less_imp_le)
  ultimately have "two_pow (bitlen a - 1) / two_pow (bitlen b) \<le> of_int a / of_int b"
    using a b by (intro frac_le) (simp_all add: less_imp_le)
  moreover have "two_pow (bitlen a - bitlen b - 1) = two_pow (bitlen a - 1) / two_pow (bitlen b)"
    using two_pow_add [of "bitlen a - 1" "- bitlen b"] by (simp add: two_pow_minus algebra_simps)
  ultimately have "two_pow (bitlen a - bitlen b - 1) \<le> x" using x by simp
  then show ?thesis by (simp add: floor_log2_def ab Let_def)
qed

lemma floor_log2_le_0:
  assumes "0 < x" and "x \<le> 1"
  shows "floor_log2 x \<le> 0"
  using floor_log2_le [OF assms(1)] assms(2) two_pow_gt_1 [of "floor_log2 x"] by linarith

text \<open>Rounding a number of the unit interval stays in it.\<close>

lemma f64_of_rat_unit:
  assumes "0 \<le> x" and "x \<le> 1"
  shows "\<exists>y. f64_of_rat x = Finite y \<and> 0 \<le> y \<and> y \<le> 1"
proof (cases "x = 0")
  case False
  define e where "e = max (floor_log2 x) (- 1022)"
  define ulp where "ulp = two_pow (e - 52)"
  define y where "y = of_int (round_half_even (x / ulp)) * ulp"
  have e: "e \<le> 0" using False assms floor_log2_le_0 [of x] by (simp add: e_def)
  have ulp: "0 < ulp" by (simp add: ulp_def)
  define k where "k = nat (52 - e)"
  have "int k + (e - 52) = 0" using e by (simp add: k_def)
  then have "two_pow (int k) * ulp = 1"
    unfolding ulp_def by (metis two_pow_add two_pow_0)
  then have k: "(of_int (2 ^ k) :: rat) * ulp = 1" by simp
  have "x / ulp \<le> of_int (2 ^ k)"
  proof -
    have "x \<le> of_int (2 ^ k) * ulp" using assms k by simp
    then show ?thesis using ulp by (simp add: pos_divide_le_eq)
  qed
  then have "round_half_even (x / ulp) \<le> 2 ^ k"
    using round_half_even_mono [of "x / ulp" "of_int (2 ^ k)"]
    by (simp only: round_half_even_of_int)
  then have "y \<le> of_int (2 ^ k) * ulp"
    unfolding y_def using ulp by (intro mult_right_mono) (simp_all add: less_imp_le)
  then have y1: "y \<le> 1" using k by simp
  have "0 \<le> round_half_even (x / ulp)"
    using round_half_even_mono [of "of_int 0" "x / ulp"] assms ulp
    by simp
  then have y0: "0 \<le> y" unfolding y_def using ulp by simp
  have "(1 :: rat) < two_pow 1024" by (rule two_pow_gt_1) simp
  then have "f64_of_rat x = Finite y"
    using False assms y1 by (simp add: f64_of_rat_def Let_def e_def ulp_def y_def)
  with y0 y1 show ?thesis by simp
qed (simp add: f64_of_rat_def)

end
