(* ===== verification/Units.thy ===== *)
theory Units
  imports F64
begin

text \<open>
  \<open>src/rust/src/cli/units.rs\<close>: the sizes, durations and numbers of the command line. \<open>size\<close> computes in
  \<open>u128\<close> with checked operations; each check is a branch here, with the bound \<open>2^128\<close> written out.
\<close>

section \<open>Definitions\<close>

definition finite_num :: "string \<Rightarrow> rat result" where
  "finite_num s =
     (case parse_f64 s of
        None \<Rightarrow> Inl (Err (''invalid number '' @ s))
      | Some (Finite v) \<Rightarrow> Inr v
      | Some _ \<Rightarrow> Inl (Err (''nonfinite number '' @ s)))"

text \<open>The suffixes in the order they are tried, with their multipliers.\<close>

definition duration_suffix :: "string \<Rightarrow> string \<times> rat" where
  "duration_suffix s =
     (case strip_suffix ''ms'' s of Some t \<Rightarrow> (t, 1 / 1000) | None \<Rightarrow>
      case strip_suffix ''s'' s of Some t \<Rightarrow> (t, 1) | None \<Rightarrow>
      case strip_suffix ''m'' s of Some t \<Rightarrow> (t, 60) | None \<Rightarrow>
      case strip_suffix ''h'' s of Some t \<Rightarrow> (t, 3600) | None \<Rightarrow>
      case strip_suffix ''d'' s of Some t \<Rightarrow> (t, 86400) | None \<Rightarrow>
      case strip_suffix ''w'' s of Some t \<Rightarrow> (t, 604800) | None \<Rightarrow> (s, 1))"

text \<open>
  The literal 0.001 and the product are rounded to binary64. \<open>Duration::try_from_secs_f64\<close> fails for a
  negative or non-finite value and for one that is \<open>2^64\<close> seconds or more.
\<close>

definition f64_mul :: "rat \<Rightarrow> rat \<Rightarrow> f64" where
  "f64_mul x y =
     (case f64_of_rat y of Finite z \<Rightarrow> f64_of_rat (x * z) | other \<Rightarrow> other)"

definition duration_num :: "string \<Rightarrow> rat option result" where
  "duration_num s =
     (if s = ''-1'' then Inr None
      else let (number, multiplier) = duration_suffix s
           in and_then (finite_num number) (\<lambda>v.
                case f64_mul v multiplier of
                  Finite seconds \<Rightarrow>
                    if seconds \<le> 0 \<or> 2 ^ 64 \<le> seconds
                    then Inl (Err ''duration must be positive (seconds, ms/s/m/h/d/w suffix) or -1'')
                    else Inr (Some seconds)
                | _ \<Rightarrow> Inl (Err ''duration must be positive (seconds, ms/s/m/h/d/w suffix) or -1'')))"

definition size_unit :: "string \<Rightarrow> nat \<Rightarrow> nat option" where
  "size_unit tail dflt =
     (if tail = [] then Some dflt
      else if tail = ''B'' then Some 1
      else if tail = ''k'' \<or> tail = ''K'' \<or> tail = ''KB'' then Some 1000
      else if tail = ''M'' \<or> tail = ''MB'' then Some 1000000
      else if tail = ''G'' \<or> tail = ''GB'' then Some 1000000000
      else if tail = ''T'' \<or> tail = ''TB'' then Some 1000000000000
      else if tail = ''KiB'' then Some 1024
      else if tail = ''MiB'' then Some 1048576
      else if tail = ''GiB'' then Some 1073741824
      else if tail = ''TiB'' then Some 1099511627776
      else None)"

text \<open>\<open>checked_mul\<close> and \<open>checked_add\<close> on \<open>u128\<close>.\<close>

definition checked_u128 :: "nat \<Rightarrow> nat option" where
  "checked_u128 n = (if n < 2 ^ 128 then Some n else None)"

text \<open>\<open>whole.checked_mul(scale).and_then(add fraction).and_then(mul unit)\<close>.\<close>

definition scaled_value :: "nat \<Rightarrow> nat \<Rightarrow> nat \<Rightarrow> nat \<Rightarrow> nat option" where
  "scaled_value whole scale fraction unit =
     Option.bind (checked_u128 (whole * scale)) (\<lambda>v.
       Option.bind (checked_u128 (v + fraction)) (\<lambda>v. checked_u128 (v * unit)))"

definition size_num :: "string \<Rightarrow> nat \<Rightarrow> nat result" where
  "size_num s dflt =
     (let n = length (takeWhile (\<lambda>c. is_digit c \<or> c = CHR ''.'') s);
          invalid = Inl (Err (''invalid size '' @ s))
      in case size_unit (drop n s) dflt of
           None \<Rightarrow> invalid
         | Some unit \<Rightarrow>
             (let (whole, fraction) =
                (case split_once (\<lambda>c. c = CHR ''.'') (take n s) of
                   Some p \<Rightarrow> p | None \<Rightarrow> (take n s, []))
              in if whole = [] \<and> fraction = [] then invalid
                 else case (if whole = [] then Some 0 else parse_uint 128 whole) of
                   None \<Rightarrow> invalid
                 | Some w \<Rightarrow>
                 (case checked_u128 (10 ^ length fraction) of
                   None \<Rightarrow> Inl (Err ''size precision overflow'')
                 | Some scale \<Rightarrow>
                 (case (if fraction = [] then Some 0 else parse_uint 128 fraction) of
                   None \<Rightarrow> invalid
                 | Some f \<Rightarrow>
                 (case scaled_value w scale f unit of
                   None \<Rightarrow> Inl (Err ''size overflow'')
                 | Some v \<Rightarrow>
                     if v mod scale \<noteq> 0 \<or> 2 ^ 63 - 1 < v div scale then invalid
                     else Inr (v div scale))))))"

definition integer_num :: "string \<Rightarrow> nat result" where
  "integer_num s = ok_or (parse_uint 64 s) (''invalid unsigned integer '' @ s)"

section \<open>Lemmas\<close>

lemma finite_num_Inr: "finite_num s = Inr v \<longleftrightarrow> parse_f64 s = Some (Finite v)"
  by (auto simp: finite_num_def split: option.splits f64.splits)

lemma checked_u128_SomeD: "checked_u128 n = Some m \<Longrightarrow> m = n"
  by (simp add: checked_u128_def split: if_split_asm)

lemma scaled_value_Some: "scaled_value w scale f u = Some p \<Longrightarrow> p = (w * scale + f) * u"
  by (auto simp: scaled_value_def bind_eq_Some_conv dest!: checked_u128_SomeD)

lemma integer_num_bound: "integer_num s = Inr n \<Longrightarrow> n < 2 ^ 64"
  by (auto simp: integer_num_def dest: parse_uint_bound)

lemma integer_num_show_nat: "n < 2 ^ 64 \<Longrightarrow> integer_num (show_nat n) = Inr n"
  by (simp add: integer_num_def parse_uint_show_nat)

text \<open>
  What \<open>size_num\<close> accepts: digits with at most one point, a unit, and a product that is a whole number
  below \<open>2^63\<close>. \<open>w\<close> is the part before the point and \<open>f\<close> the digits after it.
\<close>

lemma size_num_InrE:
  assumes "size_num s dflt = Inr v"
  obtains whole fraction u w f where
    "size_unit (dropWhile (\<lambda>c. is_digit c \<or> c = CHR ''.'') s) dflt = Some u"
    and "(if whole = [] then w = 0 else parse_uint 128 whole = Some w)"
    and "(if fraction = [] then f = 0 else parse_uint 128 fraction = Some f)"
    and "takeWhile (\<lambda>c. is_digit c \<or> c = CHR ''.'') s = whole @ (CHR ''.'' # fraction)
      \<or> takeWhile (\<lambda>c. is_digit c \<or> c = CHR ''.'') s = whole \<and> fraction = []"
    and "v * 10 ^ length fraction = (w * 10 ^ length fraction + f) * u"
    and "v < 2 ^ 63"
proof -
  let ?tw = "takeWhile (\<lambda>c. is_digit c \<or> c = CHR ''.'') s"
  have dw: "drop (length ?tw) s = dropWhile (\<lambda>c. is_digit c \<or> c = CHR ''.'') s"
    by (rule dropWhile_eq_drop [symmetric])
  have tk: "take (length ?tw) s = ?tw" by (rule takeWhile_eq_take [symmetric])
  obtain whole fraction where wf: "(case split_once (\<lambda>c. c = CHR ''.'') ?tw of
      Some p \<Rightarrow> p | None \<Rightarrow> (?tw, [])) = (whole, fraction)" by fastforce
  then have shape: "?tw = whole @ (CHR ''.'' # fraction) \<or> ?tw = whole \<and> fraction = []"
    by (auto split: option.splits dest: split_once_SomeD)
  note unfolded = assms [unfolded size_num_def Let_def dw tk wf prod.case]
  from unfolded obtain u where u: "size_unit (dropWhile (\<lambda>c. is_digit c \<or> c = CHR ''.'') s) dflt = Some u"
    by (cases "size_unit (dropWhile (\<lambda>c. is_digit c \<or> c = CHR ''.'') s) dflt") simp_all
  have ne: "\<not> (whole = [] \<and> fraction = [])" using unfolded u by auto
  note body = unfolded [unfolded u option.case if_not_P [OF ne]]
  from body obtain w where w: "(if whole = [] then Some 0 else parse_uint 128 whole) = Some w"
    by (cases "if whole = [] then Some 0 else parse_uint 128 whole") simp_all
  from body w obtain scale where c: "checked_u128 (10 ^ length fraction) = Some scale"
    by (cases "checked_u128 (10 ^ length fraction)") simp_all
  then have scale: "scale = 10 ^ length fraction" by (rule checked_u128_SomeD)
  from body w c obtain f where
    f: "(if fraction = [] then Some 0 else parse_uint 128 fraction) = Some f"
    by (cases "if fraction = [] then Some 0 else parse_uint 128 fraction") simp_all
  from body w c f obtain p where p: "scaled_value w scale f u = Some p"
    by (cases "scaled_value w scale f u") simp_all
  from body w c f p have "(if p mod scale \<noteq> 0 \<or> 2 ^ 63 - 1 < p div scale
      then Inl (Err (''invalid size '' @ s)) else Inr (p div scale)) = Inr v"
    by (simp split: if_split_asm)
  then have res: "p mod scale = 0" "p div scale \<le> 2 ^ 63 - 1" "v = p div scale"
    by (simp_all split: if_split_asm)
  from p have "p = (w * scale + f) * u" by (rule scaled_value_Some)
  with res have "v * 10 ^ length fraction = (w * 10 ^ length fraction + f) * u"
    unfolding scale by auto
  moreover have "v < 2 ^ 63" using res by simp
  moreover have "if whole = [] then w = 0 else parse_uint 128 whole = Some w"
    using w by (cases "whole = []") simp_all
  moreover have "if fraction = [] then f = 0 else parse_uint 128 fraction = Some f"
    using f by (cases "fraction = []") simp_all
  ultimately show ?thesis by (intro that [OF u _ _ shape])
qed

lemma size_num_bound: "size_num s dflt = Inr v \<Longrightarrow> v < 2 ^ 63"
  by (erule size_num_InrE)

section \<open>Properties\<close>

text \<open>
  sizes are exact. A size that is accepted is the number written, times its unit, with nothing
  rounded away, and it fits a signed 64-bit byte count.
\<close>

theorem size_num_exact:
  assumes "size_num s dflt = Inr v"
  shows "v < 2 ^ 63 \<and> (\<exists>u whole fraction w f.
      size_unit (dropWhile (\<lambda>c. is_digit c \<or> c = CHR ''.'') s) dflt = Some u
      \<and> (if whole = [] then w = 0 else parse_uint 128 whole = Some w)
      \<and> (if fraction = [] then f = 0 else parse_uint 128 fraction = Some f)
      \<and> (takeWhile (\<lambda>c. is_digit c \<or> c = CHR ''.'') s = whole @ CHR ''.'' # fraction
         \<or> takeWhile (\<lambda>c. is_digit c \<or> c = CHR ''.'') s = whole \<and> fraction = [])
      \<and> v * 10 ^ length fraction = (w * 10 ^ length fraction + f) * u)"
  by (rule size_num_InrE [OF assms], intro conjI exI) assumption+

lemma size_num_1_5k: "size_num ''1.5k'' 1 = Inr 1500"
  by code_simp

theorem size_num_exact_witness: "size_num ''1.5k'' 1 = Inr 1500 \<and> (1500 :: nat) < 2 ^ 63"
  using size_num_exact [OF size_num_1_5k] size_num_1_5k by simp

text \<open>
  A whole number prints and reads back. The decimal digits of \<open>n\<close> read as a size with the default
  unit \<open>u\<close> give \<open>n * u\<close>, up to the largest size accepted.
\<close>

theorem size_num_show_nat:
  assumes "n * u < 2 ^ 63" and "0 < u"
  shows "size_num (show_nat n) u = Inr (n * u)"
proof -
  have d: "list_all is_digit (show_nat n)" by (rule show_nat_digits)
  then have tw: "takeWhile (\<lambda>c. is_digit c \<or> c = CHR ''.'') (show_nat n) = show_nat n"
    by (intro takeWhile_eq_all_conv [THEN iffD2]) (auto simp: list_all_iff)
  have nodot: "\<not> is_digit (CHR ''.'')" by (simp add: is_digit_def)
  then have sp: "split_once (\<lambda>c. c = CHR ''.'') (show_nat n) = None"
    using d by (auto simp: split_once_None list_all_iff)
  have "n \<le> n * u" using assms(2) by simp
  then have n: "n < 2 ^ 128" using le_less_trans [OF _ assms(1)] by fastforce
  have "parse_uint 128 (show_nat n) = Some n" by (rule parse_uint_show_nat) (use n in simp)
  moreover have "scaled_value n 1 0 u = Some (n * u)"
    using n assms(1) by (simp add: scaled_value_def checked_u128_def)
  ultimately show ?thesis
    using assms(1) unfolding size_num_def tw
    by (simp add: sp size_unit_def checked_u128_def Let_def)
qed

theorem size_num_show_nat_witness: "size_num (show_nat 7) 4096 = Inr (7 * 4096)"
  using size_num_show_nat [of 7 4096] by simp

end
