(* ===== verification/Workload.thy ===== *)
theory Workload
  imports Units
begin

text \<open>
  \<open>src/rust/src/cli/workload.rs\<close>: the compact workload syntax of \<open>-c\<close>. \<open>workload\<close> reads flag by flag,
  each with the run of number characters after it, then derives the read probability and the
  verification settings and checks the resource limits. The lemmas show what every accepted workload
  satisfies (\<open>wf_workload\<close>), which the position table and the engine rely on.
\<close>

section \<open>Types\<close>

datatype backend = Libaio | Uring | Pagecache | Direct

definition backend_name :: "backend \<Rightarrow> string" where
  "backend_name b = (case b of Libaio \<Rightarrow> ''libaio'' | Uring \<Rightarrow> ''io_uring''
     | Pagecache \<Rightarrow> ''pagecache'' | Direct \<Rightarrow> ''direct'')"

text \<open>\<open>auto\<close> asks the platform, which is the parameter \<open>default_backend\<close>.\<close>

definition backend_parse :: "backend \<Rightarrow> string \<Rightarrow> backend result" where
  "backend_parse default_backend s =
     (if s = ''auto'' then Inr default_backend
      else if s = ''libaio'' \<or> s = ''aio'' then Inr Libaio
      else if s = ''io_uring'' \<or> s = ''uring'' then Inr Uring
      else if s = ''pagecache'' then Inr Pagecache
      else if s = ''direct'' then Inr Direct
      else Inl (Err (''unknown backend '' @ s)))"

datatype position_mode = First | Sample | Spaced | Alternating

record workload =
  wl_read_probability :: rat
  wl_block :: nat
  wl_max_block :: nat
  wl_power_sizes :: bool
  wl_mode :: position_mode
  wl_shuffle :: bool
  wl_shift :: bool
  wl_from_zero :: bool
  wl_depth :: nat
  wl_submit_batch :: "nat option"
  wl_operation_limit :: "nat option"
  wl_alternate :: bool
  wl_rate :: "rat option"
  wl_duty :: "(rat \<times> rat) option"
  wl_duration :: "rat option"
  wl_seed :: "nat option"
  wl_workers :: nat
  wl_shared_range :: bool
  wl_range :: "(nat \<times> nat) option"
  wl_split_range :: bool
  wl_sequential :: rat
  wl_positions :: "nat option"
  wl_passes :: "nat option"
  wl_range_passes :: "nat option"
  wl_verify :: bool
  wl_metadata :: "nat option"
  wl_unique :: bool
  wl_unique_verify :: bool
  wl_flush :: bool
  wl_write_verify :: bool
  wl_write_verify_race :: bool

definition workload_default :: workload where
  "workload_default = \<lparr>
     wl_read_probability = 1 / 2, wl_block = 4096, wl_max_block = 4096, wl_power_sizes = False,
     wl_mode = First, wl_shuffle = False, wl_shift = False, wl_from_zero = False, wl_depth = 64,
     wl_submit_batch = None, wl_operation_limit = None, wl_alternate = False, wl_rate = None,
     wl_duty = None, wl_duration = None, wl_seed = None, wl_workers = 1, wl_shared_range = False,
     wl_range = None, wl_split_range = False, wl_sequential = 1, wl_positions = None,
     wl_passes = None, wl_range_passes = None, wl_verify = False, wl_metadata = None,
     wl_unique = False, wl_unique_verify = False, wl_flush = False, wl_write_verify = False,
     wl_write_verify_race = False\<rparr>"

section \<open>The parser\<close>

text \<open>The local variables of the loop.\<close>

record parse_state =
  ps_w :: workload
  ps_reads :: nat
  ps_writes :: nat
  ps_probability :: "rat option"
  ps_explicit_sequential :: bool
  ps_write_verify :: bool
  ps_write_verify_race :: bool
  ps_explicit_depth :: bool

definition parse_start :: parse_state where
  "parse_start = \<lparr>ps_w = workload_default, ps_reads = 0, ps_writes = 0, ps_probability = None,
     ps_explicit_sequential = False, ps_write_verify = False, ps_write_verify_race = False,
     ps_explicit_depth = False\<rparr>"

definition is_ascii_whitespace :: "char \<Rightarrow> bool" where
  "is_ascii_whitespace c \<longleftrightarrow> (of_char c :: nat) \<in> {32, 9, 10, 12, 13}"

definition is_value_char :: "char \<Rightarrow> bool" where
  "is_value_char c \<longleftrightarrow> is_digit c \<or> c = CHR ''.'' \<or> c = CHR ''-'' \<or> c = CHR ''+''
     \<or> c = CHR ''_'' \<or> c = CHR '':''"

text \<open>\<open>value.split_once(chars).unwrap_or(default)\<close>.\<close>

definition split_or :: "char list \<Rightarrow> string \<Rightarrow> string \<times> string \<Rightarrow> string \<times> string" where
  "split_or chars s dflt = (case split_once (\<lambda>c. c \<in> set chars) s of Some p \<Rightarrow> p | None \<Rightarrow> dflt)"

text \<open>The arms with conditions: \<open>set_\<close> checks and stores, \<open>token_\<close> reads the value first.\<close>

definition set_probability :: "parse_state \<Rightarrow> rat \<Rightarrow> parse_state result" where
  "set_probability st p =
     (if \<not> (0 \<le> p \<and> p \<le> 1) then Inl (Err ''probability must be 0..1'')
      else Inr (st\<lparr>ps_probability := Some p\<rparr>))"

definition set_block :: "parse_state \<Rightarrow> nat \<Rightarrow> nat \<Rightarrow> bool \<Rightarrow> parse_state result" where
  "set_block st lo hi powers =
     (if lo = 0 \<or> hi < lo \<or> 0x7ffff000 < hi then Inl (Err ''invalid block size range'')
      else Inr (st\<lparr>ps_w := (ps_w st)\<lparr>wl_block := lo, wl_max_block := hi, wl_power_sizes := powers\<rparr>\<rparr>))"

definition token_block :: "parse_state \<Rightarrow> char \<Rightarrow> string \<Rightarrow> parse_state result" where
  "token_block st flag v =
     (let (low, high) = split_or [CHR ''-'', CHR '':''] v (v, v);
          unit = (if flag = CHR ''k'' then 1024 else 1048576)
      in and_then (size_num low unit) (\<lambda>lo. and_then (size_num high unit) (\<lambda>hi.
           set_block st lo hi (CHR '':'' \<in> set v))))"

definition set_queue :: "parse_state \<Rightarrow> nat option \<Rightarrow> nat \<Rightarrow> parse_state result" where
  "set_queue st batch d =
     (if d = 0 \<or> 4096 < d then Inl (Err ''invalid queue depth'')
      else if (case batch of None \<Rightarrow> False | Some n \<Rightarrow> n = 0 \<or> d < n)
      then Inl (Err ''invalid queue range'')
      else Inr (st\<lparr>ps_w := (ps_w st)\<lparr>wl_submit_batch := batch, wl_depth := d\<rparr>,
             ps_explicit_depth := True\<rparr>))"

definition token_queue :: "parse_state \<Rightarrow> string \<Rightarrow> parse_state result" where
  "token_queue st v =
     (let (low, high) = (case split_once (\<lambda>c. c = CHR ''-'') v of
            Some (a, b) \<Rightarrow> (Some a, b) | None \<Rightarrow> (None, v))
      in and_then (case low of None \<Rightarrow> Inr None | Some n \<Rightarrow> and_then (integer_num n) (\<lambda>n. Inr (Some n)))
           (\<lambda>batch. and_then (integer_num high) (\<lambda>d. set_queue st batch d)))"

definition set_rate :: "parse_state \<Rightarrow> rat \<Rightarrow> parse_state result" where
  "set_rate st rate =
     (if rate \<le> 0 \<or> 1000000000000 < rate then Inl (Err ''invalid IOPS target'')
      else Inr (st\<lparr>ps_w := (ps_w st)\<lparr>wl_rate := Some rate\<rparr>\<rparr>))"

text \<open>\<open>on + off > 86400.\<close> on the rounded sum.\<close>

definition set_duty :: "parse_state \<Rightarrow> rat \<Rightarrow> rat \<Rightarrow> parse_state result" where
  "set_duty st on off =
     (if on \<le> 0 \<or> off < 0
        \<or> (case f64_of_rat (on + off) of Finite s \<Rightarrow> 86400 < s | Infinity \<Rightarrow> True | _ \<Rightarrow> False)
      then Inl (Err ''invalid duty cycle'')
      else Inr (st\<lparr>ps_w := (ps_w st)\<lparr>wl_duty := Some (on, off)\<rparr>\<rparr>))"

definition token_duty :: "parse_state \<Rightarrow> string \<Rightarrow> parse_state result" where
  "token_duty st v =
     (let (on, off) = split_or [CHR '':'', CHR ''-''] v (v, v)
      in and_then (finite_num on) (\<lambda>on. and_then (finite_num off) (\<lambda>off. set_duty st on off)))"

definition set_duration :: "parse_state \<Rightarrow> rat \<Rightarrow> parse_state result" where
  "set_duration st t =
     (if t \<le> 0 \<or> 1000000000 < t then Inl (Err ''invalid job duration'')
      else Inr (st\<lparr>ps_w := (ps_w st)\<lparr>wl_duration := Some t\<rparr>\<rparr>))"

definition set_range :: "parse_state \<Rightarrow> nat \<Rightarrow> nat \<Rightarrow> bool \<Rightarrow> parse_state result" where
  "set_range st lo hi split =
     (if hi \<le> lo then Inl (Err ''empty or reversed workload range'')
      else Inr (st\<lparr>ps_w := (ps_w st)\<lparr>wl_range := Some (lo, hi), wl_split_range := split\<rparr>\<rparr>))"

definition token_range :: "parse_state \<Rightarrow> char \<Rightarrow> string \<Rightarrow> parse_state result" where
  "token_range st flag v =
     (if flag = CHR ''G'' \<and> (v = [] \<or> v = ''_'') then
        Inr (st\<lparr>ps_w := (ps_w st)\<lparr>wl_range := None, wl_split_range := (v = ''_'')\<rparr>\<rparr>)
      else let (low, high) = split_or [CHR ''-'', CHR ''_''] v (''0'', v);
               unit = (if flag = CHR ''G'' then 1073741824 else 1)
           in and_then (size_num low unit) (\<lambda>lo. and_then (size_num high unit) (\<lambda>hi.
                set_range st lo hi (CHR ''_'' \<in> set v))))"

definition set_sequential :: "parse_state \<Rightarrow> rat \<Rightarrow> parse_state result" where
  "set_sequential st s =
     (if 65535 < \<bar>s\<bar> \<or> 1 < \<bar>s\<bar> \<and> of_int \<lfloor>s\<rfloor> \<noteq> s
      then Inl (Err ''invalid sequential region count'')
      else Inr (st\<lparr>ps_w := (ps_w st)\<lparr>wl_sequential := s\<rparr>, ps_explicit_sequential := True\<rparr>))"

definition token_positions :: "parse_state \<Rightarrow> string \<Rightarrow> parse_state result" where
  "token_positions st v =
     (let (m, count) = (case v of [] \<Rightarrow> (First, v) | c # cs \<Rightarrow>
            if c = CHR ''-'' then (Sample, cs) else if c = CHR ''+'' then (Spaced, cs)
            else if c = CHR ''.'' then (Alternating, cs) else (First, v))
      in and_then (integer_num count) (\<lambda>n.
           Inr (st\<lparr>ps_w := (ps_w st)\<lparr>wl_mode := m, wl_positions := Some n\<rparr>\<rparr>)))"

definition set_metadata :: "parse_state \<Rightarrow> int \<Rightarrow> parse_state result" where
  "set_metadata st limit =
     (if limit \<le> 0 then Inr (st\<lparr>ps_w := (ps_w st)\<lparr>wl_metadata := Some (2 ^ 64 - 1)\<rparr>\<rparr>)
      else if limit < 2 ^ 64 then Inr (st\<lparr>ps_w := (ps_w st)\<lparr>wl_metadata := Some (nat limit)\<rparr>\<rparr>)
      else Inl (Err ''metadata count too large''))"

definition token_metadata :: "parse_state \<Rightarrow> string \<Rightarrow> parse_state result" where
  "token_metadata st v =
     and_then (if v = [] then Inr 0 else ok_or (parse_int 128 v) ''invalid metadata count'')
       (set_metadata st)"

text \<open>One arm of the match each; a flag whose guard fails falls through to the last arm.\<close>

definition apply_token :: "parse_state \<Rightarrow> char \<Rightarrow> string \<Rightarrow> parse_state result" where
  "apply_token st flag v =
     (let w = ps_w st
      in if flag = CHR ''r'' \<and> v = [] then Inr (st\<lparr>ps_reads := ps_reads st + 1\<rparr>)
         else if flag = CHR ''w'' \<and> v = [] then Inr (st\<lparr>ps_writes := ps_writes st + 1\<rparr>)
         else if flag = CHR ''p'' then and_then (finite_num v) (set_probability st)
         else if flag = CHR ''k'' \<or> flag = CHR ''M'' then token_block st flag v
         else if flag = CHR ''q'' then token_queue st v
         else if flag = CHR ''Y'' then and_then (integer_num v) (\<lambda>n.
           Inr (st\<lparr>ps_w := w\<lparr>wl_operation_limit := if n = 0 then None else Some n\<rparr>\<rparr>))
         else if flag = CHR ''R'' then and_then (integer_num v) (\<lambda>n.
           Inr (st\<lparr>ps_w := w\<lparr>wl_seed := Some n\<rparr>\<rparr>))
         else if flag = CHR ''O'' \<and> v = [] then Inr (st\<lparr>ps_w := w\<lparr>wl_passes := Some 1\<rparr>\<rparr>)
         else if flag = CHR ''='' \<and> v = [] then Inr (st\<lparr>ps_w := w\<lparr>wl_alternate := True\<rparr>\<rparr>)
         else if flag = CHR ''S'' then and_then (finite_num v) (set_rate st)
         else if flag = CHR ''v'' \<and> v = [] then Inr (st\<lparr>ps_write_verify := True\<rparr>)
         else if flag = CHR ''V'' \<and> v = [] then
           Inr (st\<lparr>ps_write_verify := True, ps_write_verify_race := True\<rparr>)
         else if flag = CHR ''W'' then token_duty st v
         else if flag = CHR ''T'' \<or> flag = CHR ''t'' then and_then (finite_num v) (set_duration st)
         else if flag = CHR ''j'' \<or> flag = CHR ''J'' then and_then (integer_num v) (\<lambda>n.
           Inr (st\<lparr>ps_w := w\<lparr>wl_workers := n, wl_shared_range := (flag = CHR ''J'')\<rparr>\<rparr>))
         else if flag = CHR ''G'' \<or> flag = CHR ''b'' then token_range st flag v
         else if flag = CHR ''s'' then and_then (finite_num v) (set_sequential st)
         else if flag = CHR ''P'' then token_positions st v
         else if flag = CHR ''n'' \<and> v = [] then Inr (st\<lparr>ps_w := w\<lparr>wl_shuffle := True\<rparr>\<rparr>)
         else if flag = CHR ''N'' \<and> v = [] then Inr (st\<lparr>ps_w := w\<lparr>wl_shift := True\<rparr>\<rparr>)
         else if flag = CHR ''X'' then and_then (integer_num v) (\<lambda>n.
           Inr (st\<lparr>ps_w := w\<lparr>wl_passes := Some n\<rparr>\<rparr>))
         else if flag = CHR ''x'' then and_then (integer_num v) (\<lambda>n.
           Inr (st\<lparr>ps_w := w\<lparr>wl_range_passes := Some n\<rparr>\<rparr>))
         else if flag = CHR ''m'' then token_metadata st v
         else if (flag = CHR ''u'' \<or> flag = CHR ''U'') \<and> v = [] then
           Inr (st\<lparr>ps_w := w\<lparr>wl_unique := True,
             wl_unique_verify := wl_unique_verify w \<or> flag = CHR ''U''\<rparr>\<rparr>)
         else if flag = CHR ''z'' \<and> v = [] then Inr (st\<lparr>ps_w := w\<lparr>wl_from_zero := True\<rparr>\<rparr>)
         else if flag = CHR ''F'' \<and> v = [] then Inr (st\<lparr>ps_w := w\<lparr>wl_flush := True\<rparr>\<rparr>)
         else Inl (Err (''unsupported workload token '' @ flag # v)))"

function parse_loop :: "parse_state \<Rightarrow> string \<Rightarrow> parse_state result" where
  "parse_loop st [] = Inr st"
| "parse_loop st (c # cs) =
     (if is_ascii_whitespace c then parse_loop st cs
      else and_then (apply_token st c (takeWhile is_value_char cs))
             (\<lambda>st'. parse_loop st' (dropWhile is_value_char cs)))"
  by pat_completeness auto
termination
  by (relation "measure (\<lambda>(st, cs). length cs)") (auto simp: le_imp_less_Suc length_dropWhile_le)

text \<open>What follows the loop: the read probability, write-verify, metadata and unique settings.\<close>

definition read_share :: "parse_state \<Rightarrow> rat" where
  "read_share st = (case ps_probability st of Some p \<Rightarrow> p | None \<Rightarrow>
     if ps_reads st + ps_writes st = 0 then 1 / 2
     else case f64_of_rat (of_nat (ps_reads st) / of_nat (ps_reads st + ps_writes st)) of
            Finite p \<Rightarrow> p | _ \<Rightarrow> 0)"

definition settle_verify :: "parse_state \<Rightarrow> workload" where
  "settle_verify st =
     (let w = (ps_w st)\<lparr>wl_read_probability := read_share st\<rparr>;
          w = (if ps_write_verify st then
                 w\<lparr>wl_read_probability := 0, wl_write_verify := True,
                   wl_write_verify_race := ps_write_verify_race st,
                   wl_depth := if ps_explicit_depth st then wl_depth w else 1,
                   wl_verify := True\<rparr>
               else w)
      in w\<lparr>wl_verify := wl_verify w \<or> wl_unique_verify w
             \<or> wl_metadata w \<noteq> None \<and> \<not> wl_unique w\<rparr>)"

definition settle_metadata :: "bool \<Rightarrow> workload \<Rightarrow> workload" where
  "settle_metadata explicit_sequential w =
     (if wl_metadata w \<noteq> None \<or> wl_unique w then
        let w = (if wl_metadata w \<noteq> None then w\<lparr>wl_flush := True\<rparr> else w);
            w = (if \<not> explicit_sequential \<and> wl_metadata w \<noteq> None then w\<lparr>wl_sequential := 0\<rparr> else w);
            w = (case wl_metadata w of Some limit \<Rightarrow> w\<lparr>wl_depth := min (wl_depth w) limit\<rparr> | None \<Rightarrow> w);
            w = (if wl_unique w then w\<lparr>wl_depth := 1\<rparr> else w)
        in w\<lparr>wl_submit_batch := map_option (\<lambda>n. min n (wl_depth w)) (wl_submit_batch w)\<rparr>
      else w)"

definition check_limits :: "workload \<Rightarrow> workload result" where
  "check_limits w =
     (if wl_verify w \<and> wl_alternate w then
        Inl (Err ''metadata verification cannot be combined with alternating actions'')
      else if wl_depth w = 0 \<or> 4096 < wl_depth w \<or> wl_workers w = 0 \<or> 1024 < wl_workers w
           \<or> wl_block w = 0 \<or> 0x7ffff000 < wl_block w \<or> wl_positions w = Some 0
           \<or> wl_passes w = Some 0 \<or> wl_range_passes w = Some 0 then
        Inl (Err ''invalid workload resource limit'')
      else if wl_duration w \<noteq> None \<and> (wl_passes w \<noteq> None \<or> wl_range_passes w \<noteq> None) then
        Inl (Err ''mixing T and x/X is not supported'')
      else if wl_passes w \<noteq> None \<and> wl_range_passes w \<noteq> None then
        Inl (Err ''mixing x and X is not supported'')
      else Inr w)"

definition is_ascii :: "string \<Rightarrow> bool" where
  "is_ascii s \<longleftrightarrow> list_all (\<lambda>c. (of_char c :: nat) < 128) s"

definition parse_workload :: "string \<Rightarrow> workload result" where
  "parse_workload s =
     (if \<not> is_ascii s then Inl (Err ''workload syntax must be ASCII'')
      else if 4093 < length s then Inl (Err ''command too long'')
      else and_then (parse_loop parse_start s) (\<lambda>st.
             check_limits (settle_metadata (ps_explicit_sequential st) (settle_verify st))))"

section \<open>What every accepted workload satisfies\<close>

text \<open>The part of the invariant each token keeps, on the workload under construction.\<close>

definition wf_parsed :: "parse_state \<Rightarrow> bool" where
  "wf_parsed st \<longleftrightarrow>
     (let w = ps_w st
      in 0 < wl_block w \<and> wl_block w \<le> wl_max_block w \<and> wl_max_block w \<le> 0x7ffff000
         \<and> pred_option (\<lambda>n. 0 < n \<and> n \<le> wl_depth w \<and> ps_explicit_depth st) (wl_submit_batch w)
         \<and> 0 < wl_depth w \<and> wl_depth w \<le> 4096
         \<and> pred_option (\<lambda>(lo, hi). lo < hi \<and> hi < 2 ^ 63) (wl_range w)
         \<and> \<bar>wl_sequential w\<bar> \<le> 65535
         \<and> (1 < \<bar>wl_sequential w\<bar> \<longrightarrow> of_int \<lfloor>wl_sequential w\<rfloor> = wl_sequential w)
         \<and> pred_option (\<lambda>n. 0 < n) (wl_metadata w)
         \<and> pred_option (\<lambda>p. 0 \<le> p \<and> p \<le> 1) (ps_probability st)
         \<and> \<not> wl_verify w \<and> \<not> wl_write_verify w \<and> \<not> wl_write_verify_race w
         \<and> (ps_write_verify_race st \<longrightarrow> ps_write_verify st)
         \<and> (wl_unique_verify w \<longrightarrow> wl_unique w))"

text \<open>What the engine relies on.\<close>

definition wf_workload :: "workload \<Rightarrow> bool" where
  "wf_workload w \<longleftrightarrow>
     0 < wl_block w \<and> wl_block w \<le> wl_max_block w \<and> wl_max_block w \<le> 0x7ffff000
     \<and> 0 < wl_depth w \<and> wl_depth w \<le> 4096
     \<and> 0 < wl_workers w \<and> wl_workers w \<le> 1024
     \<and> 0 \<le> wl_read_probability w \<and> wl_read_probability w \<le> 1
     \<and> pred_option (\<lambda>n. 0 < n \<and> n \<le> wl_depth w) (wl_submit_batch w)
     \<and> pred_option (\<lambda>(lo, hi). lo < hi \<and> hi < 2 ^ 63) (wl_range w)
     \<and> \<bar>wl_sequential w\<bar> \<le> 65535
     \<and> (1 < \<bar>wl_sequential w\<bar> \<longrightarrow> of_int \<lfloor>wl_sequential w\<rfloor> = wl_sequential w)
     \<and> wl_positions w \<noteq> Some 0 \<and> wl_passes w \<noteq> Some 0 \<and> wl_range_passes w \<noteq> Some 0
     \<and> \<not> (wl_verify w \<and> wl_alternate w)
     \<and> \<not> (wl_passes w \<noteq> None \<and> wl_range_passes w \<noteq> None)
     \<and> \<not> (wl_duration w \<noteq> None \<and> (wl_passes w \<noteq> None \<or> wl_range_passes w \<noteq> None))"

lemmas wf_parsed_simps = wf_parsed_def Let_def

lemma set_wf:
  "set_probability st p = Inr st' \<Longrightarrow> wf_parsed st \<Longrightarrow> wf_parsed st'"
  "set_block st lo hi b = Inr st' \<Longrightarrow> wf_parsed st \<Longrightarrow> wf_parsed st'"
  "set_queue st batch d = Inr st' \<Longrightarrow> wf_parsed st \<Longrightarrow> wf_parsed st'"
  "set_rate st r = Inr st' \<Longrightarrow> wf_parsed st \<Longrightarrow> wf_parsed st'"
  "set_duty st r q = Inr st' \<Longrightarrow> wf_parsed st \<Longrightarrow> wf_parsed st'"
  "set_duration st r = Inr st' \<Longrightarrow> wf_parsed st \<Longrightarrow> wf_parsed st'"
  "set_sequential st r = Inr st' \<Longrightarrow> wf_parsed st \<Longrightarrow> wf_parsed st'"
  "set_metadata st n = Inr st' \<Longrightarrow> wf_parsed st \<Longrightarrow> wf_parsed st'"
  unfolding set_probability_def set_block_def set_queue_def set_rate_def set_duty_def
    set_duration_def set_sequential_def set_metadata_def wf_parsed_def Let_def
  by (clarsimp split: if_split_asm option.split_asm f64.split_asm; simp)+

lemma set_range_wf:
  assumes "set_range st lo hi b = Inr st'" and "wf_parsed st" and "hi < 2 ^ 63"
  shows "wf_parsed st'"
  using assms unfolding set_range_def wf_parsed_def Let_def
  by (clarsimp split: if_split_asm)

lemma token_wf:
  "token_block st c v = Inr st' \<Longrightarrow> wf_parsed st \<Longrightarrow> wf_parsed st'"
  "token_queue st v = Inr st' \<Longrightarrow> wf_parsed st \<Longrightarrow> wf_parsed st'"
  "token_duty st v = Inr st' \<Longrightarrow> wf_parsed st \<Longrightarrow> wf_parsed st'"
  "token_metadata st v = Inr st' \<Longrightarrow> wf_parsed st \<Longrightarrow> wf_parsed st'"
  by (auto simp: token_block_def token_queue_def token_duty_def token_metadata_def and_then_eq_Inr
      Let_def split: prod.split_asm elim: set_wf)

lemma token_positions_wf:
  "token_positions st v = Inr st' \<Longrightarrow> wf_parsed st \<Longrightarrow> wf_parsed st'"
  by (auto simp: token_positions_def and_then_eq_Inr wf_parsed_def Let_def split: prod.split_asm)

text \<open>Stores of the arms that check nothing.\<close>

lemma store_wf:
  assumes "wf_parsed st"
  shows "wf_parsed (st\<lparr>ps_reads := n\<rparr>)" "wf_parsed (st\<lparr>ps_writes := n\<rparr>)"
    "wf_parsed (st\<lparr>ps_write_verify := True\<rparr>)"
    "wf_parsed (st\<lparr>ps_write_verify := True, ps_write_verify_race := True\<rparr>)"
    "wf_parsed (st\<lparr>ps_w := (ps_w st)\<lparr>wl_range := None, wl_split_range := b\<rparr>\<rparr>)"
    "wf_parsed (st\<lparr>ps_w := (ps_w st)\<lparr>wl_operation_limit := x\<rparr>\<rparr>)"
    "wf_parsed (st\<lparr>ps_w := (ps_w st)\<lparr>wl_seed := x\<rparr>\<rparr>)"
    "wf_parsed (st\<lparr>ps_w := (ps_w st)\<lparr>wl_passes := x\<rparr>\<rparr>)"
    "wf_parsed (st\<lparr>ps_w := (ps_w st)\<lparr>wl_range_passes := x\<rparr>\<rparr>)"
    "wf_parsed (st\<lparr>ps_w := (ps_w st)\<lparr>wl_alternate := b\<rparr>\<rparr>)"
    "wf_parsed (st\<lparr>ps_w := (ps_w st)\<lparr>wl_workers := n, wl_shared_range := b\<rparr>\<rparr>)"
    "wf_parsed (st\<lparr>ps_w := (ps_w st)\<lparr>wl_shuffle := b\<rparr>\<rparr>)"
    "wf_parsed (st\<lparr>ps_w := (ps_w st)\<lparr>wl_shift := b\<rparr>\<rparr>)"
    "wf_parsed (st\<lparr>ps_w := (ps_w st)\<lparr>wl_unique := True, wl_unique_verify := b\<rparr>\<rparr>)"
    "wf_parsed (st\<lparr>ps_w := (ps_w st)\<lparr>wl_from_zero := b\<rparr>\<rparr>)"
    "wf_parsed (st\<lparr>ps_w := (ps_w st)\<lparr>wl_flush := b\<rparr>\<rparr>)"
  using assms unfolding wf_parsed_def Let_def by simp_all

text \<open>One arm of an \<open>if\<close> chain that returned, without the conditions that failed before it.\<close>

lemma if_eqE: "(if b then x else y) = z \<Longrightarrow> (b \<Longrightarrow> x = z \<Longrightarrow> P) \<Longrightarrow> (y = z \<Longrightarrow> P) \<Longrightarrow> P"
  by (simp split: if_split_asm)

lemma and_then_InrE: "and_then r f = Inr y \<Longrightarrow> (\<And>x. r = Inr x \<Longrightarrow> f x = Inr y \<Longrightarrow> P) \<Longrightarrow> P"
  by (auto simp: and_then_eq_Inr)

lemma token_range_wf:
  assumes "token_range st c v = Inr st'" and "wf_parsed st"
  shows "wf_parsed st'"
  using assms(1) unfolding token_range_def Let_def prod.case_eq_if
  by (elim if_eqE and_then_InrE) (auto intro: store_wf assms(2) set_range_wf size_num_bound)

lemma apply_token_wf:
  assumes "apply_token st c v = Inr st'" and "wf_parsed st"
  shows "wf_parsed st'"
  using assms(1) unfolding apply_token_def Let_def
  by (elim if_eqE)
    (elim and_then_InrE | (simp only: sum.inject, erule subst, rule store_wf [OF assms(2)])
      | (erule set_wf token_wf token_positions_wf token_range_wf, rule assms(2)) | simp)+

lemma parse_loop_wf:
  assumes "parse_loop st s = Inr st'" and "wf_parsed st"
  shows "wf_parsed st'"
  using assms
proof (induction st s arbitrary: st' rule: parse_loop.induct)
  case (2 st c cs)
  then show ?case
    by (cases "is_ascii_whitespace c") (auto elim!: and_then_InrE intro: apply_token_wf)
qed simp

lemma parse_start_wf: "wf_parsed parse_start"
  by (simp add: wf_parsed_def parse_start_def workload_default_def)

lemma read_share_unit:
  assumes "wf_parsed st"
  shows "0 \<le> read_share st \<and> read_share st \<le> 1"
proof (cases "ps_probability st")
  case None
  let ?r = "of_nat (ps_reads st) / (of_nat (ps_reads st + ps_writes st) :: rat)"
  have "(of_nat (ps_reads st) :: rat) \<le> of_nat (ps_reads st + ps_writes st)" by simp
  then have "?r \<le> 1"
    using of_nat_0_le_iff [of "ps_reads st + ps_writes st", where 'a = rat]
    by (auto simp: divide_le_eq_1 simp del: of_nat_add)
  moreover have "0 \<le> ?r" by simp
  ultimately obtain y where "f64_of_rat ?r = Finite y" "0 \<le> y" "y \<le> 1"
    using f64_of_rat_unit by blast
  then show ?thesis using None by (simp add: read_share_def)
next
  case (Some p)
  then show ?thesis using assms by (simp add: read_share_def wf_parsed_def Let_def)
qed

lemma settle_verify_wf:
  assumes "wf_parsed st"
  defines "w \<equiv> settle_verify st"
  shows "0 < wl_block w \<and> wl_block w \<le> wl_max_block w \<and> wl_max_block w \<le> 0x7ffff000
    \<and> 0 \<le> wl_read_probability w \<and> wl_read_probability w \<le> 1
    \<and> pred_option (\<lambda>n. 0 < n \<and> n \<le> wl_depth w) (wl_submit_batch w)
    \<and> 0 < wl_depth w \<and> wl_depth w \<le> 4096
    \<and> pred_option (\<lambda>(lo, hi). lo < hi \<and> hi < 2 ^ 63) (wl_range w)
    \<and> \<bar>wl_sequential w\<bar> \<le> 65535
    \<and> (1 < \<bar>wl_sequential w\<bar> \<longrightarrow> of_int \<lfloor>wl_sequential w\<rfloor> = wl_sequential w)
    \<and> pred_option (\<lambda>n. 0 < n) (wl_metadata w)"
proof -
  have batch: "ps_explicit_depth st" if "wl_submit_batch (ps_w st) = Some n" for n
    using assms that by (simp add: wf_parsed_def Let_def)
  show ?thesis
    using assms(1) read_share_unit [OF assms(1)] batch
    unfolding w_def settle_verify_def wf_parsed_def Let_def
    by (cases "wl_submit_batch (ps_w st)") (clarsimp; simp)+
qed


lemma settle_metadata_wf:
  assumes "wf_parsed st"
    and "check_limits (settle_metadata (ps_explicit_sequential st) (settle_verify st)) = Inr w"
  shows "wf_workload w"
proof -
  define v where "v = settle_verify st"
  define m where "m = settle_metadata (ps_explicit_sequential st) v"
  have v: "0 < wl_block v \<and> wl_block v \<le> wl_max_block v \<and> wl_max_block v \<le> 0x7ffff000
    \<and> 0 \<le> wl_read_probability v \<and> wl_read_probability v \<le> 1
    \<and> pred_option (\<lambda>n. 0 < n \<and> n \<le> wl_depth v) (wl_submit_batch v)
    \<and> 0 < wl_depth v \<and> wl_depth v \<le> 4096
    \<and> pred_option (\<lambda>(lo, hi). lo < hi \<and> hi < 2 ^ 63) (wl_range v)
    \<and> \<bar>wl_sequential v\<bar> \<le> 65535
    \<and> (1 < \<bar>wl_sequential v\<bar> \<longrightarrow> of_int \<lfloor>wl_sequential v\<rfloor> = wl_sequential v)
    \<and> pred_option (\<lambda>n. 0 < n) (wl_metadata v)"
    unfolding v_def by (rule settle_verify_wf [OF assms(1)])
  have "0 < wl_block m \<and> wl_block m \<le> wl_max_block m \<and> wl_max_block m \<le> 0x7ffff000
    \<and> 0 \<le> wl_read_probability m \<and> wl_read_probability m \<le> 1
    \<and> pred_option (\<lambda>n. 0 < n \<and> n \<le> wl_depth m) (wl_submit_batch m)
    \<and> pred_option (\<lambda>(lo, hi). lo < hi \<and> hi < 2 ^ 63) (wl_range m)
    \<and> \<bar>wl_sequential m\<bar> \<le> 65535
    \<and> (1 < \<bar>wl_sequential m\<bar> \<longrightarrow> of_int \<lfloor>wl_sequential m\<rfloor> = wl_sequential m)"
    using v unfolding m_def settle_metadata_def Let_def
    by (cases "wl_metadata v"; cases "wl_submit_batch v"; cases "wl_unique v";
        clarsimp simp: min.coboundedI2)
  moreover have "m = w" and "wl_depth w \<noteq> 0 \<and> wl_depth w \<le> 4096"
    and "wl_workers w \<noteq> 0 \<and> wl_workers w \<le> 1024"
    and "wl_positions w \<noteq> Some 0 \<and> wl_passes w \<noteq> Some 0 \<and> wl_range_passes w \<noteq> Some 0"
    and "\<not> (wl_verify w \<and> wl_alternate w)"
    and "\<not> (wl_passes w \<noteq> None \<and> wl_range_passes w \<noteq> None)"
    and "\<not> (wl_duration w \<noteq> None \<and> (wl_passes w \<noteq> None \<or> wl_range_passes w \<noteq> None))"
    using assms(2) unfolding check_limits_def m_def v_def by (auto split: if_split_asm)
  ultimately show ?thesis unfolding wf_workload_def by (simp add: not_less)
qed

lemma parse_workload_wf:
  assumes "parse_workload s = Inr w"
  shows "wf_workload w"
  using assms unfolding parse_workload_def
  by (elim if_eqE and_then_InrE) (auto intro: settle_metadata_wf parse_loop_wf parse_start_wf)

text \<open>Bare \<open>v\<close> and \<open>V\<close> write and verify every block: no reads of the workload's own, and verification on.\<close>

lemma settle_metadata_verify:
  "wl_write_verify (settle_metadata b w) = wl_write_verify w"
  "wl_verify (settle_metadata b w) = wl_verify w"
  "wl_read_probability (settle_metadata b w) = wl_read_probability w"
  "wl_write_verify_race (settle_metadata b w) = wl_write_verify_race w"
  unfolding settle_metadata_def Let_def by (auto split: option.splits)

lemma parse_workload_write_verify:
  assumes "parse_workload s = Inr w"
  shows "(wl_write_verify_race w \<longrightarrow> wl_write_verify w)
    \<and> (wl_write_verify w \<longrightarrow> wl_read_probability w = 0 \<and> wl_verify w \<and> \<not> wl_alternate w)"
proof -
  from assms obtain st where st: "parse_loop parse_start s = Inr st"
    and c: "check_limits (settle_metadata (ps_explicit_sequential st) (settle_verify st)) = Inr w"
    unfolding parse_workload_def by (elim if_eqE and_then_InrE) auto
  have wf: "wf_parsed st" using st parse_start_wf by (rule parse_loop_wf)
  have w: "w = settle_metadata (ps_explicit_sequential st) (settle_verify st)"
    and va: "\<not> (wl_verify w \<and> wl_alternate w)"
    using c unfolding check_limits_def by (auto split: if_split_asm)
  have "\<not> wl_write_verify (ps_w st)" and "\<not> wl_write_verify_race (ps_w st)"
    and "ps_write_verify_race st \<longrightarrow> ps_write_verify st"
    using wf by (simp_all add: wf_parsed_def Let_def)
  then show ?thesis using va
    by (cases "ps_write_verify st")
      (simp_all add: w settle_metadata_verify settle_verify_def Let_def)
qed

lemma settle_metadata_unique:
  "wl_unique_verify (settle_metadata b w) = wl_unique_verify w"
  "wl_unique (settle_metadata b w) = wl_unique w"
  "wl_unique w \<Longrightarrow> wl_depth (settle_metadata b w) = 1"
  unfolding settle_metadata_def Let_def by (auto split: option.splits)

lemma settle_verify_unique:
  "wl_unique_verify (settle_verify st) = wl_unique_verify (ps_w st)"
  "wl_unique (settle_verify st) = wl_unique (ps_w st)"
  "wl_unique_verify (ps_w st) \<Longrightarrow> wl_verify (settle_verify st)"
  unfolding settle_verify_def Let_def by simp_all

lemma parse_workload_unique_verify:
  assumes "parse_workload s = Inr w"
  shows "wl_unique_verify w \<longrightarrow> wl_verify w \<and> wl_unique w \<and> wl_depth w = 1"
proof -
  from assms obtain st where st: "parse_loop parse_start s = Inr st"
    and c: "check_limits (settle_metadata (ps_explicit_sequential st) (settle_verify st)) = Inr w"
    unfolding parse_workload_def by (elim if_eqE and_then_InrE) auto
  have "wf_parsed st" using st parse_start_wf by (rule parse_loop_wf)
  then have "wl_unique_verify (ps_w st) \<longrightarrow> wl_unique (ps_w st)" by (simp add: wf_parsed_def Let_def)
  moreover have "w = settle_metadata (ps_explicit_sequential st) (settle_verify st)"
    using c unfolding check_limits_def by (auto split: if_split_asm)
  ultimately show ?thesis
    by (simp add: settle_metadata_unique settle_verify_unique settle_metadata_verify)
qed

lemmas workload_eval =
  parse_workload_def parse_loop.simps apply_token_def parse_start_def workload_default_def is_ascii_def
  is_ascii_whitespace_def is_value_char_def is_digit_def settle_verify_def settle_metadata_def
  check_limits_def read_share_def Let_def

text \<open>
  C32: what every accepted workload satisfies. Block sizes, queue depth, workers, read share, range,
  stripes and pass counts are inside the limits the engine relies on; verification is never combined
  with alternating passes; write-verify workloads have no reads of their own; and unique verification
  runs verified at depth one.
\<close>

theorem accepted_workload:
  assumes "parse_workload s = Inr w"
  shows "wf_workload w
    \<and> (wl_write_verify_race w \<longrightarrow> wl_write_verify w)
    \<and> (wl_write_verify w \<longrightarrow> wl_read_probability w = 0 \<and> wl_verify w \<and> \<not> wl_alternate w)
    \<and> (wl_unique_verify w \<longrightarrow> wl_verify w \<and> wl_unique w \<and> wl_depth w = 1)"
  using parse_workload_wf [OF assms] parse_workload_write_verify [OF assms]
    parse_workload_unique_verify [OF assms] by simp

lemma parse_write_verify: "\<exists>w. parse_workload ''vU'' = Inr w \<and> wl_write_verify w \<and> wl_unique_verify w"
  by (simp add: workload_eval)

theorem accepted_workload_witness:
  "\<exists>w. parse_workload ''vU'' = Inr w \<and> wl_read_probability w = 0 \<and> wl_depth w = 1 \<and> wf_workload w"
  using parse_write_verify accepted_workload [of "''vU''"] by auto

end
