(* ===== verification/Request.thy ===== *)
theory Request
  imports Text
begin

text \<open>
  \<open>src/rust/src/io/mod.rs\<close>: the request every component passes around, what a stream's source offers,
  and the in-flight measurement of a streamed run. Offsets and lengths are natural numbers: the callers
  keep \<open>offset + len\<close> inside the target, which is below \<open>2^63\<close> bytes.
\<close>

section \<open>Requests\<close>

record request =
  req_offset :: nat
  req_len :: nat
  req_write :: bool
  req_verify :: bool
  req_seed :: u16
  req_state :: u8

definition request_default :: request where
  "request_default = \<lparr>req_offset = 0, req_len = 0, req_write = False, req_verify = False,
     req_seed = 0, req_state = 0\<rparr>"

text \<open>The bytes a request moves.\<close>

definition extent :: "request \<Rightarrow> nat set" where
  "extent r = {req_offset r..<req_offset r + req_len r}"

datatype next_request = NextRequest request | NextWait | NextDone

section \<open>StreamStats\<close>

record stream_stats =
  ss_max_in_flight :: nat
  ss_area_ns :: nat
  ss_time_ns :: nat
  ss_latencies_us :: "nat list"
  ss_in_flight :: nat
  ss_last_change :: "nat option"

definition stream_stats_new :: stream_stats where
  "stream_stats_new = \<lparr>ss_max_in_flight = 0, ss_area_ns = 0, ss_time_ns = 0, ss_latencies_us = [],
     ss_in_flight = 0, ss_last_change = None\<rparr>"

text \<open>
  \<open>change\<close> at the instant \<open>now\<close> (in nanoseconds). \<open>duration_since\<close> saturates at zero, as subtraction on
  \<open>nat\<close> does; a completion with nothing in flight is the overflow the checked build rejects.
\<close>

definition stream_change :: "nat \<Rightarrow> bool \<Rightarrow> stream_stats \<Rightarrow> stream_stats result" where
  "stream_change now submitted s =
     (let s = (case ss_last_change s of None \<Rightarrow> s
               | Some prev \<Rightarrow> s\<lparr>ss_area_ns := ss_area_ns s + (now - prev) * ss_in_flight s,
                   ss_time_ns := ss_time_ns s + (now - prev)\<rparr>);
          s = s\<lparr>ss_last_change := Some now\<rparr>
      in if submitted then
           Inr (s\<lparr>ss_in_flight := ss_in_flight s + 1,
             ss_max_in_flight := max (ss_max_in_flight s) (ss_in_flight s + 1)\<rparr>)
         else if ss_in_flight s = 0 then Inl Panic
         else Inr (s\<lparr>ss_in_flight := ss_in_flight s - 1\<rparr>))"

text \<open>\<open>take\<close>: what was measured, and the cleared measurement.\<close>

definition stream_take :: "stream_stats \<Rightarrow> stream_stats \<times> stream_stats" where
  "stream_take s = (s, stream_stats_new)"

fun stream_changes :: "(nat \<times> bool) list \<Rightarrow> stream_stats \<Rightarrow> stream_stats result" where
  "stream_changes [] s = Inr s"
| "stream_changes ((now, submitted) # es) s = and_then (stream_change now submitted s) (stream_changes es)"

lemma extent_disjoint:
  "0 < req_len a \<Longrightarrow> 0 < req_len b \<Longrightarrow>
   extent a \<inter> extent b \<noteq> {} \<longleftrightarrow>
     req_offset a < req_offset b + req_len b \<and> req_offset b < req_offset a + req_len a"
  by (auto simp: extent_def disjoint_iff not_less intro!: exI [of _ "max (req_offset a) (req_offset b)"])

end
