(* ===== verification/Positions.thy ===== *)
theory Positions
  imports Pattern Workload Request "HOL-Library.Multiset"
begin

text \<open>
  \<open>src/rust/src/positions.rs\<close>: the fixed table of positions a worker runs through. \<open>positions_new\<close> fills
  it from a positions file or generates it (sizes, placement, direction, rotation, partial shuffle);
  \<open>positions_get\<close> reads the request at an operation index, reshuffling when a pass ends; \<open>written\<close>,
  \<open>checked\<close> and \<open>take_pending_check\<close> keep the checks that verified writes are owed. The lemmas show
  that every request stays inside the worker's range, that one pass visits each entry exactly once for
  every stripe count, and that the count of owed checks agrees with the table.
\<close>

section \<open>Building the table\<close>

text \<open>\<open>random() as f64 / u64::MAX as f64\<close>: \<open>u64::MAX\<close> rounds to \<open>2^64\<close> and the division is exact.\<close>

definition unit_draw :: "u64 \<Rightarrow> rat" where
  "unit_draw r = f64_of_nat (unat r) / 2 ^ 64"

text \<open>\<open>usize::ilog2\<close>, which panics on zero.\<close>

fun ilog2 :: "nat \<Rightarrow> nat" where
  "ilog2 n = (if n < 2 then 0 else Suc (ilog2 (n div 2)))"

declare ilog2.simps [simp del]

definition entry_len :: "workload \<Rightarrow> u64 \<Rightarrow> u64 \<times> nat" where
  "entry_len w rng =
     (let (rng', r) = random_u64 rng
      in if wl_power_sizes w
         then (rng', wl_block w * 2 ^ (unat r mod (ilog2 (wl_max_block w div wl_block w) + 1)))
         else (rng', wl_block w * (1 + unat r mod (wl_max_block w div wl_block w))))"

text \<open>
  The match on the mode: None is the \<open>break\<close> of \<open>First\<close>. The result holds the generator's state, the
  cursor and the offset from the start of the range.
\<close>

definition entry_offset ::
  "workload \<Rightarrow> nat \<Rightarrow> nat \<Rightarrow> nat \<Rightarrow> nat \<Rightarrow> nat \<Rightarrow> u64 \<Rightarrow> nat \<Rightarrow> (u64 \<times> nat \<times> nat) option" where
  "entry_offset w width blocks wanted i len rng cursor =
     (case wl_mode w of
        Sample \<Rightarrow> (let (rng', r) = random_u64 rng
          in Some (rng', cursor, unat r mod blocks * wl_block w))
      | First \<Rightarrow> if width < cursor + len then None else Some (rng, cursor + len, cursor)
      | _ \<Rightarrow> (let pos = (if wl_mode w = Alternating
                    then (if i mod 2 = 0 then i div 2 else wanted - 1 - i div 2) else i)
          in Some (rng, cursor,
               if wanted \<le> 1 then 0 else pos * (blocks - 1) div (wanted - 1) * wl_block w)))"

definition entry_write :: "workload \<Rightarrow> u64 \<Rightarrow> u64 \<times> bool" where
  "entry_write w rng =
     (if wl_read_probability w = 0 then (rng, True)
      else if wl_read_probability w = 1 then (rng, False)
      else let (rng', r) = random_u64 rng in (rng', wl_read_probability w \<le> unit_draw r))"

text \<open>The generating loop with \<open>k\<close> iterations left: iteration \<open>i = wanted - k\<close>.\<close>

fun generate :: "workload \<Rightarrow> nat \<Rightarrow> nat \<Rightarrow> nat \<Rightarrow> nat \<Rightarrow> u64 \<Rightarrow> nat \<Rightarrow> (u64 \<times> request list) result" where
  "generate w lo hi wanted 0 rng cursor = Inr (rng, [])"
| "generate w lo hi wanted (Suc k) rng cursor =
     (if wl_block w = 0 \<or> wl_max_block w < wl_block w then Inl Panic
      else let (rng, len) = entry_len w rng
           in if hi < lo + len then Inl Panic
              else let blocks = (hi - lo - len) div wl_block w + 1
                   in case entry_offset w (hi - lo) blocks wanted (wanted - Suc k) len rng cursor of
                        None \<Rightarrow> Inr (rng, [])
                      | Some (rng, cursor, offset) \<Rightarrow>
                          (let (rng, write) = entry_write w rng
                           in and_then (generate w lo hi wanted k rng cursor) (\<lambda>(rng, rest).
                                Inr (rng, request_default\<lparr>req_offset := lo + offset, req_len := len,
                                       req_write := write\<rparr> # rest))))"

text \<open>The rotation of a range that does not start at zero.\<close>

definition rotate_entry :: "nat \<Rightarrow> nat \<Rightarrow> nat \<Rightarrow> nat \<Rightarrow> request \<Rightarrow> request" where
  "rotate_entry lo hi block shift r =
     (let slots = (hi - lo - req_len r) div block + 1
      in r\<lparr>req_offset := lo + ((req_offset r - lo) div block + shift) mod slots * block\<rparr>)"

definition swap :: "nat \<Rightarrow> nat \<Rightarrow> 'a list \<Rightarrow> 'a list" where
  "swap i j xs = xs[i := xs ! j, j := xs ! i]"

text \<open>\<open>for i in (1..n).rev()\<close>, each swap taken when the draw reaches \<open>probability\<close>.\<close>

fun partial_shuffle :: "rat \<Rightarrow> nat \<Rightarrow> u64 \<Rightarrow> 'a list \<Rightarrow> u64 \<times> 'a list" where
  "partial_shuffle probability i rng xs =
     (case i of 0 \<Rightarrow> (rng, xs)
      | Suc i' \<Rightarrow>
          if i' = 0 then (rng, xs)
          else let (rng, r) = random_u64 rng
               in if probability \<le> unit_draw r then
                    (let (rng, q) = random_u64 rng
                     in partial_shuffle probability i' rng (swap i' (unat q mod (i' + 1)) xs))
                  else partial_shuffle probability i' rng xs)"

fun full_shuffle :: "nat \<Rightarrow> u64 \<Rightarrow> 'a list \<Rightarrow> u64 \<times> 'a list" where
  "full_shuffle i rng xs =
     (case i of 0 \<Rightarrow> (rng, xs)
      | Suc i' \<Rightarrow>
          if i' = 0 then (rng, xs)
          else let (rng, q) = random_u64 rng
               in full_shuffle i' rng (swap i' (unat q mod (i' + 1)) xs))"

declare partial_shuffle.simps [simp del] full_shuffle.simps [simp del]

definition generated_entries :: "workload \<Rightarrow> nat \<Rightarrow> nat \<Rightarrow> u64 \<Rightarrow> nat \<Rightarrow> (u64 \<times> request list) result" where
  "generated_entries w lo hi seed capacity =
     (let wanted = min (case wl_positions w of Some n \<Rightarrow> n | None \<Rightarrow> capacity) capacity
      in and_then (generate w lo hi wanted wanted seed 0) (\<lambda>(rng, entries).
         and_then
           (if wl_from_zero w then Inr (rng, entries)
            else if wl_block w = 0 \<or> (hi - lo) div wl_block w = 0 then Inl Panic
            else let (rng, r) = random_u64 rng; shift = unat r mod ((hi - lo) div wl_block w)
                 in Inr (rng, map (rotate_entry lo hi (wl_block w) shift) entries))
           (\<lambda>(rng, entries).
              let probability = min \<bar>wl_sequential w\<bar> 1
              in Inr (if probability < 1 then partial_shuffle probability (length entries) rng entries
                      else (rng, entries)))))"

record positions =
  po_entries :: "request list"
  po_rng :: u64
  po_pass :: nat
  po_lo :: nat
  po_hi :: nat
  po_work :: workload
  po_pending_checks :: nat

definition reset_entry :: "workload \<Rightarrow> u64 \<Rightarrow> nat \<Rightarrow> request \<Rightarrow> request" where
  "reset_entry w seed i r =
     (let r = r\<lparr>req_verify := False, req_state := 0\<rparr>
      in if wl_unique w then r\<lparr>req_seed := ucast seed + of_nat i\<rparr> else r)"

definition positions_new ::
  "workload \<Rightarrow> nat \<Rightarrow> nat \<Rightarrow> u64 \<Rightarrow> nat \<Rightarrow> request list \<Rightarrow> positions result" where
  "positions_new w lo hi seed capacity loaded =
     and_then
       (if loaded \<noteq> [] then
          (if capacity < length loaded then Inl (Err ''loaded positions exceed fixed table budget'')
           else Inr (seed, loaded))
        else generated_entries w lo hi seed capacity)
       (\<lambda>(rng, entries).
          if entries = [] then Inl (Err ''no positions fit the worker range'')
          else Inr \<lparr>po_entries = map (\<lambda>(i, r). reset_entry w seed i r) (enumerate 0 entries),
                 po_rng = rng, po_pass = 0, po_lo = lo, po_hi = hi, po_work = w,
                 po_pending_checks = 0\<rparr>)"

section \<open>Running through the table\<close>

definition positions_len :: "positions \<Rightarrow> nat" where
  "positions_len p = length (po_entries p) * (if wl_verify (po_work p) then 2 else 1)"

definition phase_remaining :: "positions \<Rightarrow> nat \<Rightarrow> nat" where
  "phase_remaining p index =
     (if wl_unique_verify (po_work p) then 1
      else let span = length (po_entries p) in span - index mod span)"

text \<open>\<open>stripe_index n stripes pos\<close>: the table index of position \<open>pos\<close> when the table is cut in stripes.\<close>

definition stripe_index :: "nat \<Rightarrow> nat \<Rightarrow> nat \<Rightarrow> nat" where
  "stripe_index n stripes pos =
     (if 1 < stripes then
        let rows = n div stripes; extra = n mod stripes
        in if pos < rows * stripes then
             (let stripe = pos mod stripes in stripe * rows + min stripe extra + pos div stripes)
           else (pos - rows * stripes + 1) * (rows + 1) - 1
      else pos)"

definition stripe_count :: "positions \<Rightarrow> nat" where
  "stripe_count p =
     min (max (nat \<lfloor>\<bar>wl_sequential (po_work p)\<bar>\<rfloor>) 1) (length (po_entries p))"

definition mapped :: "positions \<Rightarrow> nat \<Rightarrow> nat \<times> bool" where
  "mapped p index =
     (let n = length (po_entries p); local = index mod positions_len p;
          (pos, check) = (if wl_unique_verify (po_work p) then (local div 2, local mod 2 = 1)
                          else (local mod n, wl_verify (po_work p) \<and> n \<le> local));
          pos = stripe_index n (stripe_count p) pos;
          pos = (if wl_sequential (po_work p) < 0 then n - 1 - pos else pos)
      in (pos, check))"

definition shifted :: "positions \<Rightarrow> request \<Rightarrow> nat \<Rightarrow> request" where
  "shifted p r pass =
     (if wl_shift (po_work p) then
        let block = wl_block (po_work p); slots = (po_hi p - po_lo p - req_len r) div block + 1
        in r\<lparr>req_offset := po_lo p
               + ((req_offset r - po_lo p) div block + pass mod slots) mod slots * block\<rparr>
      else r)"

definition positions_get :: "positions \<Rightarrow> nat \<Rightarrow> positions \<times> request" where
  "positions_get p index =
     (let pass = index div positions_len p;
          p = (if pass \<noteq> po_pass p then
                 let p = p\<lparr>po_pass := pass\<rparr>
                 in if wl_shuffle (po_work p) then
                      (let (rng, entries) = full_shuffle (length (po_entries p)) (po_rng p) (po_entries p)
                       in p\<lparr>po_rng := rng, po_entries := entries\<rparr>)
                    else p
               else p);
          (pos, check) = mapped p index;
          r = po_entries p ! pos;
          r = r\<lparr>req_verify := check \<and> req_write r\<rparr>;
          r = (if check then r\<lparr>req_write := False\<rparr> else r);
          r = (if wl_alternate (po_work p) \<and> pass mod 2 = 1 then r\<lparr>req_write := \<not> req_write r\<rparr> else r)
      in (p, shifted p r pass))"

definition written :: "positions \<Rightarrow> nat \<Rightarrow> positions" where
  "written p index =
     (let (pos, _) = mapped p index
      in if \<not> req_verify (po_entries p ! pos) then
           p\<lparr>po_entries := (po_entries p)[pos := (po_entries p ! pos)\<lparr>req_verify := True\<rparr>],
             po_pending_checks := po_pending_checks p + 1\<rparr>
         else p)"

definition checked :: "positions \<Rightarrow> nat \<Rightarrow> positions" where
  "checked p index =
     (let (pos, _) = mapped p index
      in if req_verify (po_entries p ! pos) then
           p\<lparr>po_entries := (po_entries p)[pos := (po_entries p ! pos)\<lparr>req_verify := False\<rparr>],
             po_pending_checks := po_pending_checks p - 1\<rparr>
         else p)"

function take_pending_check :: "positions \<Rightarrow> nat \<Rightarrow> positions \<times> nat \<times> request option" where
  "take_pending_check p cursor =
     (if 0 < po_pending_checks p \<and> cursor < length (po_entries p) then
        let r = po_entries p ! cursor
        in if req_verify r then
             (p\<lparr>po_entries := (po_entries p)[cursor := r\<lparr>req_verify := False\<rparr>],
                po_pending_checks := po_pending_checks p - 1\<rparr>,
              cursor + 1,
              Some (shifted p (r\<lparr>req_write := False, req_verify := True\<rparr>) (po_pass p)))
           else take_pending_check p (cursor + 1)
      else (p, cursor, None))"
  by pat_completeness auto
termination
  by (relation "measure (\<lambda>(p, cursor). length (po_entries p) - cursor)") auto

declare take_pending_check.simps [simp del]

section \<open>Entries inside the range\<close>

definition good_entry :: "workload \<Rightarrow> nat \<Rightarrow> nat \<Rightarrow> request \<Rightarrow> bool" where
  "good_entry w lo hi r \<longleftrightarrow>
     lo \<le> req_offset r \<and> req_offset r + req_len r \<le> hi \<and> wl_block w dvd req_offset r - lo
     \<and> wl_block w dvd req_len r \<and> wl_block w \<le> req_len r \<and> req_len r \<le> wl_max_block w"

definition fits :: "workload \<Rightarrow> nat \<Rightarrow> nat \<Rightarrow> bool" where
  "fits w lo hi \<longleftrightarrow> 0 < wl_block w \<and> wl_block w \<le> wl_max_block w \<and> lo + wl_max_block w \<le> hi"

lemma ilog2_pow: "0 < n \<Longrightarrow> 2 ^ ilog2 n \<le> n"
proof (induction n rule: ilog2.induct)
  case (1 n)
  show ?case
  proof (cases "n < 2")
    case False
    then have "2 ^ ilog2 (n div 2) \<le> n div 2" using 1 by simp
    then show ?thesis using False by (subst ilog2.simps) simp
  qed (use 1 in \<open>simp add: ilog2.simps\<close>)
qed

lemma mult_div_le: "k \<le> m div b \<Longrightarrow> b * k \<le> (m :: nat)"
  by (metis div_times_less_eq_dividend le_trans mult.commute mult_le_mono2)

lemma entry_len_bounds:
  assumes "entry_len w rng = (rng', len)" and "0 < wl_block w" and "wl_block w \<le> wl_max_block w"
  shows "wl_block w dvd len" "wl_block w \<le> len" "len \<le> wl_max_block w"
proof -
  have q: "0 < wl_max_block w div wl_block w" using assms by (simp add: div_greater_zero_iff)
  obtain k where k: "len = wl_block w * k" "1 \<le> k" "k \<le> wl_max_block w div wl_block w"
  proof (cases "wl_power_sizes w")
    case True
    let ?e = "unat (snd (random_u64 rng)) mod (ilog2 (wl_max_block w div wl_block w) + 1)"
    have "?e \<le> ilog2 (wl_max_block w div wl_block w)" by (simp add: less_Suc_eq_le)
    then have "(2 :: nat) ^ ?e \<le> wl_max_block w div wl_block w"
      using ilog2_pow [OF q] by (meson le_trans one_le_numeral power_increasing)
    then show ?thesis
      using that [of "2 ^ ?e"] True assms by (auto simp: entry_len_def split: prod.splits)
  next
    case False
    let ?m = "unat (snd (random_u64 rng)) mod (wl_max_block w div wl_block w)"
    have "?m < wl_max_block w div wl_block w" using q by simp
    then show ?thesis
      using that [of "1 + ?m"] False assms by (auto simp: entry_len_def split: prod.splits)
  qed
  then show "wl_block w dvd len" "wl_block w \<le> len" "len \<le> wl_max_block w"
    by (auto simp: mult_div_le simp del: mult_Suc)
qed

lemma block_slot_fits:
  assumes "0 < (b :: nat)" and "len \<le> width" and "k \<le> (width - len) div b"
  shows "k * b + len \<le> width"
  using mult_div_le [OF assms(3)] assms(2) by (simp add: mult.commute)

lemma share_le: "p \<le> d \<Longrightarrow> p * m div d \<le> (m :: nat)"
  by (metis div_le_mono div_mult_self1_is_m div_by_0 le0 mult_le_mono1 neq0_conv)

lemma entry_offset_bounds:
  assumes off: "entry_offset w width ((width - len) div wl_block w + 1) wanted i len rng cursor
      = Some (rng', cursor', off)"
    and b: "0 < wl_block w" and "len \<le> width" and "i < wanted"
    and "wl_block w dvd cursor" "wl_block w dvd len"
  shows "wl_block w dvd off" "off + len \<le> width" "wl_block w dvd cursor'"
proof -
  let ?m = "(width - len) div wl_block w"
  have spaced: "pos * ?m div (wanted - 1) \<le> ?m" if "pos \<le> wanted - 1" for pos
    using that by (rule share_le)
  have *: "wl_block w dvd off \<and> off + len \<le> width \<and> wl_block w dvd cursor'"
  proof (cases "wl_mode w")
    case Sample
    have "unat (snd (random_u64 rng)) mod (?m + 1) \<le> ?m" by (simp add: less_Suc_eq_le)
    from block_slot_fits [OF b assms(3) this] show ?thesis
      using Sample off assms by (auto simp: entry_offset_def split: prod.splits)
  next
    case First
    then show ?thesis using off assms by (auto simp: entry_offset_def split: if_splits)
  next
    case Spaced
    have "i \<le> wanted - 1" using assms by simp
    from block_slot_fits [OF b assms(3) spaced [OF this]] show ?thesis
      using Spaced off assms by (auto simp: entry_offset_def Let_def split: if_splits)
  next
    case Alternating
    have "i div 2 \<le> wanted - 1" "wanted - 1 - i div 2 \<le> wanted - 1" using assms by auto
    from this [THEN spaced, THEN block_slot_fits [OF b assms(3)]] show ?thesis
      using Alternating off assms by (auto simp: entry_offset_def Let_def split: if_splits)
  qed
  then show "wl_block w dvd off" "off + len \<le> width" "wl_block w dvd cursor'" by auto
qed


lemma entry_offset_None:
  assumes "entry_offset w width blocks wanted i len rng cursor = None"
  shows "wl_mode w = First" "width < cursor + len"
  using assms by (auto simp: entry_offset_def Let_def split: position_mode.splits prod.splits if_splits)

lemma generate_good:
  assumes w: "fits w lo hi"
  shows "k \<le> wanted \<Longrightarrow> wl_block w dvd cursor \<Longrightarrow>
    \<exists>rng' es. generate w lo hi wanted k rng cursor = Inr (rng', es)
      \<and> (\<forall>r\<in>set es. good_entry w lo hi r \<and> \<not> req_verify r) \<and> length es \<le> k
      \<and> (0 < k \<and> cursor = 0 \<longrightarrow> es \<noteq> [])"
proof (induction k arbitrary: rng cursor)
  case (Suc k)
  have b: "0 < wl_block w" "wl_block w \<le> wl_max_block w" "lo + wl_max_block w \<le> hi"
    using w by (auto simp: fits_def)
  obtain rng1 len where len: "entry_len w rng = (rng1, len)" by fastforce
  note lb = entry_len_bounds [OF len b(1,2)]
  have room: "lo + len \<le> hi" "len \<le> hi - lo" using lb(3) b(3) by auto
  let ?o = "entry_offset w (hi - lo) ((hi - lo - len) div wl_block w + 1) wanted (wanted - Suc k) len rng1 cursor"
  show ?case
  proof (cases ?o)
    case None
    then show ?thesis
      using b len room entry_offset_None [OF None] by (auto simp: not_le)
  next
    case (Some t)
    then obtain rng2 c2 off where t: "?o = Some (rng2, c2, off)" by (cases t) auto
    note ob = entry_offset_bounds [OF t b(1) room(2) _ Suc.prems(2) lb(1)]
    obtain rng3 wr where wr: "entry_write w rng2 = (rng3, wr)" by fastforce
    from Suc.IH [of c2 rng3] Suc.prems ob obtain rng' es
      where es: "generate w lo hi wanted k rng3 c2 = Inr (rng', es)" "length es \<le> k"
        "\<forall>r\<in>set es. good_entry w lo hi r \<and> \<not> req_verify r" by auto
    show ?thesis
      using b len room t wr es lb ob Suc.prems
      by (auto simp: good_entry_def request_default_def not_less)
  qed
qed simp

lemma rotate_entry_good:
  assumes "fits w lo hi" and "good_entry w lo hi r"
  shows "good_entry w lo hi (rotate_entry lo hi (wl_block w) shift r)"
proof -
  let ?m = "(hi - lo - req_len r) div wl_block w"
  let ?k = "((req_offset r - lo) div wl_block w + shift) mod (?m + 1)"
  have "?k \<le> ?m" by (simp add: less_Suc_eq_le)
  moreover have "req_len r \<le> hi - lo" using assms by (auto simp: good_entry_def)
  ultimately have "?k * wl_block w + req_len r \<le> hi - lo"
    using assms by (intro block_slot_fits) (auto simp: fits_def)
  then show ?thesis using assms by (auto simp: rotate_entry_def good_entry_def fits_def Let_def)
qed

section \<open>Shuffling\<close>

lemma mset_swap: "i < length xs \<Longrightarrow> j < length xs \<Longrightarrow> mset (swap i j xs) = mset xs"
  by (simp add: swap_def mset_swap)

lemma length_swap [simp]: "length (swap i j xs) = length xs"
  by (simp add: swap_def)

lemma draw_index: "Suc m \<le> n \<Longrightarrow> q mod (m + 1) < (n :: nat)"
  by (rule less_le_trans [OF mod_less_divisor]) auto

lemma mset_partial_shuffle: "n \<le> length xs \<Longrightarrow> mset (snd (partial_shuffle p n rng xs)) = mset xs"
proof (induction p n rng xs rule: partial_shuffle.induct)
  case (1 p n rng xs)
  show ?case
  proof (cases n)
    case (Suc m)
    obtain rng1 r rng2 q where r: "random_u64 rng = (rng1, r)" "random_u64 rng1 = (rng2, q)" by fastforce
    have q: "unat q mod (m + 1) < length xs"
      using 1(3) Suc by (intro draw_index) simp
    show ?thesis
    proof (cases "m = 0")
      case False
      with 1(1) [OF Suc] 1(2) [OF Suc] 1(3) Suc r q show ?thesis
        by (subst partial_shuffle.simps) (simp add: mset_swap)
    qed (use Suc in \<open>simp add: partial_shuffle.simps\<close>)
  qed (simp add: partial_shuffle.simps)
qed

lemma mset_full_shuffle: "n \<le> length xs \<Longrightarrow> mset (snd (full_shuffle n rng xs)) = mset xs"
proof (induction n rng xs rule: full_shuffle.induct)
  case (1 n rng xs)
  show ?case
  proof (cases n)
    case (Suc m)
    obtain rng2 q where r: "random_u64 rng = (rng2, q)" by fastforce
    have q: "unat q mod (m + 1) < length xs"
      using 1(2) Suc by (intro draw_index) simp
    show ?thesis
    proof (cases "m = 0")
      case False
      with 1(1) [OF Suc] 1(2) Suc r q show ?thesis
        by (subst full_shuffle.simps) (simp add: mset_swap)
    qed (use Suc in \<open>simp add: full_shuffle.simps\<close>)
  qed (simp add: full_shuffle.simps)
qed

lemmas set_shuffle =
  mset_partial_shuffle [OF order_refl, THEN mset_eq_setD] mset_full_shuffle [OF order_refl, THEN mset_eq_setD]
lemmas length_shuffle =
  mset_partial_shuffle [OF order_refl, THEN mset_eq_length] mset_full_shuffle [OF order_refl, THEN mset_eq_length]


section \<open>The table\<close>

text \<open>
  \<open>wf_positions\<close>: a table that is not empty, lies in the range, and whose counter of owed checks is the
  number of entries marked.
\<close>

definition wf_positions :: "positions \<Rightarrow> bool" where
  "wf_positions p \<longleftrightarrow> po_entries p \<noteq> [] \<and> fits (po_work p) (po_lo p) (po_hi p)
     \<and> (\<forall>r\<in>set (po_entries p). good_entry (po_work p) (po_lo p) (po_hi p) r)
     \<and> po_pending_checks p = length (filter req_verify (po_entries p))"

lemma reset_entry_simps [simp]:
  "good_entry w' lo hi (reset_entry w seed i r) = good_entry w' lo hi r"
  "\<not> req_verify (reset_entry w seed i r)"
  by (simp_all add: reset_entry_def good_entry_def Let_def)

lemma enumerate_eq_Nil [simp]: "enumerate k xs = [] \<longleftrightarrow> xs = []"
  by (metis length_0_conv length_enumerate)

lemma generated_entries_good:
  assumes w: "fits w lo hi" and c: "0 < capacity" and n: "wl_positions w \<noteq> Some 0"
  shows "\<exists>rng es. generated_entries w lo hi seed capacity = Inr (rng, es) \<and> es \<noteq> []
    \<and> (\<forall>r\<in>set es. good_entry w lo hi r)"
proof -
  let ?wanted = "min (case wl_positions w of Some n \<Rightarrow> n | None \<Rightarrow> capacity) capacity"
  have "0 < ?wanted" using n c by (auto split: option.splits)
  then obtain rng es where g: "generate w lo hi ?wanted ?wanted seed 0 = Inr (rng, es)"
    "\<forall>r\<in>set es. good_entry w lo hi r" "es \<noteq> []"
    using generate_good [OF w, of ?wanted ?wanted 0 seed] by auto
  obtain rng1 draw where draw: "random_u64 rng = (rng1, draw)" by fastforce
  let ?rot = "map (rotate_entry lo hi (wl_block w) (unat draw mod ((hi - lo) div wl_block w))) es"
  define es1 where "es1 = (if wl_from_zero w then (rng, es) else (rng1, ?rot))"
  have es1: "snd es1 \<noteq> []" "\<forall>r\<in>set (snd es1). good_entry w lo hi r"
    using g rotate_entry_good [OF w] by (auto simp: es1_def)
  have b: "wl_block w \<noteq> 0" "(hi - lo) div wl_block w \<noteq> 0"
    using w by (auto simp: fits_def div_eq_0_iff)
  have gen: "generated_entries w lo hi seed capacity =
      Inr (if min \<bar>wl_sequential w\<bar> 1 < 1
           then partial_shuffle (min \<bar>wl_sequential w\<bar> 1) (length (snd es1)) (fst es1) (snd es1) else es1)"
    using b by (simp add: generated_entries_def g draw es1_def Let_def)
  define res where "res = (if min \<bar>wl_sequential w\<bar> 1 < 1
           then partial_shuffle (min \<bar>wl_sequential w\<bar> 1) (length (snd es1)) (fst es1) (snd es1) else es1)"
  have "set (snd res) = set (snd es1)" by (simp add: res_def set_shuffle)
  moreover have "generated_entries w lo hi seed capacity = Inr (fst res, snd res)"
    by (simp add: gen res_def)
  ultimately show ?thesis using es1 by (metis set_empty)
qed

lemma positions_new_wf:
  assumes w: "fits w lo hi" and c: "0 < capacity" "length loaded \<le> capacity"
    and l: "\<forall>r\<in>set loaded. good_entry w lo hi r" and n: "wl_positions w \<noteq> Some 0"
  shows "\<exists>p. positions_new w lo hi seed capacity loaded = Inr p \<and> wf_positions p
      \<and> po_work p = w \<and> po_lo p = lo \<and> po_hi p = hi \<and> po_pass p = 0 \<and> po_pending_checks p = 0"
proof -
  obtain rng es where es: "es \<noteq> []" "\<forall>r\<in>set es. good_entry w lo hi r"
    "(if loaded \<noteq> [] then
          (if capacity < length loaded then Inl (Err ''loaded positions exceed fixed table budget'')
           else Inr (seed, loaded))
        else generated_entries w lo hi seed capacity) = Inr (rng, es)"
    using generated_entries_good [OF w c(1) n, of seed] c l by (cases "loaded = []") auto
  have "\<forall>r\<in>set (map (\<lambda>(i, r). reset_entry w seed i r) (enumerate 0 es)). good_entry w lo hi r \<and> \<not> req_verify r"
    using es(2) by (auto simp: in_set_enumerate_eq)
  then show ?thesis
    unfolding positions_new_def es(3) using es(1) w
    by (auto simp: wf_positions_def)
qed

section \<open>One pass\<close>

lemma stripe_index_eq:
  assumes "0 < stripes" and "pos < n"
  shows "stripe_index n stripes pos =
    pos mod stripes * (n div stripes) + min (pos mod stripes) (n mod stripes) + pos div stripes"
proof (cases "1 < stripes \<and> \<not> pos < n div stripes * stripes")
  case True
  define r x where "r = n div stripes" and "x = n mod stripes"
  have n: "n = r * stripes + x" "x < stripes" using assms by (simp_all add: r_def x_def)
  define e where "e = pos - r * stripes"
  have pos: "pos = r * stripes + e" using True by (simp add: e_def r_def)
  have e: "e < x" using assms pos n by simp
  have idx: "stripe_index n stripes pos = (e + 1) * (r + 1) - 1"
    using True pos unfolding stripe_index_def r_def [symmetric] x_def [symmetric] by simp
  have "pos mod stripes = e" "pos div stripes = r" using e n(2) pos by auto
  then show ?thesis using e unfolding idx r_def [symmetric] x_def [symmetric] by simp
next
  case False
  then consider "stripes = 1" | "1 < stripes" "pos < n div stripes * stripes" using assms by linarith
  then show ?thesis by cases (simp_all add: stripe_index_def Let_def)
qed

lemma stripe_index_less:
  assumes s: "0 < stripes" and p: "p < n" and lt: "p mod stripes < b"
  shows "stripe_index n stripes p < b * (n div stripes) + min b (n mod stripes)"
proof -
  define r x a where "r = n div stripes" and "x = n mod stripes" and "a = p mod stripes"
  have n: "n = r * stripes + x" "x < stripes" using s by (simp_all add: r_def x_def)
  define t where "t = r + (if a < x then 1 else 0)"
  have "p div stripes < t"
  proof (rule ccontr)
    assume "\<not> p div stripes < t"
    then have "t * stripes \<le> p div stripes * stripes" by (intro mult_le_mono1) simp
    then have "t * stripes + a \<le> p" unfolding a_def by (metis add_le_mono1 div_mult_mod_eq)
    then show False using p n by (auto simp: t_def algebra_simps split: if_splits)
  qed
  moreover have "a * r + min a x + t \<le> b * r + min b x"
  proof -
    have "Suc a * r \<le> b * r" using lt by (intro mult_le_mono1) (simp add: a_def)
    then show ?thesis using lt by (auto simp: t_def a_def)
  qed
  ultimately show ?thesis
    using s p unfolding stripe_index_eq [OF s p] a_def [symmetric] r_def [symmetric] x_def [symmetric] by simp
qed

lemma stripe_index_mono:
  assumes s: "0 < stripes" and p: "p < n" "q < n" and lt: "p mod stripes < q mod stripes"
  shows "stripe_index n stripes p < stripe_index n stripes q"
  using stripe_index_less [OF s p(1) lt] stripe_index_eq [OF s p(2)] by linarith

lemma stripe_index_inj:
  assumes s: "0 < stripes" and p: "p < n" "q < n"
  shows "stripe_index n stripes p = stripe_index n stripes q \<longleftrightarrow> p = q"
proof
  assume eq: "stripe_index n stripes p = stripe_index n stripes q"
  then have m: "p mod stripes = q mod stripes"
    using stripe_index_mono [OF s p] stripe_index_mono [OF s p(2,1)] by (metis less_irrefl linorder_neqE_nat)
  then have "p div stripes = q div stripes" using eq p s by (simp add: stripe_index_eq)
  with m show "p = q" by (metis div_mult_mod_eq)
qed simp

lemma stripe_index_bound:
  assumes s: "0 < stripes" and p: "p < n"
  shows "stripe_index n stripes p < n"
proof -
  have "min stripes (n mod stripes) = n mod stripes" using s by (simp add: min_absorb2 less_imp_le)
  then show ?thesis using stripe_index_less [OF s p, of stripes] s by simp
qed

text \<open>The two steps of \<open>mapped\<close>: which visit an index is, and where the stripes put it.\<close>

definition visit :: "positions \<Rightarrow> nat \<Rightarrow> nat \<times> bool" where
  "visit p local =
     (let n = length (po_entries p)
      in if wl_unique_verify (po_work p) then (local div 2, local mod 2 = 1)
         else (local mod n, wl_verify (po_work p) \<and> n \<le> local))"

definition placed :: "positions \<Rightarrow> nat \<Rightarrow> nat" where
  "placed p pos =
     (let n = length (po_entries p);
          pos = stripe_index n (stripe_count p) pos
      in if wl_sequential (po_work p) < 0 then n - 1 - pos else pos)"

lemma mapped_visit:
  "mapped p index = (let (pos, check) = visit p (index mod positions_len p) in (placed p pos, check))"
  by (simp add: mapped_def visit_def placed_def Let_def)

lemma stripe_count_pos: "po_entries p \<noteq> [] \<Longrightarrow> 0 < stripe_count p"
  by (simp add: stripe_count_def)

lemma placed_bound:
  assumes "pos < length (po_entries p)"
  shows "placed p pos < length (po_entries p)"
proof -
  have "0 < stripe_count p" using assms by (auto intro: stripe_count_pos)
  from stripe_index_bound [OF this assms] show ?thesis by (auto simp: placed_def Let_def)
qed

lemma placed_inj:
  assumes "pos < length (po_entries p)" "q < length (po_entries p)"
  shows "placed p pos = placed p q \<longleftrightarrow> pos = q"
proof -
  have s: "0 < stripe_count p" using assms by (auto intro: stripe_count_pos)
  show ?thesis
    using stripe_index_inj [OF s assms] stripe_index_bound [OF s assms(1)]
      stripe_index_bound [OF s assms(2)]
    by (auto simp: placed_def Let_def)
qed

definition visits :: "positions \<Rightarrow> (nat \<times> bool) set" where
  "visits p = {..<length (po_entries p)} \<times> (if wl_verify (po_work p) then {False, True} else {False})"

lemma card_visits: "card (visits p) = positions_len p"
  by (simp add: visits_def positions_len_def card_cartesian_product)

lemma visit_in:
  assumes "po_entries p \<noteq> []" and "wl_unique_verify (po_work p) \<longrightarrow> wl_verify (po_work p)"
    and "local < positions_len p"
  shows "visit p local \<in> visits p"
  using assms by (auto simp: visit_def visits_def positions_len_def Let_def split: if_splits)

lemma visit_inj:
  assumes uv: "wl_unique_verify (po_work p) \<longrightarrow> wl_verify (po_work p)"
    and l: "i < positions_len p" "j < positions_len p" and eq: "visit p i = visit p j"
  shows "i = j"
proof (cases "wl_unique_verify (po_work p)")
  case True
  then have "i div 2 = j div 2" "i mod 2 = j mod 2" using eq by (auto simp: visit_def Let_def)
  then show ?thesis by (metis div_mult_mod_eq)
next
  case False
  let ?n = "length (po_entries p)"
  have "i div ?n = j div ?n"
  proof (cases "wl_verify (po_work p)")
    case True
    have half: "k div ?n = (if ?n \<le> k then 1 else 0)" if "k < ?n * 2" for k
      using that by (auto simp: div_nat_eqI)
    show ?thesis using True False eq l by (simp add: visit_def positions_len_def Let_def half)
  qed (use l in \<open>simp add: positions_len_def\<close>)
  moreover have "i mod ?n = j mod ?n" using False eq by (simp add: visit_def Let_def)
  ultimately show ?thesis by (metis div_mult_mod_eq)
qed

lemma mapped_pass_bij:
  assumes ne: "po_entries p \<noteq> []" and uv: "wl_unique_verify (po_work p) \<longrightarrow> wl_verify (po_work p)"
  shows "bij_betw (mapped p) {k * positions_len p..<(k + 1) * positions_len p} (visits p)"
proof -
  let ?L = "positions_len p" and ?I = "{k * positions_len p..<(k + 1) * positions_len p}"
  have L: "0 < ?L" using ne by (simp add: positions_len_def)
  have local: "i mod ?L < ?L" for i using L by simp
  have dv: "i div ?L = k" if "i \<in> ?I" for i
    using that by (auto intro!: div_nat_eqI simp: algebra_simps)
  have inj: "inj_on (mapped p) ?I"
  proof (rule inj_onI)
    fix i j assume i: "i \<in> ?I" and j: "j \<in> ?I" and eq: "mapped p i = mapped p j"
    have "visit p (i mod ?L) = visit p (j mod ?L)"
      using visit_in [OF ne uv local, of i] visit_in [OF ne uv local, of j] eq
      by (auto simp: mapped_visit visits_def placed_inj split: prod.splits)
    then have "i mod ?L = j mod ?L" by (rule visit_inj [OF uv local local])
    then show "i = j" using dv [OF i] dv [OF j] by (metis div_mult_mod_eq)
  qed
  moreover have "mapped p ` ?I \<subseteq> visits p"
  proof (rule image_subsetI)
    fix i show "mapped p i \<in> visits p"
      using visit_in [OF ne uv local, of i] by (auto simp: mapped_visit visits_def placed_bound split: prod.splits)
  qed
  moreover have "card ?I = card (visits p)" by (simp add: card_visits)
  moreover have "finite (visits p)" by (simp add: visits_def)
  ultimately show ?thesis
    by (metis bij_betw_def card_image card_subset_eq)
qed


lemma mapped_bound: "po_entries p \<noteq> [] \<Longrightarrow> wl_unique_verify (po_work p) \<longrightarrow> wl_verify (po_work p) \<Longrightarrow>
  fst (mapped p index) < length (po_entries p)"
proof -
  assume a: "po_entries p \<noteq> []" "wl_unique_verify (po_work p) \<longrightarrow> wl_verify (po_work p)"
  then have "index mod positions_len p < positions_len p" by (simp add: positions_len_def)
  from visit_in [OF a this] show ?thesis
    by (auto simp: mapped_visit visits_def placed_bound split: prod.splits)
qed

section \<open>Requests stay in the range\<close>

lemma shifted_good:
  assumes "fits (po_work p) (po_lo p) (po_hi p)" and "good_entry (po_work p) (po_lo p) (po_hi p) r"
  shows "good_entry (po_work p) (po_lo p) (po_hi p) (shifted p r pass)"
  using rotate_entry_good [OF assms, of "pass mod ((po_hi p - po_lo p - req_len r) div wl_block (po_work p) + 1)"] assms(2)
  by (simp add: shifted_def rotate_entry_def Let_def)

lemma good_entry_update [simp]:
  "good_entry w lo hi (r\<lparr>req_write := b\<rparr>) = good_entry w lo hi r"
  "good_entry w lo hi (r\<lparr>req_verify := b\<rparr>) = good_entry w lo hi r"
  by (simp_all add: good_entry_def)

text \<open>The table after the pass change of \<open>positions_get\<close>.\<close>

definition advance :: "positions \<Rightarrow> nat \<Rightarrow> positions" where
  "advance p pass =
     (if pass \<noteq> po_pass p then
        let p = p\<lparr>po_pass := pass\<rparr>
        in if wl_shuffle (po_work p) then
             (let (rng, entries) = full_shuffle (length (po_entries p)) (po_rng p) (po_entries p)
              in p\<lparr>po_rng := rng, po_entries := entries\<rparr>)
           else p
      else p)"

lemma positions_get_advance:
  "positions_get p index =
     (let pass = index div positions_len p; p = advance p pass; (pos, check) = mapped p index;
          r = po_entries p ! pos;
          r = r\<lparr>req_verify := check \<and> req_write r\<rparr>;
          r = (if check then r\<lparr>req_write := False\<rparr> else r);
          r = (if wl_alternate (po_work p) \<and> pass mod 2 = 1 then r\<lparr>req_write := \<not> req_write r\<rparr> else r)
      in (p, shifted p r pass))"
  by (simp add: positions_get_def advance_def)

lemma advance_simps [simp]:
  "po_work (advance p k) = po_work p" "po_lo (advance p k) = po_lo p" "po_hi (advance p k) = po_hi p"
  "mset (po_entries (advance p k)) = mset (po_entries p)"
  "po_pending_checks (advance p k) = po_pending_checks p" "po_pass (advance p k) = k"
  using mset_full_shuffle [OF order_refl, of "po_entries p" "po_rng p"]
  by (auto simp: advance_def Let_def split: prod.splits)

lemma wf_positions_mset:
  assumes "wf_positions p" and "mset (po_entries q) = mset (po_entries p)" and "po_work q = po_work p"
    and "po_lo q = po_lo p" and "po_hi q = po_hi p" and "po_pending_checks q = po_pending_checks p"
  shows "wf_positions q"
proof -
  have "length (filter req_verify (po_entries q)) = length (filter req_verify (po_entries p))"
    using assms(2) by (metis mset_filter size_mset)
  moreover have "set (po_entries q) = set (po_entries p)" using assms(2) by (metis set_mset_mset)
  moreover have "po_entries q \<noteq> [] \<longleftrightarrow> po_entries p \<noteq> []" using assms(2) by auto
  ultimately show ?thesis using assms by (simp add: wf_positions_def)
qed

lemma positions_get_wf:
  assumes wf: "wf_positions p" and uv: "wl_unique_verify (po_work p) \<longrightarrow> wl_verify (po_work p)"
    and get: "positions_get p index = (p', r)"
  shows "wf_positions p'" "good_entry (po_work p) (po_lo p) (po_hi p) r"
    "mset (po_entries p') = mset (po_entries p)" "po_work p' = po_work p"
proof -
  define q where "q = advance p (index div positions_len p)"
  have p': "p' = q" using get by (auto simp: positions_get_advance q_def Let_def split: prod.splits)
  have q: "wf_positions q" "po_work q = po_work p" "po_lo q = po_lo p" "po_hi q = po_hi p"
    using wf_positions_mset [OF wf, of q] by (simp_all add: q_def)
  then show "wf_positions p'" "po_work p' = po_work p" by (simp_all add: p')
  show "mset (po_entries p') = mset (po_entries p)" by (simp add: p' q_def)
  have b: "fst (mapped q index) < length (po_entries q)"
    using q uv by (intro mapped_bound) (auto simp: wf_positions_def)
  then have g: "good_entry (po_work q) (po_lo q) (po_hi q) (po_entries q ! fst (mapped q index))"
    using q(1) by (simp add: wf_positions_def)
  have "fits (po_work q) (po_lo q) (po_hi q)" using q(1) by (simp add: wf_positions_def)
  note shifted_good [OF this]
  then show "good_entry (po_work p) (po_lo p) (po_hi p) r"
    using get g by (auto simp: positions_get_advance q_def [symmetric] q(2-4) Let_def split: prod.splits if_splits)
qed


section \<open>Checks owed to verified writes\<close>

lemma count_update:
  assumes "i < length xs"
  shows "length (filter P (xs[i := v])) + (if P (xs ! i) then 1 else 0)
    = length (filter P xs) + (if P v then 1 else 0)"
  using assms
proof (induction xs arbitrary: i)
  case (Cons x xs)
  then show ?case by (cases i) auto
qed simp

lemma wf_positions_update:
  assumes wf: "wf_positions p" and i: "i < length (po_entries p)" and r: "r = (po_entries p ! i)\<lparr>req_verify := v\<rparr>"
    and c: "c + (if req_verify (po_entries p ! i) then 1 else 0) = po_pending_checks p + (if v then 1 else 0)"
  shows "wf_positions (p\<lparr>po_entries := (po_entries p)[i := r], po_pending_checks := c\<rparr>)"
proof -
  have "good_entry (po_work p) (po_lo p) (po_hi p) r" using wf i r by (simp add: wf_positions_def)
  moreover have "c = length (filter req_verify ((po_entries p)[i := r]))"
    using count_update [OF i, of req_verify r] c wf r by (auto simp: wf_positions_def split: if_splits)
  ultimately show ?thesis
    using wf set_update_subset_insert [of "po_entries p" i r]
    by (auto simp: wf_positions_def)
qed

lemma pending_pos:
  assumes "wf_positions p" and "i < length (po_entries p)" and "req_verify (po_entries p ! i)"
  shows "0 < po_pending_checks p"
  using assms by (auto simp: wf_positions_def filter_empty_conv length_greater_0_conv simp del: length_greater_0_conv intro!: length_pos_if_in_set [of "po_entries p ! i"])

lemma written_wf:
  assumes wf: "wf_positions p" and uv: "wl_unique_verify (po_work p) \<longrightarrow> wl_verify (po_work p)"
  shows "wf_positions (written p index)"
    "req_verify (po_entries (written p index) ! fst (mapped p index))"
proof -
  have i: "fst (mapped p index) < length (po_entries p)"
    using wf uv by (intro mapped_bound) (auto simp: wf_positions_def)
  then show "wf_positions (written p index)"
    using wf by (auto simp: written_def split: prod.splits intro!: wf_positions_update)
  show "req_verify (po_entries (written p index) ! fst (mapped p index))"
    using i by (auto simp: written_def split: prod.splits)
qed

lemma checked_wf:
  assumes wf: "wf_positions p" and uv: "wl_unique_verify (po_work p) \<longrightarrow> wl_verify (po_work p)"
  shows "wf_positions (checked p index)"
    "\<not> req_verify (po_entries (checked p index) ! fst (mapped p index))"
proof -
  have i: "fst (mapped p index) < length (po_entries p)"
    using wf uv by (intro mapped_bound) (auto simp: wf_positions_def)
  show "wf_positions (checked p index)"
    using wf i pending_pos [OF wf i]
    by (auto simp: checked_def split: prod.splits intro!: wf_positions_update)
  show "\<not> req_verify (po_entries (checked p index) ! fst (mapped p index))"
    using i by (auto simp: checked_def split: prod.splits)
qed

text \<open>The entries the drain has passed owe nothing.\<close>

definition drained :: "positions \<Rightarrow> nat \<Rightarrow> bool" where
  "drained p cursor \<longleftrightarrow> (\<forall>i < min cursor (length (po_entries p)). \<not> req_verify (po_entries p ! i))"

lemma drained_end:
  assumes "wf_positions p" and "drained p cursor" and "length (po_entries p) \<le> cursor"
  shows "po_pending_checks p = 0"
  using assms by (auto simp: wf_positions_def drained_def filter_empty_conv in_set_conv_nth)

lemma take_pending_check_step:
  assumes "wf_positions p" and "drained p cursor" and "take_pending_check p cursor = (p', cursor', found)"
  shows "wf_positions p' \<and> drained p' cursor' \<and> po_work p' = po_work p \<and>
    (case found of
       None \<Rightarrow> p' = p \<and> po_pending_checks p = 0
     | Some r \<Rightarrow> po_pending_checks p = Suc (po_pending_checks p') \<and> req_verify r \<and> \<not> req_write r
         \<and> (\<exists>i. cursor' = Suc i \<and> cursor \<le> i \<and> i < length (po_entries p) \<and> req_verify (po_entries p ! i)
             \<and> po_entries p' = (po_entries p)[i := (po_entries p ! i)\<lparr>req_verify := False\<rparr>]
             \<and> r = shifted p ((po_entries p ! i)\<lparr>req_write := False, req_verify := True\<rparr>) (po_pass p)))"
  using assms
proof (induction p cursor rule: take_pending_check.induct)
  case (1 p cursor)
  show ?case
  proof (cases "0 < po_pending_checks p \<and> cursor < length (po_entries p)")
    case False
    then have "p' = p" "cursor' = cursor" "found = None" using 1(4) by (auto simp: take_pending_check.simps)
    then show ?thesis using False 1(2,3) drained_end [OF 1(2,3)] by (auto simp: not_less)
  next
    case True
    let ?r = "po_entries p ! cursor"
    show ?thesis
    proof (cases "req_verify ?r")
      case rv: True
      then have eq: "p' = p\<lparr>po_entries := (po_entries p)[cursor := ?r\<lparr>req_verify := False\<rparr>],
            po_pending_checks := po_pending_checks p - 1\<rparr>" "cursor' = cursor + 1"
          "found = Some (shifted p (?r\<lparr>req_write := False, req_verify := True\<rparr>) (po_pass p))"
        using True 1(4) by (auto simp: take_pending_check.simps [of p] Let_def)
      have "wf_positions p'" unfolding eq(1)
        using True rv by (intro wf_positions_update [OF 1(2)]) auto
      moreover have "drained p' cursor'" using 1(3) True by (auto simp: drained_def eq nth_list_update less_Suc_eq)
      ultimately show ?thesis using True rv eq by (auto simp: shifted_def Let_def)
    next
      case rv: False
      then have "drained p (cursor + 1)" using 1(3) by (auto simp: drained_def less_Suc_eq)
      from 1(1) [OF True refl rv 1(2) this] 1(4) True rv show ?thesis
        by (simp add: take_pending_check.simps [of p cursor] Let_def split: option.splits) auto
    qed
  qed
qed

section \<open>Properties\<close>

text \<open>
  C20: a table built for an accepted workload exists and lies in the worker's range. When the largest
  block fits the range and the table may hold an entry, \<open>positions_new\<close> does not fail, and every entry
  is block-aligned from the start of the range, has a size the workload allows and ends inside it.
\<close>

theorem positions_new_in_range:
  assumes "parse_workload s = Inr w" and "lo + wl_max_block w \<le> hi" and "0 < capacity"
  shows "\<exists>p. positions_new w lo hi seed capacity [] = Inr p \<and> wf_positions p \<and> po_work p = w
    \<and> po_lo p = lo \<and> po_hi p = hi \<and> po_pending_checks p = 0"
  using positions_new_wf [of w lo hi capacity "[]" seed] parse_workload_wf [OF assms(1)] assms
  by (auto simp: fits_def wf_workload_def)

lemma parse_w: "\<exists>w. parse_workload ''w'' = Inr w \<and> wl_max_block w = 4096"
  by (simp add: workload_eval)

theorem positions_new_in_range_witness:
  "\<exists>w p. parse_workload ''w'' = Inr w \<and> positions_new w 4096 65536 7 16 [] = Inr p \<and> wf_positions p"
  using parse_w positions_new_in_range [of "''w''" _ 4096 65536 16 7] by fastforce

text \<open>
  C16: reading the table keeps it and stays in range. For any operation index, across pass changes,
  reshuffles, alternation and per-pass shifts, \<open>positions_get\<close> returns a request inside the range, of an
  allowed size and alignment, and the table keeps its entries up to order.
\<close>

theorem positions_get_in_range:
  assumes "wf_positions p" and "wl_unique_verify (po_work p) \<longrightarrow> wl_verify (po_work p)"
    and "positions_get p index = (p', r)"
  shows "wf_positions p' \<and> mset (po_entries p') = mset (po_entries p) \<and> po_work p' = po_work p
    \<and> po_lo p \<le> req_offset r \<and> req_offset r + req_len r \<le> po_hi p
    \<and> wl_block (po_work p) dvd req_offset r - po_lo p
    \<and> wl_block (po_work p) \<le> req_len r \<and> req_len r \<le> wl_max_block (po_work p)"
  using positions_get_wf [OF assms] by (simp add: good_entry_def)

definition example_table :: positions where
  "example_table = \<lparr>po_entries =
       map (\<lambda>i. request_default\<lparr>req_offset := 4096 * i, req_len := 4096, req_write := True,
                req_verify := i = 1\<rparr>) [1, 2, 3, 4, 5],
     po_rng = 7, po_pass = 0, po_lo = 4096, po_hi = 24576,
     po_work = workload_default\<lparr>wl_verify := True, wl_shift := True, wl_sequential := 2\<rparr>,
     po_pending_checks = 1\<rparr>"

lemma example_table_simps:
  "length (po_entries example_table) = 5" "po_entries example_table \<noteq> []"
  "wl_verify (po_work example_table)" "\<not> wl_unique_verify (po_work example_table)"
  by (simp_all add: example_table_def workload_default_def)

lemma example_table_wf: "wf_positions example_table"
  by (simp add: example_table_def wf_positions_def good_entry_def fits_def request_default_def workload_default_def)

theorem positions_get_in_range_witness:
  "4096 \<le> req_offset (snd (positions_get example_table 13))
   \<and> req_offset (snd (positions_get example_table 13)) + req_len (snd (positions_get example_table 13)) \<le> 24576"
  using positions_get_in_range [OF example_table_wf, of 13 "fst (positions_get example_table 13)"
      "snd (positions_get example_table 13)"]
  by (simp add: example_table_def workload_default_def)

text \<open>
  C19: one pass visits everything exactly once. For every stripe count and direction, the operation
  indices of a pass are in bijection with the table's entries, each once to write or read and, under
  verification, once more to check.
\<close>

theorem pass_visits_once:
  assumes "po_entries p \<noteq> []" and "wl_unique_verify (po_work p) \<longrightarrow> wl_verify (po_work p)"
  shows "bij_betw (mapped p) {k * positions_len p..<(k + 1) * positions_len p}
    ({..<length (po_entries p)} \<times> (if wl_verify (po_work p) then {False, True} else {False}))"
  using mapped_pass_bij [OF assms, of k] by (simp add: visits_def)

theorem pass_visits_once_witness:
  "bij_betw (mapped example_table) {0..<10} ({..<5} \<times> {False, True})"
  using pass_visits_once [of example_table 0] by (simp add: example_table_simps positions_len_def)

text \<open>
  C17: the counter of owed checks never drifts. \<open>written\<close> marks the entry, \<open>checked\<close> clears it, and after
  either the counter is the number of marked entries.
\<close>

theorem owed_checks_counted:
  assumes "wf_positions p" and "wl_unique_verify (po_work p) \<longrightarrow> wl_verify (po_work p)"
  shows "wf_positions (written p index) \<and> wf_positions (checked p index)
    \<and> req_verify (po_entries (written p index) ! fst (mapped p index))
    \<and> \<not> req_verify (po_entries (checked p index) ! fst (mapped p index))
    \<and> po_pending_checks (written p index) = length (filter req_verify (po_entries (written p index)))
    \<and> po_pending_checks (checked p index) = length (filter req_verify (po_entries (checked p index)))"
  using written_wf [OF assms, of index] checked_wf [OF assms, of index] by (simp add: wf_positions_def)

theorem owed_checks_counted_witness:
  "po_pending_checks (written example_table 0)
     = length (filter req_verify (po_entries (written example_table 0)))"
  using owed_checks_counted [OF example_table_wf, of 0]
  by (simp add: example_table_def workload_default_def)

text \<open>
  the drain of owed checks is complete. Starting where nothing before the cursor is owed, one call
  either reports None, and then no check is owed anywhere, or hands out a read of a marked entry, clears
  that mark alone and counts it down.
\<close>

theorem drain_owed_checks:
  assumes "wf_positions p" and "drained p cursor" and "take_pending_check p cursor = (p', cursor', found)"
  shows "wf_positions p' \<and> drained p' cursor' \<and>
    (case found of
       None \<Rightarrow> p' = p \<and> (\<forall>r\<in>set (po_entries p). \<not> req_verify r)
     | Some r \<Rightarrow> po_pending_checks p = Suc (po_pending_checks p') \<and> req_verify r \<and> \<not> req_write r
         \<and> (\<exists>i. cursor' = Suc i \<and> cursor \<le> i \<and> i < length (po_entries p) \<and> req_verify (po_entries p ! i)
             \<and> po_entries p' = (po_entries p)[i := (po_entries p ! i)\<lparr>req_verify := False\<rparr>]
             \<and> r = shifted p ((po_entries p ! i)\<lparr>req_write := False, req_verify := True\<rparr>) (po_pass p)))"
  using take_pending_check_step [OF assms] assms(1)
  by (auto simp: wf_positions_def filter_empty_conv split: option.splits)

theorem drain_owed_checks_witness:
  "\<exists>p' cursor' r. take_pending_check example_table 0 = (p', cursor', Some r) \<and> po_pending_checks p' = 0"
proof -
  obtain p' cursor' found where t: "take_pending_check example_table 0 = (p', cursor', found)"
    by (metis prod_cases3)
  have "drained example_table 0" by (simp add: drained_def)
  from drain_owed_checks [OF example_table_wf this t] t show ?thesis
    by (cases found) (auto simp: example_table_def)
qed

end
