(* ===== verification/Engine_Plan.thy ===== *)
theory Engine_Plan
  imports Positions
begin

unbundle bit_operations_syntax

text \<open>
  The part of \<open>src/rust/src/engine.rs\<close> that runs before and around the timed loop: the targets and jobs
  of a configuration, a worker's byte range, the positions file, the memory budget and the checks that
  reject a job before anything is opened, and the payload a slot's buffer gets. Offsets and sizes are
  natural numbers with every \<open>u64\<close> bound the code checks written out; a product the code does not check
  is \<open>Inl Panic\<close> past \<open>2^64\<close>. \<open>size_of::<Request>()\<close> is 24 on the 64-bit targets.
\<close>

section \<open>Configuration, targets and jobs\<close>

record config =
  cf_jobs :: "workload list"
  cf_files :: "string list"
  cf_prefixes :: "string list"
  cf_range :: "(nat \<times> nat) option"
  cf_memory :: nat
  cf_seed :: u64
  cf_backend :: backend

record 'p target =
  tg_path :: string
  tg_jobs :: "(workload \<times> nat) list"
  tg_paths :: "'p list"

definition config_jobs :: "config \<Rightarrow> (workload \<times> nat) list" where
  "config_jobs c = concat (map (\<lambda>w. map (\<lambda>index. (w, index)) [0..<wl_workers w]) (cf_jobs c))"

text \<open>\<open>{sequence:04}\<close>.\<close>

definition pad4 :: "nat \<Rightarrow> string" where
  "pad4 n = replicate (4 - length (show_nat n)) (CHR ''0'') @ show_nat n"

definition prefix_targets :: "(workload \<times> nat) list \<Rightarrow> string list \<Rightarrow> 'p target list" where
  "prefix_targets jobs prefixes =
     map (\<lambda>(i, (prefix, job)). \<lparr>tg_path = prefix @ ''.'' @ pad4 (i + 1), tg_jobs = [job], tg_paths = []\<rparr>)
       (enumerate 0 (concat (map (\<lambda>prefix. map (Pair prefix) jobs) prefixes)))"

definition target_specs :: "config \<Rightarrow> 'p list \<Rightarrow> 'p target list" where
  "target_specs c paths =
     (if paths \<noteq> [] then [\<lparr>tg_path = ''paths'', tg_jobs = config_jobs c, tg_paths = paths\<rparr>]
      else map (\<lambda>path. \<lparr>tg_path = path, tg_jobs = config_jobs c, tg_paths = []\<rparr>) (cf_files c)
           @ prefix_targets (config_jobs c) (cf_prefixes c))"

definition work_duration :: "workload \<Rightarrow> rat option \<Rightarrow> rat option" where
  "work_duration w fallback =
     (if wl_passes w \<noteq> None \<or> wl_range_passes w \<noteq> None then None
      else case wl_duration w of Some d \<Rightarrow> Some d | None \<Rightarrow> fallback)"

section \<open>A worker's range\<close>

definition mul_u64 :: "nat \<Rightarrow> nat \<Rightarrow> nat result" where
  "mul_u64 a b = (if a * b < 2 ^ 64 then Inr (a * b) else Inl Panic)"

definition worker_range :: "workload \<Rightarrow> nat \<Rightarrow> nat \<Rightarrow> nat \<Rightarrow> bool \<Rightarrow> (nat \<times> nat) result" where
  "worker_range w index target_lo target_hi imported =
     (let (lo, hi) = (case wl_range w of Some r \<Rightarrow> r | None \<Rightarrow> (target_lo, target_hi))
      in if lo < target_lo \<or> target_hi < hi \<or> hi \<le> lo
         then Inl (Err ''workload range outside target range'')
         else if imported \<or> wl_shared_range w \<and> \<not> wl_split_range w then Inr (lo, hi)
         else if wl_block w = 0 \<or> wl_workers w = 0 then Inl Panic
         else let blocks = (hi - lo) div wl_block w
              in and_then (mul_u64 blocks index) (\<lambda>a. and_then (mul_u64 blocks (index + 1)) (\<lambda>b.
                   Inr (lo + a div wl_workers w * wl_block w, lo + b div wl_workers w * wl_block w))))"

section \<open>Write-verify offsets and the positions file\<close>

definition xorshift :: "u64 \<Rightarrow> u64" where
  "xorshift s =
     (let s = s XOR push_bit 13 s; s = s XOR drop_bit 7 s in s XOR push_bit 17 s)"

text \<open>\<open>write_verify_index\<close>: the new count, the new state and the block index.\<close>

definition write_verify_index :: "workload \<Rightarrow> nat \<Rightarrow> nat \<Rightarrow> u64 \<Rightarrow> nat \<times> u64 \<times> nat" where
  "write_verify_index w blocks n state =
     (if 1 \<le> wl_sequential w then (n + 1, state, n mod blocks)
      else let state = xorshift state in (n + 1, state, unat state mod blocks))"

text \<open>The lines \<open>write_verify_positions\<close> writes: \<open>n\<close> pairs from the \<open>i\<close>-th on.\<close>

definition position_line :: "nat \<Rightarrow> char \<Rightarrow> nat \<Rightarrow> string" where
  "position_line offset kind len = show_nat offset @ '' '' @ [kind] @ '' '' @ show_nat len"

fun pair_lines :: "workload \<Rightarrow> nat \<Rightarrow> nat \<Rightarrow> nat \<Rightarrow> nat \<Rightarrow> u64 \<Rightarrow> string list" where
  "pair_lines w lo blocks 0 i state = []"
| "pair_lines w lo blocks (Suc n) i state =
     (let (state, index) = (if 1 \<le> wl_sequential w then (state, i mod blocks)
                            else let s = xorshift state in (s, unat s mod blocks));
          offset = lo + index * wl_block w
      in position_line offset (CHR ''W'') (wl_block w)
         # position_line offset (CHR ''R'') (wl_block w)
         # pair_lines w lo blocks n (i + 1) state)"

text \<open>None when no job is a write-verify one: the file stays as it is.\<close>

definition write_verify_positions :: "config \<Rightarrow> string list option result" where
  "write_verify_positions c =
     (case find wl_write_verify (cf_jobs c) of
        None \<Rightarrow> Inr None
      | Some w \<Rightarrow>
          and_then (ok_or (cf_range c) ''s0v with -S needs -G SIZE to set the range the pairs cover'')
            (\<lambda>(lo, hi).
               if wl_block w = 0 then Inl Panic
               else let blocks = (hi - lo) div wl_block w
                    in if blocks = 0 then Inl (Err ''range is smaller than one block'')
                       else Inr (Some (pair_lines w lo blocks
                              (case wl_positions w of Some n \<Rightarrow> n | None \<Rightarrow> blocks) 0 (max (cf_seed c) 1)))))"

definition is_whitespace :: "char \<Rightarrow> bool" where
  "is_whitespace c \<longleftrightarrow> (of_char c :: nat) \<in> {9, 10, 11, 12, 13, 32, 0x85, 0xA0}"

definition split_whitespace :: "string \<Rightarrow> string list" where
  "split_whitespace s = filter (\<lambda>t. t \<noteq> []) (split_on is_whitespace s)"

text \<open>One line of the file, as the loop of \<open>loaded\<close> reads it.\<close>

definition position_record :: "string \<Rightarrow> request result" where
  "position_record line =
     (let words = split_whitespace line
      in and_then (ok_or (get words 0) ''missing position'') (\<lambda>t.
         and_then (ok_or (parse_uint 64 t) ''invalid position'') (\<lambda>offset.
         and_then (if get words 1 = Some ''R'' then Inr False
                   else if get words 1 = Some ''W'' then Inr True
                   else Inl (Err ''positions require R or W'')) (\<lambda>write.
         and_then (ok_or (get words 2) ''missing length'') (\<lambda>t.
         and_then (ok_or (parse_uint 64 t) ''invalid length'') (\<lambda>len.
           if get words 3 \<noteq> None \<or> len = 0 \<or> 64 * 1024 * 1024 < len \<or> 2 ^ 63 - 1 < offset
              \<or> 2 ^ 64 \<le> offset + len
           then Inl (Err ''invalid position record'')
           else Inr (request_default\<lparr>req_offset := offset, req_len := len, req_write := write\<rparr>)))))))"

definition request_size :: nat where
  "request_size = 24"

fun load_lines :: "nat \<Rightarrow> nat \<Rightarrow> string list \<Rightarrow> request list result" where
  "load_lines memory n [] = Inr []"
| "load_lines memory n (line # lines) =
     and_then (position_record line) (\<lambda>r.
       if memory div 2 < (n + 1) * request_size then Inl (Err ''positions exceed memory budget'')
       else and_then (load_lines memory (n + 1) lines) (\<lambda>rs. Inr (r # rs)))"

text \<open>The bytes of the lines \<open>writeln!\<close> wrote.\<close>

definition file_size :: "string list \<Rightarrow> nat" where
  "file_size lines = sum_list (map (\<lambda>line. length line + 1) lines)"

text \<open>
  \<open>loaded\<close>: \<open>file\<close> is the length of the positions file and its lines, None without \<open>-S\<close>. A write-verify job
  rewrites the file first.
\<close>

definition loaded :: "config \<Rightarrow> (nat \<times> string list) option \<Rightarrow> request list result" where
  "loaded c file =
     (case file of
        None \<Rightarrow> Inr []
      | Some (len, lines) \<Rightarrow>
          and_then (write_verify_positions c) (\<lambda>pairs.
            let (len, lines) = (case pairs of Some p \<Rightarrow> (file_size p, p) | None \<Rightarrow> (len, lines))
            in if cf_memory c div 4 < len
               then Inl (Err ''positions input exceeds memory budget'')
               else and_then (load_lines (cf_memory c) 0 lines) (\<lambda>rs.
                      if rs = [] then Inl (Err ''empty position file'') else Inr rs)))"

section \<open>The memory budget\<close>

text \<open>\<open>memory.rs\<close>: the default budget from the memory the platform reports, and the error.\<close>

definition mib :: nat where
  "mib = 1024 * 1024"

definition gib :: nat where
  "gib = 1024 * mib"

definition memory_default :: "nat option \<Rightarrow> nat" where
  "memory_default available =
     (case available of None \<Rightarrow> 512 * mib | Some bytes \<Rightarrow> min (bytes div 2) (64 * gib))"

definition div_ceil :: "nat \<Rightarrow> nat \<Rightarrow> nat" where
  "div_ceil n d = (n + d - 1) div d"

definition memory_error :: "nat \<Rightarrow> nat \<Rightarrow> string \<Rightarrow> error" where
  "memory_error required permitted reason =
     (let (amount, unit) = (if gib \<le> required then (div_ceil required gib, ''GiB'')
                            else (max (div_ceil required mib) 1, ''MiB''))
      in Err (reason @ '' need '' @ show_nat required @ '' bytes; --memory permits ''
           @ show_nat permitted @ ''. To keep these block/queue/worker settings, try --memory ''
           @ show_nat amount @ unit @ '' (or reduce q, j or block size)''))"

text \<open>\<open>(n + 4095) & !4095\<close>.\<close>

definition page_up :: "nat \<Rightarrow> nat" where
  "page_up n = (n + 4095) div 4096 * 4096"

definition checked_u64 :: "nat \<Rightarrow> nat option" where
  "checked_u64 n = (if n < 2 ^ 64 then Some n else None)"

definition slot_bytes :: "workload \<Rightarrow> nat \<Rightarrow> nat" where
  "slot_bytes w max_loaded = page_up (max (wl_max_block w) max_loaded) + 128"

fun pool_total :: "nat \<Rightarrow> nat \<Rightarrow> (workload \<times> nat) list \<Rightarrow> nat option" where
  "pool_total max_loaded acc [] = Some acc"
| "pool_total max_loaded acc ((w, _) # jobs) =
     Option.bind (checked_u64 (slot_bytes w max_loaded * wl_depth w)) (\<lambda>b.
       Option.bind (checked_u64 (acc + b)) (\<lambda>t. pool_total max_loaded t jobs))"

record budget =
  bu_pool_bytes :: nat
  bu_worker_count :: nat

definition max_len :: "request list \<Rightarrow> nat" where
  "max_len rs = foldr (\<lambda>r m. max (req_len r) m) rs 0"

definition memory_budget :: "config \<Rightarrow> 'p target list \<Rightarrow> request list \<Rightarrow> budget result" where
  "memory_budget c specs records =
     (let worker_count = sum_list (map (\<lambda>t. length (tg_jobs t)) specs)
      in and_then (ok_or (Option.bind (pool_total (max_len records) 0 (concat (map tg_jobs specs))) (\<lambda>v.
                      checked_u64 (v + length records * request_size))) ''memory budget overflow'')
           (\<lambda>pool_bytes.
              let minimum = min (pool_bytes + worker_count * request_size) (2 ^ 64 - 1)
              in if cf_memory c < minimum
                 then Inl (memory_error minimum (cf_memory c) ''I/O pools and minimum position tables'')
                 else Inr \<lparr>bu_pool_bytes = pool_bytes, bu_worker_count = worker_count\<rparr>))"

definition table_capacity :: "config \<Rightarrow> budget \<Rightarrow> nat \<Rightarrow> nat result" where
  "table_capacity c b record_count =
     (if cf_memory c < bu_pool_bytes b \<or> bu_worker_count b = 0 then Inl Panic
      else let capacity = (cf_memory c - bu_pool_bytes b) div bu_worker_count b div request_size
           in if capacity = 0 then Inl (Err ''no memory left for fixed position tables'')
              else if capacity < record_count
                \<or> list_ex (\<lambda>w. case wl_positions w of Some n \<Rightarrow> capacity < n | None \<Rightarrow> False) (cf_jobs c)
              then Inl (Err ''requested positions exceed fixed memory budget'')
              else Inr capacity)"

section \<open>Rejecting a job\<close>

definition check_precondition :: "workload \<Rightarrow> nat \<Rightarrow> nat \<Rightarrow> nat \<Rightarrow> backend \<Rightarrow> unit result" where
  "check_precondition pre lo hi memory backend =
     and_then (worker_range pre 0 lo hi False) (\<lambda>(start, stop).
       if wl_workers pre \<noteq> 1 \<or> stop - start < wl_max_block pre
          \<or> backend \<noteq> Pagecache \<and> (start mod 512 \<noteq> 0 \<or> wl_block pre mod 512 \<noteq> 0 \<or> wl_max_block pre mod 512 \<noteq> 0)
       then Inl (Err ''invalid preconditioning block/range'')
       else and_then (ok_or (checked_u64 (slot_bytes pre 0 * wl_depth pre)) ''preconditioning memory overflow'')
         (\<lambda>required. if memory < required + request_size
            then Inl (Err ''preconditioning exceeds memory budget'') else Inr ()))"





section \<open>Payloads\<close>

definition payload_seed :: "workload \<Rightarrow> u64 \<Rightarrow> request \<Rightarrow> u64" where
  "payload_seed w seed r = (if wl_unique w then ucast (req_seed r) else seed)"

definition write_pattern :: "u8 list \<Rightarrow> request \<Rightarrow> workload \<Rightarrow> u64 \<Rightarrow> bool \<Rightarrow> u8 list \<Rightarrow> u8 list" where
  "write_pattern buffer r w seed reusable template =
     (let seed = payload_seed w seed r
      in if reusable then stamp buffer (of_nat (req_offset r)) seed
         else if wl_unique w then fill buffer (of_nat (req_offset r)) seed
         else fill_cached buffer (of_nat (req_offset r)) seed template)"

definition check_pattern :: "u8 list \<Rightarrow> request \<Rightarrow> workload \<Rightarrow> u64 \<Rightarrow> u8 list \<Rightarrow> bool" where
  "check_pattern buffer r w seed template =
     (if wl_unique w then matches buffer (of_nat (req_offset r)) (ucast (req_seed r))
      else matches_cached buffer (of_nat (req_offset r)) seed template)"

text \<open>The payload decision and the limits of \<open>Run::prepare\<close>.\<close>

definition reusable_payload :: "workload \<Rightarrow> nat \<Rightarrow> request list \<Rightarrow> bool" where
  "reusable_payload w lo records \<longleftrightarrow>
     \<not> wl_alternate w \<and> \<not> wl_unique w \<and> wl_block w = wl_max_block w \<and> records = []
     \<and> wl_read_probability w = 0 \<and> wl_block w mod 4096 = 0 \<and> lo mod 4096 = 0"

definition operation_limit :: "workload \<Rightarrow> nat \<Rightarrow> nat option" where
  "operation_limit w len =
     (case (Option.bind (wl_passes w) (\<lambda>n. checked_u64 (n * len)), wl_operation_limit w) of
        (Some a, Some b) \<Rightarrow> Some (min a b)
      | (Some a, None) \<Rightarrow> Some a
      | (None, b) \<Rightarrow> b)"

definition byte_limit :: "workload \<Rightarrow> nat \<Rightarrow> nat \<Rightarrow> nat option" where
  "byte_limit w lo hi = map_option (\<lambda>n. n * (hi - lo)) (wl_range_passes w)"

section \<open>Lemmas\<close>


lemma checked_u64_Some: "checked_u64 n = Some m \<longleftrightarrow> n < 2 ^ 64 \<and> m = n"
  by (auto simp: checked_u64_def)


lemma worker_range_split:
  assumes "\<not> wl_shared_range w \<or> wl_split_range w" and "0 < wl_block w"
    and "(case wl_range w of Some r \<Rightarrow> r | None \<Rightarrow> (target_lo, target_hi)) = (lo, hi)"
    and "target_lo \<le> lo" "hi \<le> target_hi" "lo < hi"
    and "(hi - lo) div wl_block w * wl_workers w < 2 ^ 64" and "index < wl_workers w"
  shows "worker_range w index target_lo target_hi False =
     Inr (lo + (hi - lo) div wl_block w * index div wl_workers w * wl_block w,
          lo + (hi - lo) div wl_block w * (index + 1) div wl_workers w * wl_block w)"
proof -
  let ?n = "(hi - lo) div wl_block w"
  have "?n * (index + 1) \<le> ?n * wl_workers w" using assms(8) by (intro mult_le_mono2) simp
  then have "mul_u64 ?n (index + 1) = Inr (?n * (index + 1))" "mul_u64 ?n index = Inr (?n * index)"
    using assms(7) unfolding mul_u64_def by auto
  then show ?thesis using assms by (auto simp: worker_range_def Let_def)
qed


text \<open>Requests inside a byte range whose borders are multiples of \<open>a\<close>.\<close>

definition in_range :: "nat \<Rightarrow> nat \<Rightarrow> nat \<Rightarrow> request \<Rightarrow> bool" where
  "in_range a lo hi r \<longleftrightarrow> lo \<le> req_offset r \<and> req_offset r + req_len r \<le> hi \<and> a dvd req_offset r \<and> a dvd req_len r"


lemma within_update [simp]:
  "in_range a lo hi (r\<lparr>req_write := b\<rparr>) = in_range a lo hi r"
  "in_range a lo hi (r\<lparr>req_verify := b\<rparr>) = in_range a lo hi r"
  by (simp_all add: in_range_def)












section \<open>The budget\<close>

lemma pool_total_Some:
  "pool_total m t jobs = Some v \<Longrightarrow> v = t + sum_list (map (\<lambda>(w, _). slot_bytes w m * wl_depth w) jobs)"
proof (induction jobs arbitrary: t)
  case (Cons job jobs)
  obtain w k where job: "job = (w, k)" by fastforce
  from Cons.prems have "pool_total m (t + slot_bytes w m * wl_depth w) jobs = Some v"
    by (simp add: job bind_eq_Some_conv checked_u64_Some)
  from Cons.IH [OF this] show ?case by (simp add: job)
qed simp

section \<open>The positions file\<close>

lemma digit_not_whitespace: "is_digit c \<Longrightarrow> \<not> is_whitespace c"
  by (auto simp: is_digit_def is_whitespace_def)

lemma show_nat_no_whitespace: "list_all (\<lambda>c. \<not> is_whitespace c) (show_nat n)"
  using show_nat_digits [of n] by (auto simp: list_all_iff digit_not_whitespace)

lemma split_position_line:
  assumes "\<not> is_whitespace k"
  shows "split_whitespace (position_line offset k len) = [show_nat offset, [k], show_nat len]"
proof -
  have sp: "is_whitespace CHR '' ''" by (simp add: is_whitespace_def)
  have "split_on is_whitespace (show_nat offset @ CHR '' '' # ([k] @ CHR '' '' # show_nat len))
      = [show_nat offset, [k], show_nat len]"
    unfolding split_on_append [OF show_nat_no_whitespace sp]
    using split_on_append [of is_whitespace "[k]", OF _ sp] split_on_none [OF show_nat_no_whitespace, of len] assms
    by simp
  then show ?thesis by (simp add: split_whitespace_def position_line_def)
qed

lemma position_record_line:
  assumes "offset < 2 ^ 63" and "0 < len" and "len \<le> 64 * 1024 * 1024" and "k \<in> {CHR ''W'', CHR ''R''}"
  shows "position_record (position_line offset k len)
    = Inr (request_default\<lparr>req_offset := offset, req_len := len, req_write := k = CHR ''W''\<rparr>)"
proof -
  have "\<not> is_whitespace k" using assms(4) by (auto simp: is_whitespace_def)
  note words = split_position_line [OF this, of offset len]
  have "parse_uint 64 (show_nat offset) = Some offset" "parse_uint 64 (show_nat len) = Some len"
    using assms by (auto intro!: parse_uint_show_nat)
  then show ?thesis using assms by (auto simp: position_record_def words get_def Let_def)
qed

text \<open>The requests the pairs stand for.\<close>

fun pair_requests :: "workload \<Rightarrow> nat \<Rightarrow> nat \<Rightarrow> nat \<Rightarrow> nat \<Rightarrow> u64 \<Rightarrow> request list" where
  "pair_requests w lo blocks 0 i state = []"
| "pair_requests w lo blocks (Suc n) i state =
     (let (i', state', index) = write_verify_index w blocks i state;
          write = request_default\<lparr>req_offset := lo + index * wl_block w, req_len := wl_block w, req_write := True\<rparr>
      in write # write\<lparr>req_write := False\<rparr> # pair_requests w lo blocks n i' state')"

lemma load_lines_valid:
  "list_all2 (\<lambda>line r. position_record line = Inr r) lines rs \<Longrightarrow>
   load_lines memory k lines = (if lines \<noteq> [] \<and> memory div 2 < (k + length lines) * request_size
     then Inl (Err ''positions exceed memory budget'') else Inr rs)"
proof (induction arbitrary: k rule: list_all2_induct)
  case (Cons line lines r rs)
  show ?case
  proof (cases "memory div 2 < (k + 1) * request_size")
    case True
    then have "memory div 2 < (k + length (line # lines)) * request_size" by (simp add: request_size_def)
    then show ?thesis using Cons True by simp
  next
    case False
    then have "load_lines memory k (line # lines) = and_then (load_lines memory (k + 1) lines) (\<lambda>rs. Inr (r # rs))"
      using Cons.hyps by simp
    then show ?thesis using False unfolding Cons.IH [of "k + 1"] by (cases lines) (simp_all add: request_size_def)
  qed
qed simp

lemma pair_lines_Suc:
  "pair_lines w lo blocks (Suc n) i state =
     (let (i', state', index) = write_verify_index w blocks i state; offset = lo + index * wl_block w
      in position_line offset (CHR ''W'') (wl_block w) # position_line offset (CHR ''R'') (wl_block w)
         # pair_lines w lo blocks n i' state')"
  by (simp add: write_verify_index_def Let_def)

lemma pair_lines_valid:
  assumes "0 < blocks" and "lo + blocks * wl_block w < 2 ^ 63" and "0 < wl_block w" "wl_block w \<le> 64 * 1024 * 1024"
  shows "list_all2 (\<lambda>line r. position_record line = Inr r) (pair_lines w lo blocks n i state)
    (pair_requests w lo blocks n i state)"
proof (induction n arbitrary: i state)
  case (Suc n)
  obtain i' st idx where v: "write_verify_index w blocks i state = (i', st, idx)" by (metis prod_cases3)
  then have "idx < blocks" using assms(1) by (auto simp: write_verify_index_def Let_def split: if_splits)
  then have "idx * wl_block w \<le> blocks * wl_block w" by simp
  then have "lo + idx * wl_block w < 2 ^ 63" using assms(2) by linarith
  note rec = position_record_line [OF this assms(3,4)]
  show ?case using Suc v unfolding pair_lines_Suc by (simp add: rec Let_def del: pair_lines.simps)
qed simp

lemma length_pair_lines [simp]: "length (pair_lines w lo blocks n i state) = 2 * n"
  by (induction n arbitrary: i state) (simp_all add: Let_def split: prod.splits)

lemma pair_requests_empty: "pair_requests w lo blocks n i state = [] \<longleftrightarrow> n = 0"
  by (cases n) (auto simp: Let_def split: prod.splits)

text \<open>A block beyond the limit of the loader: its first line is refused.\<close>

lemma position_record_long:
  assumes "offset < 2 ^ 64" and "64 * 1024 * 1024 < len" "len < 2 ^ 64" and "k \<in> {CHR ''W'', CHR ''R''}"
  shows "position_record (position_line offset k len) = Inl (Err ''invalid position record'')"
proof -
  have "\<not> is_whitespace k" using assms(4) by (auto simp: is_whitespace_def)
  note words = split_position_line [OF this, of offset len]
  have "parse_uint 64 (show_nat offset) = Some offset" "parse_uint 64 (show_nat len) = Some len"
    using assms by (auto intro!: parse_uint_show_nat)
  then show ?thesis using assms by (auto simp: position_record_def words get_def Let_def)
qed

lemma load_lines_long:
  assumes "0 < blocks" and "lo + blocks * wl_block w < 2 ^ 63" and "64 * 1024 * 1024 < wl_block w"
    and "0 < n"
  shows "load_lines memory k (pair_lines w lo blocks n i state) = Inl (Err ''invalid position record'')"
proof -
  obtain m where n: "n = Suc m" using assms(4) by (cases n) auto
  obtain i' st idx where v: "write_verify_index w blocks i state = (i', st, idx)" by (metis prod_cases3)
  then have "idx < blocks" using assms(1) by (auto simp: write_verify_index_def Let_def split: if_splits)
  then have "idx * wl_block w \<le> blocks * wl_block w" "wl_block w \<le> blocks * wl_block w" by simp_all
  moreover have "lo + blocks * wl_block w < 2 ^ 64" using assms(2) by simp
  ultimately have "lo + idx * wl_block w < 2 ^ 64" and "wl_block w < 2 ^ 64" by linarith+
  from position_record_long [OF this(1) assms(3) this(2)] show ?thesis
    using v unfolding n pair_lines_Suc by (simp add: Let_def)
qed

section \<open>Payloads\<close>

lemma stamp_payload:
  assumes off: "unat offset mod 4096 = 0" and old: "unat old mod 4096 = 0"
  shows "stamp (fill buf old seed) offset seed = fill buf offset seed"
proof (rule nth_equalityI)
  have o: "unat offset mod 512 = 0" using off mod_mod_cancel [of 512 4096 "unat offset"] by simp
  fix j assume "j < length (stamp (fill buf old seed) offset seed)"
  then have j: "j < length buf" by simp
  show "stamp (fill buf old seed) offset seed ! j = fill buf offset seed ! j"
  proof (cases "j mod 512 < 8")
    case True
    then show ?thesis using j nth_stamp [of j "fill buf old seed"] byte_at_stamp [OF o True]
      by (simp add: nth_fill)
  next
    case False
    have m: "unat (a + of_nat j) mod 4096 = j mod 4096" if "unat a mod 4096 = 0" for a :: u64
      using that by (simp add: unat_plus_mod_numeral mod_add_eq [symmetric])
    have "unat (old + of_nat j) mod 512 = j mod 512"
      using m [OF old] mod_mod_cancel [of 512 4096 j] mod_mod_cancel [of 512 4096 "unat (old + of_nat j)"] by simp
    then have "byte_at seed (old + of_nat j) = byte_at seed (offset + of_nat j)"
      using False m [OF old] m [OF off] by (intro byte_at_interior) simp_all
    then show ?thesis using j False nth_stamp [of j "fill buf old seed"] by (simp add: nth_fill)
  qed
qed simp

lemma check_pattern_iff:
  assumes "template = fill (replicate 4096 0) 0 seed"
  shows "check_pattern buffer r w seed template \<longleftrightarrow>
    buffer = fill buffer (of_nat (req_offset r)) (payload_seed w seed r)"
  using matches_cached_eq_matches [of template seed] assms
  by (simp add: check_pattern_def payload_seed_def matches_iff_fill is_template_def)

lemma fill_fill [simp]: "fill (fill buf a s) b t = fill buf b t"
  by (simp add: fill_byte_at)

section \<open>Properties\<close>

text \<open>
  C24: how the workers of a job share its range. With the requests imported from a positions file, and for
  workers that share one range (\<open>J\<close>) without splitting it, every worker gets the whole range. Otherwise the
  ranges of workers \<open>0, 1, ..., workers - 1\<close> are consecutive pieces, cut at multiples of the block, that
  start at the beginning of the range and cover every whole block of it. The range lies in the target's,
  ends below 2^63, and blocks below 512 bytes need a range below 2^54 bytes.
\<close>

theorem worker_ranges_partition:
  assumes "wf_workload w"
    and "(case wl_range w of Some r \<Rightarrow> r | None \<Rightarrow> (target_lo, target_hi)) = (lo, hi)"
    and "target_lo \<le> lo" "hi \<le> target_hi" "lo < hi"
    and "hi < 2 ^ 63" and "hi - lo < 2 ^ 54 \<or> 512 \<le> wl_block w"
  shows "if imported \<or> wl_shared_range w \<and> \<not> wl_split_range w
    then \<forall>i. worker_range w i target_lo target_hi imported = Inr (lo, hi)
    else \<exists>border. border 0 = lo \<and> border (wl_workers w) = lo + (hi - lo) div wl_block w * wl_block w
    \<and> (\<forall>i < wl_workers w. border i \<le> border (i + 1) \<and> wl_block w dvd border i - lo
         \<and> worker_range w i target_lo target_hi imported = Inr (border i, border (i + 1)))"
proof (cases "imported \<or> wl_shared_range w \<and> \<not> wl_split_range w")
  case True
  then show ?thesis using assms(2-5) by (auto simp: worker_range_def)
next
  case False
  then have own: "\<not> wl_shared_range w \<or> wl_split_range w" and [simp]: "imported = False" by auto
  let ?n = "(hi - lo) div wl_block w" and ?k = "wl_workers w"
  have k: "0 < ?k" "?k \<le> 1024" and b: "0 < wl_block w" using assms(1) by (auto simp: wf_workload_def)
  have "?n < 2 ^ 54"
  proof (cases "512 \<le> wl_block w")
    case True
    then have "?n \<le> (hi - lo) div 512" by (intro div_le_mono2) auto
    then show ?thesis using assms(6) by simp
  next
    case False
    then show ?thesis using assms(7) div_le_dividend [of "hi - lo" "wl_block w"] by linarith
  qed
  then have "?n * ?k < 2 ^ 54 * 1024" using k by (intro mult_less_le_imp_less) auto
  then have small: "?n * ?k < 2 ^ 64" by simp
  let ?b = "\<lambda>i. lo + ?n * i div ?k * wl_block w"
  have "worker_range w i target_lo target_hi False = Inr (?b i, ?b (i + 1))" if "i < ?k" for i
    by (rule worker_range_split [OF own b assms(2-5) small that])
  moreover have "?b i \<le> ?b (i + 1)" for i by (intro add_left_mono mult_le_mono1 div_le_mono) simp
  ultimately have "\<exists>border. border 0 = lo \<and> border ?k = lo + ?n * wl_block w
    \<and> (\<forall>i < ?k. border i \<le> border (i + 1) \<and> wl_block w dvd border i - lo
         \<and> worker_range w i target_lo target_hi False = Inr (border i, border (i + 1)))"
    using k by (intro exI [of _ ?b]) simp
  then show ?thesis using False by auto
qed

definition example_workload :: workload where
  "example_workload = workload_default\<lparr>wl_workers := 3\<rparr>"

lemma example_workload_wf: "wf_workload example_workload"
  by (simp add: example_workload_def wf_workload_def workload_default_def)

theorem worker_ranges_partition_witness:
  "(\<exists>border. border 0 = 0 \<and> border 3 = (40960 :: nat)
    \<and> (\<forall>i < 3. worker_range example_workload i 0 43000 False = Inr (border i, border (i + 1))))
    \<and> worker_range example_workload 1 0 43000 True = Inr (0, 43000)"
  using worker_ranges_partition [OF example_workload_wf, of 0 43000 0 43000 False]
    worker_ranges_partition [OF example_workload_wf, of 0 43000 0 43000 True]
  by (auto simp: example_workload_def workload_default_def)




text \<open>
  The fixed pools and tables fit the memory budget. When both steps accept, the buffers of every
  worker's slots, the loaded records and one table of the computed capacity per worker together stay
  within \<open>--memory\<close>, and the capacity holds the loaded records and the requested positions.
\<close>

theorem memory_budget_holds:
  assumes "memory_budget c specs records = Inr b" and "table_capacity c b (length records) = Inr n"
  shows "sum_list (map (\<lambda>(w, _). slot_bytes w (max_len records) * wl_depth w) (concat (map tg_jobs specs)))
      + length records * request_size
      + sum_list (map (\<lambda>t. length (tg_jobs t)) specs) * (n * request_size) \<le> cf_memory c
    \<and> 0 < n \<and> length records \<le> n
    \<and> (\<forall>w\<in>set (cf_jobs c). \<forall>k. wl_positions w = Some k \<longrightarrow> k \<le> n)"
proof -
  let ?jobs = "concat (map tg_jobs specs)"
  define k where "k = sum_list (map (\<lambda>t. length (tg_jobs t)) specs)"
  from assms(1) obtain v where v: "pool_total (max_len records) 0 ?jobs = Some v"
    "b = \<lparr>bu_pool_bytes = v + length records * request_size, bu_worker_count = k\<rparr>"
    unfolding memory_budget_def Let_def and_then_eq_Inr if_err_eq_Inr
    by (auto simp: bind_eq_Some_conv checked_u64_Some k_def)
  have cap: "0 < k" "v + length records * request_size \<le> cf_memory c"
    "n = (cf_memory c - (v + length records * request_size)) div k div request_size"
    "0 < n" "length records \<le> n"
    "\<forall>w\<in>set (cf_jobs c). \<forall>k. wl_positions w = Some k \<longrightarrow> k \<le> n"
    using assms(2) v(2) unfolding table_capacity_def Let_def if_err_eq_Inr
    by (auto simp: list_ex_iff not_less)
  have "k * (n * request_size) \<le> cf_memory c - (v + length records * request_size)"
  proof -
    have "n * request_size \<le> (cf_memory c - (v + length records * request_size)) div k"
      unfolding cap(3) by (rule div_times_less_eq_dividend)
    then have "k * (n * request_size) \<le> k * ((cf_memory c - (v + length records * request_size)) div k)"
      by (rule mult_le_mono2)
    also have "\<dots> \<le> cf_memory c - (v + length records * request_size)" by (rule times_div_less_eq_dividend)
    finally show ?thesis .
  qed
  then show ?thesis using cap pool_total_Some [OF v(1)] unfolding k_def [symmetric] by auto
qed


definition example_config :: config where
  "example_config = \<lparr>cf_jobs = [example_workload], cf_files = [''/dev/x''], cf_prefixes = [],
     cf_range = Some (0, 65536), cf_memory = 2000000, cf_seed = 9, cf_backend = Direct\<rparr>"

definition example_targets :: "unit target list" where
  "example_targets = target_specs example_config []"

lemma example_budget:
  "memory_budget example_config example_targets [] = Inr \<lparr>bu_pool_bytes = 811008, bu_worker_count = 3\<rparr>"
  "table_capacity example_config \<lparr>bu_pool_bytes = 811008, bu_worker_count = 3\<rparr> (length ([] :: request list)) = Inr 16513"
  by code_simp+

theorem memory_budget_holds_witness: "811008 + 3 * (16513 * 24) \<le> (2000000 :: nat) \<and> (0 :: nat) < 16513"
  using memory_budget_holds [OF example_budget]
  by (simp add: example_targets_def target_specs_def config_jobs_def prefix_targets_def example_config_def
      example_workload_def workload_default_def slot_bytes_def page_up_def max_len_def request_size_def)

text \<open>
  C29: what \<open>loaded\<close> makes of the positions file a write-verify job has just written, for a range below 2^63.
  When the file and its records fit the memory budget and the block is at most 64 MiB, it reads back as
  the pairs it stands for: a write of one block and then a read of the same block, in the order of
  \<open>write_verify_index\<close>. In every other case the job refuses its own file: over a quarter of the memory, with
  longer blocks (a workload may have blocks of almost 2 GiB), or with records over half of the memory.
\<close>

theorem positions_file_round_trip:
  assumes "find wl_write_verify (cf_jobs c) = Some w" and "cf_range c = Some (lo, hi)"
    and "lo \<le> hi" and "hi < 2 ^ 63" and "0 < wl_block w"
    and "blocks = (hi - lo) div wl_block w" and "n = (case wl_positions w of Some n \<Rightarrow> n | None \<Rightarrow> blocks)"
    and "lines = pair_lines w lo blocks n 0 (max (cf_seed c) 1)"
  shows "loaded c (Some old) =
    (if blocks = 0 then Inl (Err ''range is smaller than one block'')
     else if cf_memory c div 4 < file_size lines then Inl (Err ''positions input exceeds memory budget'')
     else if n = 0 then Inl (Err ''empty position file'')
     else if 64 * 1024 * 1024 < wl_block w then Inl (Err ''invalid position record'')
     else if cf_memory c div 2 < 2 * n * request_size then Inl (Err ''positions exceed memory budget'')
     else Inr (pair_requests w lo blocks n 0 (max (cf_seed c) 1)))"
proof (cases "blocks = 0")
  case True
  then show ?thesis using assms by (cases old) (auto simp: loaded_def write_verify_positions_def)
next
  case False
  have "write_verify_positions c = Inr (Some lines)"
    using False assms(1,2,5,8) unfolding assms(6,7) by (simp add: write_verify_positions_def Let_def)
  then have l: "loaded c (Some old) = (if cf_memory c div 4 < file_size lines
      then Inl (Err ''positions input exceeds memory budget'')
      else and_then (load_lines (cf_memory c) 0 lines) (\<lambda>rs.
        if rs = [] then Inl (Err ''empty position file'') else Inr rs))"
    by (cases old) (simp add: loaded_def)
  have "blocks * wl_block w \<le> hi - lo" unfolding assms(6) by (rule div_times_less_eq_dividend)
  then have b: "0 < blocks" "lo + blocks * wl_block w < 2 ^ 63" using False assms(3,4) by linarith+
  show ?thesis
  proof (cases "64 * 1024 * 1024 < wl_block w")
    case True
    then show ?thesis using False load_lines_long [OF b True, of n "cf_memory c" 0 0] by (cases "n = 0") (simp_all add: l assms(8))
  next
    case short: False
    then have "load_lines (cf_memory c) 0 lines = (if lines \<noteq> [] \<and> cf_memory c div 2 < length lines * request_size
       then Inl (Err ''positions exceed memory budget'')
       else Inr (pair_requests w lo blocks n 0 (max (cf_seed c) 1)))"
      using load_lines_valid [OF pair_lines_valid [OF b assms(5)]] by (simp add: assms(8))
    moreover have "lines \<noteq> [] \<longleftrightarrow> n \<noteq> 0" "length lines = 2 * n"
      unfolding assms(8) by (metis length_pair_lines length_0_conv mult_is_0 zero_neq_numeral) simp
    ultimately show ?thesis using False short by (auto simp: l pair_requests_empty)
  qed
qed

definition example_pairs :: config where
  "example_pairs = \<lparr>cf_jobs = [workload_default\<lparr>wl_write_verify := True, wl_positions := Some 1\<rparr>],
     cf_files = [''/dev/x''], cf_prefixes = [], cf_range = Some (4096, 65536), cf_memory = 2000000,
     cf_seed = 9, cf_backend = Direct\<rparr>"

theorem positions_file_round_trip_witness:
  "loaded example_pairs (Some (0, [])) =
     Inr [request_default\<lparr>req_offset := 4096, req_len := 4096, req_write := True\<rparr>,
          request_default\<lparr>req_offset := 4096, req_len := 4096, req_write := False\<rparr>]
   \<and> loaded (example_pairs\<lparr>cf_memory := 40\<rparr>) (Some (0, [])) = Inl (Err ''positions input exceeds memory budget'')"
proof -
  define w where "w = workload_default\<lparr>wl_write_verify := True, wl_positions := Some 1\<rparr>"
  have w: "find wl_write_verify (cf_jobs example_pairs) = Some w"
    "find wl_write_verify (cf_jobs (example_pairs\<lparr>cf_memory := 40\<rparr>)) = Some w"
    by (simp_all add: example_pairs_def w_def)
  have f: "file_size (pair_lines w 4096 15 1 0 (max 9 1)) = 24" unfolding w_def by code_simp
  show ?thesis
    using positions_file_round_trip [OF w(1), of 4096 65536 15 1 _ "(0, [])"]
      positions_file_round_trip [OF w(2), of 4096 65536 15 1 _ "(0, [])"] f
    by (simp add: example_pairs_def w_def workload_default_def request_size_def write_verify_index_def Let_def)
qed

text \<open>
  C30: what a slot is given to write passes its own check. Where the payload is written afresh (unique
  payloads and those the run does not reuse), whatever the slot held, the buffer \<open>write_pattern\<close> leaves is
  the pattern \<open>check_pattern\<close> expects of the same request. Where the slot's payload is reused, this holds
  as long as the slot still holds, undamaged, the payload of a 4096-aligned block of this run and the
  request is 4096-aligned.
\<close>

theorem written_payload_verifies:
  assumes "template = fill (replicate 4096 0) 0 seed"
    and "reusable \<Longrightarrow> reusable_payload w lo records"
    and "reusable \<Longrightarrow> \<exists>buf old. buffer = fill buf old seed \<and> old mod 4096 = 0"
    and "reusable \<Longrightarrow> req_offset r mod 4096 = 0"
  shows "write_pattern buffer r w seed reusable template
      = fill buffer (of_nat (req_offset r)) (payload_seed w seed r)
    \<and> check_pattern (write_pattern buffer r w seed reusable template) r w seed template"
proof -
  have "write_pattern buffer r w seed reusable template
      = fill buffer (of_nat (req_offset r)) (payload_seed w seed r)"
  proof (cases reusable)
    case True
    then have u: "\<not> wl_unique w" using assms(2) by (simp add: reusable_payload_def)
    from True assms(3) obtain buf old where buf: "buffer = fill buf old seed" "unat old mod 4096 = 0"
      by (auto simp: word_unat_eq_iff unat_mod)
    have "unat (of_nat (req_offset r) :: u64) mod 4096 = 0"
      using True assms(4) by (simp add: unat_of_nat mod_mod_cancel)
    from stamp_payload [OF this buf(2)] show ?thesis
      using True u buf(1) by (simp add: write_pattern_def payload_seed_def Let_def)
  next
    case False
    then show ?thesis
      using fill_cached_eq_fill [of template seed] assms(1)
      by (simp add: write_pattern_def payload_seed_def is_template_def Let_def)
  qed
  then show ?thesis by (simp add: check_pattern_iff [OF assms(1)])
qed

definition example_writes :: workload where
  "example_writes = workload_default\<lparr>wl_read_probability := 0\<rparr>"

theorem written_payload_verifies_witness:
  "reusable_payload example_writes 0 []
    \<and> check_pattern (write_pattern (fill (replicate 4096 0) 8192 3) (request_default\<lparr>req_offset := 4096, req_len := 4096\<rparr>)
        example_writes 3 True (fill (replicate 4096 0) 0 3))
      (request_default\<lparr>req_offset := 4096, req_len := 4096\<rparr>) example_writes 3 (fill (replicate 4096 0) 0 3)"
proof
  show r: "reusable_payload example_writes 0 []"
    by (simp add: reusable_payload_def example_writes_def workload_default_def)
  have old: "\<exists>buf old. fill (replicate 4096 0) 8192 3 = fill buf old (3 :: u64) \<and> old mod 4096 = 0"
    by (rule exI [of _ "replicate 4096 0"], rule exI [of _ 8192]) simp
  have o: "req_offset (request_default\<lparr>req_offset := 4096, req_len := 4096\<rparr>) mod 4096 = 0" by simp
  show "check_pattern (write_pattern (fill (replicate 4096 0) 8192 3) (request_default\<lparr>req_offset := 4096, req_len := 4096\<rparr>)
        example_writes 3 True (fill (replicate 4096 0) 0 3))
      (request_default\<lparr>req_offset := 4096, req_len := 4096\<rparr>) example_writes 3 (fill (replicate 4096 0) 0 3)"
    by (rule conjunct2 [OF written_payload_verifies [OF refl, of True example_writes 0 "[]", OF r old o]])
qed

text \<open>
  C31: a reused payload carries what a read left in the slot. When one interior byte of the slot's buffer
  is not the pattern's, as after a read-back that returned wrong data, the reused form restamps addresses
  only, and the block it hands to the device fails its own check: a later, correct device is reported
  as wrong.
\<close>

theorem reused_payload_keeps_damage:
  assumes "template = fill (replicate 4096 0) 0 seed" and "\<not> wl_unique w"
    and "i < length buffer" and "8 \<le> i mod 512"
    and "buffer ! i \<noteq> byte_at seed (of_nat (req_offset r) + of_nat i)"
  shows "\<not> check_pattern (write_pattern buffer r w seed True template) r w seed template"
proof
  let ?b = "write_pattern buffer r w seed True template"
  assume "check_pattern ?b r w seed template"
  then have "?b = fill ?b (of_nat (req_offset r)) seed"
    using assms(2) by (simp add: check_pattern_iff [OF assms(1)] payload_seed_def)
  moreover have len: "length ?b = length buffer" by (simp add: write_pattern_def Let_def)
  ultimately have "?b ! i = byte_at seed (of_nat (req_offset r) + of_nat i)"
    using assms(3) nth_fill [of i ?b] by metis
  moreover have "?b ! i = buffer ! i"
    using assms(3,4) nth_stamp [OF assms(3)] by (simp add: write_pattern_def Let_def)
  ultimately show False using assms(5) by simp
qed

theorem reused_payload_keeps_damage_witness:
  "\<not> check_pattern (write_pattern (replicate 512 0) (request_default\<lparr>req_len := 512\<rparr>) workload_default 3 True
      (fill (replicate 4096 0) 0 3)) (request_default\<lparr>req_len := 512\<rparr>) workload_default 3 (fill (replicate 4096 0) 0 3)"
proof (rule reused_payload_keeps_damage [of _ _ _ 8])
  show "replicate 512 0 ! 8 \<noteq> byte_at 3 (of_nat (req_offset (request_default\<lparr>req_len := 512\<rparr>)) + of_nat 8)"
    by code_simp
qed (simp_all add: workload_default_def)

end
