(* ===== verification/Stream_Run.thy ===== *)
theory Stream_Run
  imports Engine_Plan
begin

text \<open>
  The streamed run of \<open>src/rust/src/engine.rs\<close>: \<open>struct Stream\<close> with \<open>source\<close>, which the backend asks for
  the next request of a free slot, and \<open>finish\<close>, which it tells of each completion. The clock
  (interruption flag and elapsed seconds) and the bytes a read brought back are arguments; \<open>pace\<close> only
  sleeps and \<open>publish\<close> only reports, so neither appears. \<open>stream_reaches\<close> is the interleaving of both
  calls in any order the backend may make them.
\<close>

section \<open>Statistics\<close>

record stats =
  st_incorrect :: nat
  st_incorrect_offsets :: "nat list"
  st_reads :: nat
  st_writes :: nat
  st_read_bytes :: nat
  st_write_bytes :: nat
  st_verified :: nat
  st_completed_reads :: nat
  st_completed_writes :: nat

definition stats_default :: stats where
  "stats_default = \<lparr>st_incorrect = 0, st_incorrect_offsets = [], st_reads = 0, st_writes = 0,
     st_read_bytes = 0, st_write_bytes = 0, st_verified = 0, st_completed_reads = 0,
     st_completed_writes = 0\<rparr>"

definition stats_complete :: "stats \<Rightarrow> request \<Rightarrow> bool \<Rightarrow> stats" where
  "stats_complete s r measured =
     (let s = (if req_write r then s\<lparr>st_completed_writes := st_completed_writes s + 1\<rparr>
               else s\<lparr>st_completed_reads := st_completed_reads s + 1\<rparr>)
      in if measured then
           (if req_write r then s\<lparr>st_writes := st_writes s + 1, st_write_bytes := st_write_bytes s + req_len r\<rparr>
            else s\<lparr>st_reads := st_reads s + 1, st_read_bytes := st_read_bytes s + req_len r\<rparr>)
         else s)"

definition incorrect_samples :: nat where
  "incorrect_samples = 16"

definition count_incorrect :: "stats \<Rightarrow> nat \<Rightarrow> stats" where
  "count_incorrect s offset =
     (let s = s\<lparr>st_incorrect := st_incorrect s + 1\<rparr>
      in if length (st_incorrect_offsets s) < incorrect_samples
         then s\<lparr>st_incorrect_offsets := st_incorrect_offsets s @ [offset]\<rparr> else s)"

section \<open>The stream\<close>

record stream =
  sm_generated :: positions
  sm_stats :: stats
  sm_work :: workload
  sm_template :: "u8 list"
  sm_seed :: u64
  sm_read_back :: bool
  sm_counted_read_backs :: bool
  sm_race :: bool
  sm_duration :: "rat option"
  sm_limit :: "nat option"
  sm_byte_limit :: "nat option"
  sm_lo :: nat
  sm_hi :: nat
  sm_index :: nat
  sm_wv_count :: nat
  sm_wv_state :: u64
  sm_wv_ops :: nat
  sm_queued_bytes :: nat
  sm_outstanding :: nat
  sm_in_flight :: "request list"
  sm_due :: "request list"
  sm_held :: "request list"

record clock =
  ck_interrupted :: bool
  ck_elapsed :: rat

definition read_back_of :: "request \<Rightarrow> request" where
  "read_back_of r = r\<lparr>req_write := False, req_verify := True\<rparr>"

definition same_io :: "request \<Rightarrow> request \<Rightarrow> bool" where
  "same_io a b \<longleftrightarrow> req_offset a = req_offset b \<and> req_len a = req_len b \<and> req_write a = req_write b
     \<and> req_verify a = req_verify b"

definition conflict :: "request \<Rightarrow> request \<Rightarrow> bool" where
  "conflict a b \<longleftrightarrow> (req_write a \<or> req_write b) \<and> req_offset a < req_offset b + req_len b
     \<and> req_offset b < req_offset a + req_len a"

definition gates :: "stream \<Rightarrow> request \<Rightarrow> request \<Rightarrow> bool" where
  "gates s candidate other \<longleftrightarrow>
     conflict candidate other
     \<and> \<not> (sm_race s \<and> req_verify candidate \<and> \<not> req_write candidate \<and> req_write other)"

definition overlaps :: "stream \<Rightarrow> request \<Rightarrow> bool" where
  "overlaps s r \<longleftrightarrow>
     sm_read_back s \<and> (list_ex (gates s r) (sm_in_flight s) \<or> list_ex (gates s r) (sm_due s))"

definition ops :: "stream \<Rightarrow> nat" where
  "ops s = (if wl_write_verify (sm_work s) then sm_wv_ops s else sm_index s)"

definition limit_reached :: "stream \<Rightarrow> bool" where
  "limit_reached s \<longleftrightarrow>
     (case sm_limit s of Some n \<Rightarrow> n \<le> ops s | None \<Rightarrow> False)
     \<or> (case sm_byte_limit s of Some n \<Rightarrow> n \<le> sm_queued_bytes s | None \<Rightarrow> False)"

definition stopped :: "clock \<Rightarrow> stream \<Rightarrow> bool" where
  "stopped clk s \<longleftrightarrow>
     ck_interrupted clk \<or> limit_reached s
     \<or> (case sm_duration s of Some d \<Rightarrow> d \<le> ck_elapsed clk | None \<Rightarrow> False)"

text \<open>The loop of \<open>plan_request\<close>; None would be a call that never returns.\<close>

partial_function (option) plan_loop :: "stream \<Rightarrow> (stream \<times> request option) option" where
  "plan_loop s =
     (if limit_reached s then Some (s, None)
      else let (g, r) = positions_get (sm_generated s) (sm_index s);
               s = s\<lparr>sm_generated := g, sm_index := sm_index s + 1\<rparr>
           in if \<not> req_verify r \<or> req_write r then Some (s, Some r) else plan_loop s)"

declare plan_loop.simps [code]

definition plan_request :: "stream \<Rightarrow> (stream \<times> request option) option" where
  "plan_request s =
     (if wl_write_verify (sm_work s) then
        let block = wl_block (sm_work s);
            blocks = max ((sm_hi s - sm_lo s) div block) 1;
            (n, state, index) = write_verify_index (sm_work s) blocks (sm_wv_count s) (sm_wv_state s)
        in Some (s\<lparr>sm_wv_count := n, sm_wv_state := state\<rparr>,
                 Some \<lparr>req_offset = sm_lo s + index * block, req_len = block, req_write = True,
                       req_verify = False, req_seed = 0, req_state = 0\<rparr>)
      else plan_loop s)"

subsection \<open>source\<close>

text \<open>Its three steps: the candidate, the owed read that goes first, and handing out or holding.\<close>

definition candidate :: "clock \<Rightarrow> stream \<Rightarrow> (stream \<times> request option) option" where
  "candidate clk s =
     (if sm_held s \<noteq> [] then Some (s\<lparr>sm_held := butlast (sm_held s)\<rparr>, Some (last (sm_held s)))
      else case sm_due s of
             d # ds \<Rightarrow> Some (s\<lparr>sm_due := ds\<rparr>, Some d)
           | [] \<Rightarrow> if stopped clk s then Some (s, None) else plan_request s)"

fun take_first :: "('a \<Rightarrow> bool) \<Rightarrow> 'a list \<Rightarrow> ('a \<times> 'a list) option" where
  "take_first P [] = None"
| "take_first P (x # xs) =
     (if P x then Some (x, xs) else map_option (\<lambda>(y, ys). (y, x # ys)) (take_first P xs))"

definition owed_first :: "stream \<Rightarrow> request \<Rightarrow> stream \<times> request" where
  "owed_first s r =
     (if req_write r then
        case take_first (gates s r) (sm_due s) of
          Some (d, rest) \<Rightarrow> (s\<lparr>sm_held := sm_held s @ [r], sm_due := rest\<rparr>, d)
        | None \<Rightarrow> (s, r)
      else (s, r))"

definition hand_out :: "stream \<Rightarrow> request \<Rightarrow> stream \<times> next_request" where
  "hand_out s r =
     (if wl_rate (sm_work s) \<noteq> None \<and> 0 < sm_outstanding s \<or> overlaps s r
      then (s\<lparr>sm_held := sm_held s @ [r]\<rparr>, NextWait)
      else (s\<lparr>sm_queued_bytes := sm_queued_bytes s
                 + (if \<not> req_verify r \<or> sm_counted_read_backs s then req_len r else 0),
              sm_wv_ops := sm_wv_ops s + (if wl_write_verify (sm_work s) then 1 else 0),
              sm_outstanding := sm_outstanding s + 1,
              sm_in_flight := sm_in_flight s @ (if sm_read_back s then [r] else []),
              sm_due := sm_due s
                 @ (if sm_race s \<and> req_write r \<and> sm_read_back s then [read_back_of r] else [])\<rparr>,
            NextRequest r))"

definition source :: "clock \<Rightarrow> stream \<Rightarrow> (stream \<times> next_request) option" where
  "source clk s =
     map_option (\<lambda>(s, c).
       case c of
         None \<Rightarrow> (s, if sm_outstanding s = 0 then NextDone else NextWait)
       | Some r \<Rightarrow> (let (s, r) = owed_first s r in hand_out s r)) (candidate clk s)"

subsection \<open>finish\<close>

fun position_of :: "('a \<Rightarrow> bool) \<Rightarrow> 'a list \<Rightarrow> nat option" where
  "position_of P [] = None"
| "position_of P (x # xs) = (if P x then Some 0 else map_option Suc (position_of P xs))"

definition swap_remove :: "nat \<Rightarrow> 'a list \<Rightarrow> 'a list" where
  "swap_remove i xs = butlast (xs[i := last xs])"

definition is_read_back :: "request \<Rightarrow> bool" where
  "is_read_back r \<longleftrightarrow> req_verify r \<and> \<not> req_write r"

text \<open>Dropping the completed request from the list of those in flight.\<close>

definition land :: "request \<Rightarrow> stream \<Rightarrow> stream result" where
  "land r s =
     (if sm_outstanding s = 0 then Inl Panic
      else let s = s\<lparr>sm_outstanding := sm_outstanding s - 1\<rparr>
           in if sm_read_back s then
                (case position_of (\<lambda>f. same_io f r) (sm_in_flight s) of
                   None \<Rightarrow> Inl Panic
                 | Some i \<Rightarrow> Inr (s\<lparr>sm_in_flight := swap_remove i (sm_in_flight s)\<rparr>))
              else Inr s)"

text \<open>\<open>buffer\<close> is the completed slot's.\<close>

definition finish :: "clock \<Rightarrow> u8 list \<Rightarrow> request \<Rightarrow> stream \<Rightarrow> stream result" where
  "finish clk buffer r s =
     and_then (land r s) (\<lambda>s.
       let s = (if is_read_back r then
                  (let st = (if check_pattern buffer r (sm_work s) (sm_seed s) (sm_template s)
                             then sm_stats s else count_incorrect (sm_stats s) (req_offset r))
                   in s\<lparr>sm_stats := st\<lparr>st_verified := st_verified st + 1\<rparr>\<rparr>)
                else if req_write r \<and> sm_read_back s \<and> \<not> sm_race s
                then s\<lparr>sm_due := sm_due s @ [read_back_of r]\<rparr>
                else s);
           measured = (case sm_duration s of Some d \<Rightarrow> ck_elapsed clk < d | None \<Rightarrow> True)
       in Inr (if \<not> is_read_back r \<or> sm_counted_read_backs s \<and> \<not> limit_reached s
               then s\<lparr>sm_stats := stats_complete (sm_stats s) r measured\<rparr> else s))"

subsection \<open>Starting and running\<close>

text \<open>The stream \<open>Run::stream\<close> builds. \<open>endpoints\<close> is what the queue reports.\<close>

definition stream_new ::
  "positions \<Rightarrow> workload \<Rightarrow> u8 list \<Rightarrow> u64 \<Rightarrow> bool \<Rightarrow> nat \<Rightarrow> rat option \<Rightarrow> nat option \<Rightarrow> nat option
   \<Rightarrow> nat \<Rightarrow> nat \<Rightarrow> stream" where
  "stream_new generated w template seed verify endpoints duration limit bytes lo hi =
     (let read_back = verify \<or> wl_verify w \<or> wl_write_verify w
      in \<lparr>sm_generated = generated, sm_stats = stats_default, sm_work = w, sm_template = template,
          sm_seed = seed, sm_read_back = read_back,
          sm_counted_read_backs = wl_verify w \<or> wl_write_verify w,
          sm_race = (read_back \<and> wl_write_verify_race w \<and> 1 < endpoints),
          sm_duration = duration, sm_limit = limit, sm_byte_limit = bytes, sm_lo = lo, sm_hi = hi,
          sm_index = 0, sm_wv_count = 0, sm_wv_state = max seed 1, sm_wv_ops = 0,
          sm_queued_bytes = 0, sm_outstanding = 0, sm_in_flight = [], sm_due = [], sm_held = []\<rparr>)"

text \<open>
  A backend asks for requests and completes any request that is in flight, in any order. Without
  read-backs the stream does not list them, and a completion needs one outstanding.
\<close>

inductive stream_reaches :: "stream \<Rightarrow> stream \<Rightarrow> bool" for s0 where
  start: "stream_reaches s0 s0"
| asked: "stream_reaches s0 s \<Longrightarrow> source clk s = Some (s', n) \<Longrightarrow> stream_reaches s0 s'"
| completed: "stream_reaches s0 s \<Longrightarrow> 0 < sm_outstanding s \<Longrightarrow> (sm_read_back s \<Longrightarrow> r \<in> set (sm_in_flight s)) \<Longrightarrow>
    finish clk buffer r s = Inr s' \<Longrightarrow> stream_reaches s0 s'"

inductive_cases stream_reachesE: "stream_reaches s0 s"

end
