(* ===== verification/Stream_Invariant.thy ===== *)
theory Stream_Invariant
  imports Stream_Run
begin

text \<open>
  The invariant of the streamed run and what follows from it. \<open>wf_stream\<close> says that requests in flight do
  not clash, that owed and held read-backs clash with nothing in flight, that at most a write and the
  read-back that goes before it are held, and that every completed write is verified or owed
  (\<open>balanced\<close>). \<open>source\<close> and \<open>finish\<close> keep it, so it holds in every state \<open>stream_reaches\<close> gives;
  \<open>requests_ok\<close> carries a property of the table's requests, here their range, through the same steps.
\<close>

section \<open>Lemmas\<close>

lemma take_first_Some:
  "take_first P xs = Some (y, ys) \<Longrightarrow> P y \<and> mset xs = add_mset y (mset ys)"
  by (induction xs arbitrary: y ys) (auto split: if_splits)

lemma take_first_None: "take_first P xs = None \<longleftrightarrow> \<not> list_ex P xs"
  by (induction xs) auto

lemma position_of_Some: "position_of P xs = Some i \<Longrightarrow> i < length xs \<and> P (xs ! i)"
  by (induction xs arbitrary: i) (auto split: if_splits)

lemma position_of_None: "position_of P xs = None \<longleftrightarrow> (\<forall>x\<in>set xs. \<not> P x)"
  by (induction xs) auto

lemma mset_swap_remove:
  assumes "i < length xs"
  shows "mset xs = add_mset (xs ! i) (mset (swap_remove i xs))"
proof (cases xs rule: rev_cases)
  case (snoc ys z)
  show ?thesis
  proof (cases "i = length ys")
    case True
    then show ?thesis by (simp add: snoc swap_remove_def)
  next
    case False
    then have i: "i < length ys" using assms snoc by simp
    then have "mset ys = add_mset (ys ! i) (mset ys - {#ys ! i#})" by (simp add: nth_mem_mset)
    then show ?thesis
      using i by (simp add: snoc swap_remove_def list_update_append nth_append mset_update butlast_append add_mset_commute)
  qed
qed (use assms in simp)

section \<open>The plan loop returns\<close>

lemma positions_get_kept:
  assumes "positions_get p index = (p', r)"
  shows "po_work p' = po_work p" "length (po_entries p') = length (po_entries p)"
    "positions_len p' = positions_len p" "po_lo p' = po_lo p" "po_hi p' = po_hi p"
proof -
  have p': "p' = advance p (index div positions_len p)"
    using assms by (auto simp: positions_get_advance Let_def split: prod.splits)
  have "length (po_entries p') = length (po_entries p)" unfolding p' by (metis advance_simps(4) size_mset)
  then show "po_work p' = po_work p" "length (po_entries p') = length (po_entries p)"
    "positions_len p' = positions_len p" "po_lo p' = po_lo p" "po_hi p' = po_hi p"
    by (simp_all add: p' positions_len_def)
qed

text \<open>A verifying read of the plan is in the checking half, so it is not the last before a pass ends.\<close>

lemma positions_get_read_back:
  assumes "positions_get p index = (p', r)" and "req_verify r" and "po_entries p \<noteq> []"
  shows "0 < index mod positions_len p"
proof (rule ccontr)
  assume "\<not> 0 < index mod positions_len p"
  then have "index mod positions_len p' = 0" using positions_get_kept [OF assms(1)] by simp
  then have "\<not> snd (mapped p' index)"
    using positions_get_kept(2) [OF assms(1)] assms(3) by (auto simp: mapped_visit visit_def Let_def)
  moreover have "req_verify r \<longrightarrow> snd (mapped p' index)"
    using assms(1) by (auto simp: positions_get_advance shifted_def Let_def split: prod.splits if_splits)
  ultimately show False using assms(2) by simp
qed

definition same_plan :: "stream \<Rightarrow> stream \<Rightarrow> bool" where
  "same_plan s t \<longleftrightarrow> (\<exists>g i. t = s\<lparr>sm_generated := g, sm_index := i\<rparr> \<and> po_entries g \<noteq> []
     \<and> po_work g = po_work (sm_generated s) \<and> po_lo g = po_lo (sm_generated s) \<and> po_hi g = po_hi (sm_generated s))"

text \<open>What is left of the checking half before the plan offers a request again.\<close>

definition checks_left :: "stream \<Rightarrow> nat" where
  "checks_left s =
     (let n = positions_len (sm_generated s); i = sm_index s mod n in if i = 0 then 0 else n - i)"

lemma checks_left_Suc:
  assumes "0 < sm_index s mod positions_len (sm_generated s)" and "0 < positions_len (sm_generated s)"
    and "positions_len g = positions_len (sm_generated s)"
  shows "checks_left (s\<lparr>sm_generated := g, sm_index := sm_index s + 1\<rparr>) < checks_left s"
proof -
  let ?L = "positions_len (sm_generated s)"
  have "sm_index s mod ?L < ?L" using assms(2) by simp
  then show ?thesis using assms by (auto simp: checks_left_def Let_def mod_Suc intro!: diff_less_mono2)
qed

lemma plan_loop_returns:
  assumes "po_entries (sm_generated s) \<noteq> []"
  shows "\<exists>t c. plan_loop s = Some (t, c) \<and> same_plan s t
    \<and> (case c of None \<Rightarrow> limit_reached t | Some r \<Rightarrow> \<not> is_read_back r)"
  using assms
proof (induction "checks_left s" arbitrary: s rule: less_induct)
  case less
  show ?case
  proof (cases "limit_reached s")
    case True
    have "s = s\<lparr>sm_generated := sm_generated s, sm_index := sm_index s\<rparr>" by simp
    then have "same_plan s s" using less.prems unfolding same_plan_def by blast
    then show ?thesis using True by (subst plan_loop.simps) simp
  next
    case False
    obtain g r where g: "positions_get (sm_generated s) (sm_index s) = (g, r)" by fastforce
    note kept = positions_get_kept [OF g]
    let ?t = "s\<lparr>sm_generated := g, sm_index := sm_index s + 1\<rparr>"
    have ne: "po_entries (sm_generated ?t) \<noteq> []" using kept(2) less.prems by auto
    have same: "same_plan s ?t" unfolding same_plan_def using kept ne by auto
    have step: "plan_loop s = (if \<not> is_read_back r then Some (?t, Some r) else plan_loop ?t)"
      using False g by (subst plan_loop.simps) (auto simp: is_read_back_def)
    show ?thesis
    proof (cases "is_read_back r")
      case True
      then have "0 < sm_index s mod positions_len (sm_generated s)"
        using positions_get_read_back [OF g] less.prems by (simp add: is_read_back_def)
      moreover have "0 < positions_len (sm_generated s)" using less.prems by (simp add: positions_len_def)
      ultimately have "checks_left ?t < checks_left s" using kept(3) by (rule checks_left_Suc)
      from less.hyps [OF this ne]
      obtain t c where t: "plan_loop ?t = Some (t, c)" "same_plan ?t t"
        "case c of None \<Rightarrow> limit_reached t | Some r \<Rightarrow> \<not> is_read_back r" by blast
      have "same_plan s t" using t(2) kept by (auto simp: same_plan_def)
      then show ?thesis using step True t by auto
    qed (use step same in auto)
  qed
qed

section \<open>The invariant\<close>

text \<open>Two requests that may not be in flight together, whichever came first.\<close>

definition clash :: "stream \<Rightarrow> request \<Rightarrow> request \<Rightarrow> bool" where
  "clash s a b \<longleftrightarrow> conflict a b
     \<and> \<not> (sm_race s \<and> (is_read_back a \<and> req_write b \<or> is_read_back b \<and> req_write a))"

definition compatible :: "stream \<Rightarrow> request multiset \<Rightarrow> bool" where
  "compatible s M \<longleftrightarrow> (\<forall>a b. {#a, b#} \<subseteq># M \<longrightarrow> \<not> clash s a b)"

definition read_backs :: "request list \<Rightarrow> nat" where
  "read_backs rs = size (filter_mset is_read_back (mset rs))"

definition writes_in :: "request list \<Rightarrow> nat" where
  "writes_in rs = size (filter_mset req_write (mset rs))"

text \<open>
  Every completed write has been verified or is owed a read-back: in the list of owed reads, held, in
  flight, or in hand (\<open>extra\<close>). With racing read-backs a write is owed its read from its issue on.
\<close>

definition balanced :: "nat \<Rightarrow> stream \<Rightarrow> bool" where
  "balanced extra s \<longleftrightarrow> sm_read_back s \<longrightarrow>
     st_completed_writes (sm_stats s) + (if sm_race s then writes_in (sm_in_flight s) else 0)
     = st_verified (sm_stats s) + length (sm_due s) + read_backs (sm_held s)
       + read_backs (sm_in_flight s) + extra"

definition stream_core :: "stream \<Rightarrow> bool" where
  "stream_core s \<longleftrightarrow>
     (if sm_read_back s then length (sm_in_flight s) = sm_outstanding s
      else sm_in_flight s = [] \<and> sm_due s = [])
     \<and> (\<forall>d\<in>set (sm_due s). is_read_back d)
     \<and> compatible s (mset (sm_in_flight s))
     \<and> (\<forall>d\<in>set (sm_due s). \<forall>f\<in>set (sm_in_flight s). \<not> clash s d f)
     \<and> po_entries (sm_generated s) \<noteq> []"

definition held_ok :: "stream \<Rightarrow> bool" where
  "held_ok s \<longleftrightarrow> sm_held s = [] \<or> (\<exists>x. sm_held s = [x])
     \<or> (\<exists>w r. sm_held s = [w, r] \<and> req_write w \<and> is_read_back r)"

definition wf_stream :: "stream \<Rightarrow> bool" where
  "wf_stream s \<longleftrightarrow> stream_core s \<and> held_ok s \<and> balanced 0 s
     \<and> (\<forall>x\<in>set (sm_held s). is_read_back x \<longrightarrow> (\<forall>f\<in>set (sm_in_flight s). \<not> clash s x f))"

text \<open>Inside \<open>source\<close>, with the candidate \<open>r\<close> in hand.\<close>

definition in_hand :: "stream \<Rightarrow> request \<Rightarrow> bool" where
  "in_hand s r \<longleftrightarrow> stream_core s \<and> balanced (if is_read_back r then 1 else 0) s
     \<and> (sm_held s = [] \<or> (\<exists>w. sm_held s = [w] \<and> req_write w \<and> is_read_back r))
     \<and> (is_read_back r \<longrightarrow> (\<forall>f\<in>set (sm_in_flight s). \<not> clash s r f))"

text \<open>Both depend on the race setting alone.\<close>

lemma clash_update [simp]:
  "clash (sm_generated_update f0 s) = clash s"
  "clash (sm_index_update f1 s) = clash s"
  "clash (sm_held_update f2 s) = clash s"
  "clash (sm_due_update f3 s) = clash s"
  "clash (sm_in_flight_update f4 s) = clash s"
  "clash (sm_outstanding_update f5 s) = clash s"
  "clash (sm_queued_bytes_update f6 s) = clash s"
  "clash (sm_wv_ops_update f7 s) = clash s"
  "clash (sm_wv_count_update f8 s) = clash s"
  "clash (sm_wv_state_update f9 s) = clash s"
  "clash (sm_stats_update f10 s) = clash s"
  by (simp_all add: clash_def fun_eq_iff)

lemma compatible_update [simp]:
  "compatible (sm_generated_update f0 s) = compatible s"
  "compatible (sm_index_update f1 s) = compatible s"
  "compatible (sm_held_update f2 s) = compatible s"
  "compatible (sm_due_update f3 s) = compatible s"
  "compatible (sm_in_flight_update f4 s) = compatible s"
  "compatible (sm_outstanding_update f5 s) = compatible s"
  "compatible (sm_queued_bytes_update f6 s) = compatible s"
  "compatible (sm_wv_ops_update f7 s) = compatible s"
  "compatible (sm_wv_count_update f8 s) = compatible s"
  "compatible (sm_wv_state_update f9 s) = compatible s"
  "compatible (sm_stats_update f10 s) = compatible s"
  by (simp_all add: compatible_def fun_eq_iff)

lemma clash_sym: "clash s a b = clash s b a"
  by (auto simp: clash_def conflict_def)

lemma gates_clash: "clash s a b \<Longrightarrow> gates s a b"
  by (auto simp: clash_def gates_def is_read_back_def)

lemma pair_subset_add_mset:
  assumes "{#a, b#} \<subseteq># add_mset r M"
  shows "{#a, b#} \<subseteq># M \<or> a = r \<and> b \<in># M \<or> b = r \<and> a \<in># M"
proof (cases "r \<in># {#a, b#}")
  case True
  then consider "a = r" | "b = r" by auto
  then show ?thesis
  proof cases
    case 2
    then have "add_mset r {#a#} \<subseteq># add_mset r M" using assms by (simp add: add_mset_commute)
    then show ?thesis using 2 by simp
  qed (use assms in simp)
next
  case False
  then have "{#a, b#} \<subseteq># M"
    using assms by (auto simp: subseteq_mset_def dest: spec split: if_splits)
  then show ?thesis ..
qed

lemma compatible_add:
  assumes "compatible s M" and "\<And>f. f \<in># M \<Longrightarrow> \<not> clash s r f"
  shows "compatible s (add_mset r M)"
  unfolding compatible_def
proof (intro allI impI)
  fix a b assume "{#a, b#} \<subseteq># add_mset r M"
  from pair_subset_add_mset [OF this] show "\<not> clash s a b"
    using assms clash_sym unfolding compatible_def by blast
qed

lemma compatible_subset: "compatible s M \<Longrightarrow> N \<subseteq># M \<Longrightarrow> compatible s N"
  by (meson compatible_def subset_mset.order_trans)

lemma compatible_add_elem:
  assumes "compatible s (add_mset r M)" and "f \<in># M"
  shows "\<not> clash s r f"
proof -
  have "{#r, f#} \<subseteq># add_mset r M" using assms(2) by simp
  then show ?thesis using assms(1) unfolding compatible_def by blast
qed

lemma counts [simp]:
  "read_backs [] = 0" "read_backs (x # xs) = (if is_read_back x then 1 else 0) + read_backs xs"
  "read_backs (xs @ ys) = read_backs xs + read_backs ys"
  "writes_in [] = 0" "writes_in (x # xs) = (if req_write x then 1 else 0) + writes_in xs"
  "writes_in (xs @ ys) = writes_in xs + writes_in ys"
  by (simp_all add: read_backs_def writes_in_def)

lemma read_back_of_simps [simp]:
  "is_read_back (read_back_of r)" "\<not> req_write (read_back_of r)"
  "req_offset (read_back_of r) = req_offset r" "req_len (read_back_of r) = req_len r"
  by (simp_all add: read_back_of_def is_read_back_def)

lemma not_read_back_write: "req_write r \<Longrightarrow> \<not> is_read_back r"
  by (simp add: is_read_back_def)

text \<open>The read-back of a write clashes with no more than the write does.\<close>

lemma clash_read_back_of: "req_write r \<Longrightarrow> clash s (read_back_of r) f \<Longrightarrow> clash s r f"
  by (auto simp: clash_def conflict_def is_read_back_def read_back_of_def)

lemma no_clash_own_read_back: "sm_race s \<Longrightarrow> req_write r \<Longrightarrow> \<not> clash s (read_back_of r) r"
  by (simp add: clash_def)


section \<open>source keeps it\<close>

lemma same_plan_core:
  assumes "stream_core s" and "same_plan s t"
  shows "stream_core t" "sm_held t = sm_held s" "sm_in_flight t = sm_in_flight s" "sm_due t = sm_due s"
    "balanced k t = balanced k s" "sm_outstanding t = sm_outstanding s" "sm_read_back t = sm_read_back s"
    "sm_stats t = sm_stats s"
  using assms by (auto simp: same_plan_def stream_core_def balanced_def)

lemma plan_request_returns:
  assumes "stream_core s"
  shows "\<exists>t c. plan_request s = Some (t, c) \<and> stream_core t \<and> sm_held t = sm_held s \<and> sm_due t = sm_due s
    \<and> sm_outstanding t = sm_outstanding s \<and> sm_in_flight t = sm_in_flight s \<and> sm_read_back t = sm_read_back s
    \<and> sm_stats t = sm_stats s \<and> (\<forall>k. balanced k t = balanced k s)
    \<and> (case c of None \<Rightarrow> True | Some r \<Rightarrow> \<not> is_read_back r)"
proof (cases "wl_write_verify (sm_work s)")
  case True
  define block where "block = wl_block (sm_work s)"
  obtain n state index where i: "write_verify_index (sm_work s) (max ((sm_hi s - sm_lo s) div block) 1)
      (sm_wv_count s) (sm_wv_state s) = (n, state, index)" by (metis prod_cases3)
  have p: "plan_request s = Some (s\<lparr>sm_wv_count := n, sm_wv_state := state\<rparr>,
      Some \<lparr>req_offset = sm_lo s + index * block, req_len = block, req_write = True,
            req_verify = False, req_seed = 0, req_state = 0\<rparr>)"
    using True i by (simp add: plan_request_def block_def Let_def)
  show ?thesis unfolding p using assms
    by (simp add: stream_core_def balanced_def is_read_back_def)
next
  case False
  have "po_entries (sm_generated s) \<noteq> []" using assms by (simp add: stream_core_def)
  from plan_loop_returns [OF this] obtain t c where
    t: "plan_loop s = Some (t, c)" "same_plan s t"
    "case c of None \<Rightarrow> limit_reached t | Some r \<Rightarrow> \<not> is_read_back r" by blast
  from same_plan_core [OF assms t(2)] t False show ?thesis
    by (auto simp: plan_request_def split: option.splits)
qed

lemma candidate_in_hand:
  assumes wf: "wf_stream s"
  shows "\<exists>t c. candidate clk s = Some (t, c) \<and> sm_outstanding t = sm_outstanding s
    \<and> (case c of None \<Rightarrow> wf_stream t \<and> sm_due t = [] \<and> sm_held t = [] | Some r \<Rightarrow> in_hand t r)"
proof (cases "sm_held s = []")
  case held: True
  show ?thesis
  proof (cases "sm_due s")
    case (Cons d ds)
    then have "in_hand (s\<lparr>sm_due := ds\<rparr>) d"
      using wf held by (auto simp: in_hand_def wf_stream_def stream_core_def balanced_def)
    then show ?thesis using held Cons by (simp add: candidate_def)
  next
    case due: Nil
    show ?thesis
    proof (cases "stopped clk s")
      case True
      then show ?thesis using held due wf by (simp add: candidate_def)
    next
      case False
      have core: "stream_core s" "balanced 0 s" using wf by (simp_all add: wf_stream_def)
      from plan_request_returns [OF core(1)] obtain t c where
        t: "plan_request s = Some (t, c)" "stream_core t" "sm_held t = []" "sm_due t = []"
        "sm_outstanding t = sm_outstanding s" "balanced 0 t"
        "case c of None \<Rightarrow> True | Some r \<Rightarrow> \<not> is_read_back r"
        using held due core by auto
      then show ?thesis
        using False held due by (auto simp: candidate_def wf_stream_def in_hand_def held_ok_def split: option.splits)
    qed
  qed
next
  case False
  then consider x where "sm_held s = [x]" | w r where "sm_held s = [w, r]" "req_write w" "is_read_back r"
    using wf by (auto simp: wf_stream_def held_ok_def)
  then have "in_hand (s\<lparr>sm_held := butlast (sm_held s)\<rparr>) (last (sm_held s))"
    using wf
    by cases (auto simp: in_hand_def wf_stream_def stream_core_def balanced_def not_read_back_write)
  then show ?thesis using False by (simp add: candidate_def)
qed

lemma owed_first_in_hand:
  assumes h: "in_hand s r" and o: "owed_first s r = (t, q)"
  shows "in_hand t q" "req_write q \<longrightarrow> \<not> list_ex (gates t q) (sm_due t)" "sm_outstanding t = sm_outstanding s"
proof (atomize (full), cases "req_write r \<and> take_first (gates s r) (sm_due s) \<noteq> None")
  case False
  then have "t = s" "q = r" using o by (auto simp: owed_first_def split: option.splits if_splits)
  then show "in_hand t q \<and> (req_write q \<longrightarrow> \<not> list_ex (gates t q) (sm_due t)) \<and> sm_outstanding t = sm_outstanding s"
    using False h by (auto simp: take_first_None)
next
  case True
  then obtain d rest where d: "take_first (gates s r) (sm_due s) = Some (d, rest)" by auto
  from take_first_Some [OF this] have ms: "mset (sm_due s) = add_mset d (mset rest)" by simp
  then have st: "set (sm_due s) = insert d (set rest)" by (metis set_mset_mset set_mset_add_mset_insert)
  have ln: "length (sm_due s) = Suc (length rest)" using ms by (metis size_mset size_add_mset)
  have t: "t = s\<lparr>sm_held := sm_held s @ [r], sm_due := rest\<rparr>" "q = d"
    using o True d by (auto simp: owed_first_def)
  have held: "sm_held s = []" using h True by (auto simp: in_hand_def not_read_back_write)
  have rb: "is_read_back d" using h st by (auto simp: in_hand_def stream_core_def)
  then show "in_hand t q \<and> (req_write q \<longrightarrow> \<not> list_ex (gates t q) (sm_due t)) \<and> sm_outstanding t = sm_outstanding s"
    using h True st ln held
    by (auto simp: t in_hand_def stream_core_def balanced_def not_read_back_write is_read_back_def)
qed


text \<open>A request that is handed out overlaps nothing that must finish first.\<close>

lemma hand_out_wf:
  assumes h: "in_hand s r" and w: "req_write r \<longrightarrow> \<not> list_ex (gates s r) (sm_due s)"
    and o: "hand_out s r = (t, n)"
  shows "wf_stream t"
    and "n = NextWait \<Longrightarrow> 0 < sm_outstanding s"
    and "n \<noteq> NextWait \<Longrightarrow> n = NextRequest r \<and> sm_outstanding t = Suc (sm_outstanding s)"
proof -
  have core: "stream_core s" and bal: "balanced (if is_read_back r then 1 else 0) s"
    and held: "sm_held s = [] \<or> (\<exists>w. sm_held s = [w] \<and> req_write w \<and> is_read_back r)"
    and free: "is_read_back r \<longrightarrow> (\<forall>f\<in>set (sm_in_flight s). \<not> clash s r f)"
    using h by (auto simp: in_hand_def)
  let ?wait = "wl_rate (sm_work s) \<noteq> None \<and> 0 < sm_outstanding s \<or> overlaps s r"
  show "n = NextWait \<Longrightarrow> 0 < sm_outstanding s"
  proof -
    assume "n = NextWait"
    then have "?wait" using o by (auto simp: hand_out_def split: if_splits)
    moreover have "0 < sm_outstanding s" if ov: "overlaps s r"
    proof (rule ccontr)
      assume "\<not> 0 < sm_outstanding s"
      then have "sm_in_flight s = []" using core by (auto simp: stream_core_def split: if_splits)
      then have "list_ex (gates s r) (sm_due s)" using ov by (simp add: overlaps_def)
      then obtain d where d: "d \<in> set (sm_due s)" "gates s r d" by (auto simp: list_ex_iff)
      then have "\<not> req_write d" using core by (auto simp: stream_core_def is_read_back_def)
      then have "req_write r" using d by (auto simp: gates_def conflict_def)
      then show False using w d by (auto simp: list_ex_iff)
    qed
    ultimately show ?thesis by blast
  qed
  show "n \<noteq> NextWait \<Longrightarrow> n = NextRequest r \<and> sm_outstanding t = Suc (sm_outstanding s)"
    using o by (auto simp: hand_out_def split: if_splits)
  show "wf_stream t"
  proof (cases ?wait)
    case True
    then have t: "t = s\<lparr>sm_held := sm_held s @ [r]\<rparr>" using o by (auto simp: hand_out_def)
    have "held_ok t" using held by (auto simp: t held_ok_def)
    moreover have "balanced 0 t" using bal by (auto simp: t balanced_def split: if_splits)
    moreover have "stream_core t" using core by (simp add: t stream_core_def)
    moreover have "\<forall>x\<in>set (sm_held t). is_read_back x \<longrightarrow> (\<forall>f\<in>set (sm_in_flight t). \<not> clash t x f)"
      using held free by (auto simp: t not_read_back_write)
    ultimately show ?thesis by (simp add: wf_stream_def)
  next
    case False
    define owed where "owed = (if sm_race s \<and> req_write r \<and> sm_read_back s then [read_back_of r] else [])"
    have t: "sm_in_flight t = sm_in_flight s @ (if sm_read_back s then [r] else [])" "sm_due t = sm_due s @ owed"
      "sm_held t = sm_held s" "sm_outstanding t = sm_outstanding s + 1" "sm_generated t = sm_generated s"
      "sm_stats t = sm_stats s" "sm_read_back t = sm_read_back s" "sm_race t = sm_race s"
      "clash t = clash s" "compatible t = compatible s"
      using o False by (auto simp: hand_out_def owed_def)
    have ng: "\<not> clash s r f" if "sm_read_back s" "f \<in> set (sm_in_flight s) \<union> set (sm_due s)" for f
      using False that gates_clash by (auto simp: overlaps_def list_ex_iff)
    have comp: "compatible s (mset (sm_in_flight t))"
      using core ng by (auto simp: t stream_core_def intro!: compatible_add split: if_splits)
    have clear: "\<not> clash s d f" if "d \<in> set (sm_due t)" "f \<in> set (sm_in_flight t)" for d f
    proof (cases "sm_read_back s")
      case True
      have old: "\<forall>d\<in>set (sm_due s). \<forall>f\<in>set (sm_in_flight s). \<not> clash s d f" using core by (simp add: stream_core_def)
      from that consider "d \<in> set (sm_due s)" "f \<in> set (sm_in_flight s)" | "d \<in> set (sm_due s)" "f = r"
        | "d = read_back_of r" "sm_race s" "req_write r" "f \<in> set (sm_in_flight s)"
        | "d = read_back_of r" "sm_race s" "req_write r" "f = r"
        using True by (auto simp: t owed_def split: if_splits)
      then show ?thesis
        using old ng [OF True] clash_sym clash_read_back_of no_clash_own_read_back by cases blast+
    next
      case False
      then show ?thesis using that core by (simp add: t owed_def stream_core_def)
    qed
    have "stream_core t"
      using core comp clear by (auto simp: stream_core_def t owed_def split: if_splits)
    moreover have "held_ok t" using held by (auto simp: t held_ok_def)
    moreover have "balanced 0 t"
      using bal held by (auto simp: balanced_def t owed_def not_read_back_write is_read_back_def split: if_splits)
    moreover have "\<forall>x\<in>set (sm_held t). \<not> is_read_back x" using held by (auto simp: t not_read_back_write)
    ultimately show ?thesis by (simp add: wf_stream_def)
  qed
qed

lemma source_wf:
  assumes "wf_stream s"
  shows "\<exists>t n. source clk s = Some (t, n) \<and> wf_stream t
    \<and> (n = NextWait \<longrightarrow> 0 < sm_outstanding s)
    \<and> (n = NextDone \<longrightarrow> sm_outstanding t = 0 \<and> sm_due t = [] \<and> sm_held t = [])"
proof -
  from candidate_in_hand [OF assms] obtain t c where c: "candidate clk s = Some (t, c)"
    "sm_outstanding t = sm_outstanding s"
    "case c of None \<Rightarrow> wf_stream t \<and> sm_due t = [] \<and> sm_held t = [] | Some r \<Rightarrow> in_hand t r" by blast
  show ?thesis
  proof (cases c)
    case None
    then show ?thesis using c by (auto simp: source_def)
  next
    case (Some r)
    obtain u q where o: "owed_first t r = (u, q)" by fastforce
    have "in_hand t r" using c(3) Some by simp
    note u = owed_first_in_hand [OF this o]
    obtain v n where v: "hand_out u q = (v, n)" by fastforce
    note h = hand_out_wf [OF u(1,2) v]
    have "source clk s = Some (v, n)" using c(1) Some o v by (simp add: source_def)
    moreover have "n \<noteq> NextDone" using h(3) by (cases n) auto
    ultimately show ?thesis using h c(2) u(3) by auto
  qed
qed


section \<open>finish keeps it\<close>

lemma same_io_simps:
  assumes "same_io f r"
  shows "is_read_back f = is_read_back r" "req_write f = req_write r" "clash s f = clash s r"
  using assms by (auto simp: same_io_def is_read_back_def clash_def conflict_def fun_eq_iff)

lemma land_in_flight:
  assumes wf: "wf_stream s" and out: "0 < sm_outstanding s"
    and r: "sm_read_back s \<Longrightarrow> r \<in> set (sm_in_flight s)"
  obtains fl where "land r s = Inr (s\<lparr>sm_outstanding := sm_outstanding s - 1, sm_in_flight := fl\<rparr>)"
    "sm_read_back s \<Longrightarrow> \<exists>f. same_io f r \<and> mset (sm_in_flight s) = add_mset f (mset fl)"
    "\<not> sm_read_back s \<Longrightarrow> fl = []"
proof (cases "sm_read_back s")
  case True
  then have "position_of (\<lambda>f. same_io f r) (sm_in_flight s) \<noteq> None"
    using r by (auto simp: position_of_None same_io_def)
  then obtain i where i: "position_of (\<lambda>f. same_io f r) (sm_in_flight s) = Some i" by auto
  note p = position_of_Some [OF i]
  show ?thesis
  proof (rule that)
    show "land r s = Inr (s\<lparr>sm_outstanding := sm_outstanding s - 1, sm_in_flight := swap_remove i (sm_in_flight s)\<rparr>)"
      using True i out by (simp add: land_def)
    show "\<exists>f. same_io f r \<and> mset (sm_in_flight s) = add_mset f (mset (swap_remove i (sm_in_flight s)))"
      using p mset_swap_remove [of i "sm_in_flight s"] by blast
  qed (use True in simp)
next
  case False
  have fl: "sm_in_flight s = []" using False wf by (simp add: wf_stream_def stream_core_def)
  have "s\<lparr>sm_outstanding := sm_outstanding s - 1, sm_in_flight := sm_in_flight s\<rparr>
      = s\<lparr>sm_outstanding := sm_outstanding s - 1\<rparr>" by simp
  then show ?thesis using that [of "sm_in_flight s"] False out fl by (simp add: land_def)
qed

lemma stats_complete_writes:
  "st_completed_writes (stats_complete st r m) = st_completed_writes st + (if req_write r then 1 else 0)"
  "st_verified (stats_complete st r m) = st_verified st"
  by (simp_all add: stats_complete_def Let_def)

lemma count_incorrect_kept:
  "st_completed_writes (count_incorrect st x) = st_completed_writes st"
  "st_verified (count_incorrect st x) = st_verified st"
  by (simp_all add: count_incorrect_def Let_def)

lemma size_counts:
  assumes "mset xs = add_mset f (mset ys)"
  shows "read_backs xs = read_backs ys + (if is_read_back f then 1 else 0)"
    "writes_in xs = writes_in ys + (if req_write f then 1 else 0)" "length xs = Suc (length ys)"
    "set xs = insert f (set ys)"
  using assms by (auto simp: read_backs_def writes_in_def dest: mset_eq_setD arg_cong [of _ _ size] arg_cong [of _ _ set_mset])

text \<open>What never changes in a run.\<close>

definition same_setup :: "stream \<Rightarrow> stream \<Rightarrow> bool" where
  "same_setup s t \<longleftrightarrow> sm_read_back t = sm_read_back s \<and> sm_race t = sm_race s \<and> sm_work t = sm_work s
     \<and> sm_limit t = sm_limit s \<and> sm_byte_limit t = sm_byte_limit s \<and> sm_lo t = sm_lo s \<and> sm_hi t = sm_hi s"

lemma same_setup_refl [simp]: "same_setup s s"
  by (simp add: same_setup_def)

lemma same_setup_trans: "same_setup s t \<Longrightarrow> same_setup t u \<Longrightarrow> same_setup s u"
  by (simp add: same_setup_def)

text \<open>What \<open>finish\<close> does to the lists and the counters.\<close>

lemma finish_Inr:
  assumes "land r s = Inr t"
  shows "\<exists>u. finish clk buffer r s = Inr u \<and> same_setup t u \<and> sm_index u = sm_index t
    \<and> sm_in_flight u = sm_in_flight t \<and> sm_outstanding u = sm_outstanding t \<and> sm_held u = sm_held t
    \<and> sm_generated u = sm_generated t \<and> sm_read_back u = sm_read_back t \<and> sm_race u = sm_race t
    \<and> clash u = clash t \<and> compatible u = compatible t
    \<and> sm_due u = sm_due t @ (if req_write r \<and> sm_read_back t \<and> \<not> sm_race t then [read_back_of r] else [])
    \<and> st_verified (sm_stats u) = st_verified (sm_stats t) + (if is_read_back r then 1 else 0)
    \<and> st_completed_writes (sm_stats u) = st_completed_writes (sm_stats t) + (if req_write r then 1 else 0)"
  using assms
  by (simp add: finish_def Let_def stats_complete_writes count_incorrect_kept is_read_back_def same_setup_def)

lemma finish_wf:
  assumes wf: "wf_stream s" and out: "0 < sm_outstanding s"
    and r: "sm_read_back s \<Longrightarrow> r \<in> set (sm_in_flight s)"
  shows "\<exists>u. finish clk buffer r s = Inr u \<and> wf_stream u"
proof -
  from wf out r obtain fl where t: "land r s = Inr (s\<lparr>sm_outstanding := sm_outstanding s - 1, sm_in_flight := fl\<rparr>)"
    and rb: "sm_read_back s \<Longrightarrow> \<exists>f. same_io f r \<and> mset (sm_in_flight s) = add_mset f (mset fl)"
    and nrb: "\<not> sm_read_back s \<Longrightarrow> fl = []" by (rule land_in_flight) blast+
  have core: "stream_core s" and bal: "balanced 0 s" and held: "held_ok s"
    and free: "\<forall>x\<in>set (sm_held s). is_read_back x \<longrightarrow> (\<forall>f\<in>set (sm_in_flight s). \<not> clash s x f)"
    using wf by (auto simp: wf_stream_def)
  define owed where "owed = (if req_write r \<and> sm_read_back s \<and> \<not> sm_race s then [read_back_of r] else [])"
  from finish_Inr [OF t] obtain u where fin: "finish clk buffer r s = Inr u" and
    u: "sm_in_flight u = fl" "sm_outstanding u = sm_outstanding s - 1" "sm_held u = sm_held s"
      "sm_generated u = sm_generated s" "sm_read_back u = sm_read_back s" "sm_race u = sm_race s"
      "clash u = clash s" "compatible u = compatible s" "sm_due u = sm_due s @ owed"
      "st_verified (sm_stats u) = st_verified (sm_stats s) + (if is_read_back r then 1 else 0)"
      "st_completed_writes (sm_stats u) = st_completed_writes (sm_stats s) + (if req_write r then 1 else 0)"
    by (auto simp: owed_def)
  have "wf_stream u"
  proof (cases "sm_read_back s")
    case False
    then show ?thesis
      using core bal held nrb by (auto simp: wf_stream_def stream_core_def held_ok_def balanced_def u owed_def)
  next
    case True
    from rb [OF True] obtain f where f: "same_io f r" and ms: "mset (sm_in_flight s) = add_mset f (mset fl)"
      by blast
    note io = same_io_simps [OF f] and ct = size_counts [OF ms]
    have comp: "compatible s (add_mset f (mset fl))" using core ms by (simp add: stream_core_def)
    have clear: "\<not> clash s (read_back_of r) g" if "req_write r" "g \<in> set fl" for g
      using compatible_add_elem [OF comp, of g] that io clash_read_back_of by auto
    have "stream_core u"
      using core comp clear True ct io
      by (auto simp: stream_core_def u owed_def intro: compatible_subset split: if_splits)
    moreover have "balanced 0 u"
      using bal True ct io
      by (auto simp: balanced_def u owed_def not_read_back_write is_read_back_def split: if_splits)
    moreover have "held_ok u" using held by (simp add: held_ok_def u)
    ultimately show ?thesis using free ct by (auto simp: wf_stream_def u)
  qed
  with fin show ?thesis by blast
qed

lemma stream_reaches_wf: "stream_reaches s0 s \<Longrightarrow> wf_stream s0 \<Longrightarrow> wf_stream s"
proof (induction rule: stream_reaches.induct)
  case (asked s clk s' n)
  then show ?case using source_wf [of s clk] by auto
next
  case (completed s r clk buffer s')
  then show ?case using finish_wf [of s r clk buffer] by auto
qed

lemma stream_new_wf:
  assumes "po_entries generated \<noteq> []"
  shows "wf_stream (stream_new generated w template seed verify endpoints duration limit bytes lo hi)"
  using assms
  by (simp add: stream_new_def wf_stream_def stream_core_def held_ok_def balanced_def compatible_def
      stats_default_def Let_def)

section \<open>The range of the requests\<close>

text \<open>
  The invariant of the requests: the index stays within the limit of a plan workload, and a property
  \<open>Q\<close> of everything the table (kept in \<open>P\<close>) can return holds of every request on its way.
\<close>

definition requests_ok :: "(positions \<Rightarrow> bool) \<Rightarrow> (request \<Rightarrow> bool) \<Rightarrow> stream \<Rightarrow> bool" where
  "requests_ok P Q s \<longleftrightarrow> P (sm_generated s)
     \<and> (\<forall>r\<in>set (sm_in_flight s) \<union> set (sm_due s) \<union> set (sm_held s). Q r)
     \<and> (\<forall>n. sm_limit s = Some n \<and> \<not> wl_write_verify (sm_work s) \<longrightarrow> sm_index s \<le> n)"

definition loop_ok :: "(positions \<Rightarrow> bool) \<Rightarrow> (request \<Rightarrow> bool) \<Rightarrow> stream \<Rightarrow> stream \<times> request option \<Rightarrow> bool" where
  "loop_ok P Q s y \<longleftrightarrow> same_setup s (fst y)
     \<and> (\<not> wl_write_verify (sm_work s) \<and> requests_ok P Q s \<longrightarrow> requests_ok P Q (fst y) \<and> pred_option Q (snd y))"

lemma plan_loop_ok:
  assumes get: "\<And>p i p' r. P p \<Longrightarrow> positions_get p i = (p', r) \<Longrightarrow> P p' \<and> Q r"
    and run: "plan_loop s = Some y"
  shows "loop_ok P Q s y"
proof (rule plan_loop.raw_induct [OF _ run])
  fix loop s y
  assume IH: "\<And>s y. loop s = Some y \<Longrightarrow> loop_ok P Q s y"
    and step: "(if limit_reached s then Some (s, None)
      else let (g, r) = positions_get (sm_generated s) (sm_index s);
               s = s\<lparr>sm_generated := g, sm_index := sm_index s + 1\<rparr>
           in if \<not> req_verify r \<or> req_write r then Some (s, Some r) else loop s) = Some y"
  show "loop_ok P Q s y"
  proof (cases "limit_reached s")
    case True
    then have "y = (s, None)" using step by simp
    then show ?thesis by (simp add: loop_ok_def)
  next
    case False
    obtain g r where g: "positions_get (sm_generated s) (sm_index s) = (g, r)" by fastforce
    let ?t = "s\<lparr>sm_generated := g, sm_index := sm_index s + 1\<rparr>"
    have y: "(if \<not> req_verify r \<or> req_write r then Some (?t, Some r) else loop ?t) = Some y"
      using step False g by (auto simp: Let_def split: if_splits)
    have lim: "sm_index s < n" if "sm_limit s = Some n" "\<not> wl_write_verify (sm_work s)" for n
      using False that by (auto simp: limit_reached_def ops_def)
    have t: "requests_ok P Q ?t \<and> Q r" if "requests_ok P Q s" "\<not> wl_write_verify (sm_work s)"
      using that get [OF _ g] lim by (auto simp: requests_ok_def Suc_le_eq)
    show ?thesis
    proof (cases "\<not> req_verify r \<or> req_write r")
      case True
      then have "y = (?t, Some r)" using y by simp
      then show ?thesis using t by (auto simp: loop_ok_def same_setup_def)
    next
      case False
      then have "loop_ok P Q ?t y" using y IH by simp
      then show ?thesis using t by (auto simp: loop_ok_def same_setup_def)
    qed
  qed
qed


text \<open>A table and a range in which write-verify's own requests also satisfy \<open>Q\<close>.\<close>

definition plan_ok :: "(positions \<Rightarrow> bool) \<Rightarrow> (request \<Rightarrow> bool) \<Rightarrow> stream \<Rightarrow> bool" where
  "plan_ok P Q s \<longleftrightarrow> (\<forall>p i p' r. P p \<longrightarrow> positions_get p i = (p', r) \<longrightarrow> P p' \<and> Q r)
     \<and> (\<forall>r. Q r \<longrightarrow> Q (read_back_of r))
     \<and> (wl_write_verify (sm_work s) \<longrightarrow> (\<forall>k < max ((sm_hi s - sm_lo s) div wl_block (sm_work s)) 1.
          Q \<lparr>req_offset = sm_lo s + k * wl_block (sm_work s), req_len = wl_block (sm_work s), req_write = True,
             req_verify = False, req_seed = 0, req_state = 0\<rparr>))"

lemma write_verify_index_bound:
  "write_verify_index w blocks n state = (n', state', k) \<Longrightarrow> 0 < blocks \<Longrightarrow> k < blocks"
  by (auto simp: write_verify_index_def Let_def split: if_splits)

lemma plan_request_ok:
  assumes q: "plan_ok P Q s" and ok: "requests_ok P Q s" and p: "plan_request s = Some (t, c)"
  shows "same_setup s t \<and> requests_ok P Q t \<and> pred_option Q c"
proof (cases "wl_write_verify (sm_work s)")
  case True
  define block where "block = wl_block (sm_work s)"
  define blocks where "blocks = max ((sm_hi s - sm_lo s) div block) 1"
  obtain n state k where i: "write_verify_index (sm_work s) blocks (sm_wv_count s) (sm_wv_state s) = (n, state, k)"
    by (metis prod_cases3)
  have "t = s\<lparr>sm_wv_count := n, sm_wv_state := state\<rparr>" and
    c: "c = Some \<lparr>req_offset = sm_lo s + k * block, req_len = block, req_write = True, req_verify = False,
      req_seed = 0, req_state = 0\<rparr>"
    using p True i by (auto simp: plan_request_def block_def blocks_def Let_def)
  moreover have "k < blocks" using write_verify_index_bound [OF i] by (simp add: blocks_def)
  ultimately show ?thesis
    using q True ok by (auto simp: plan_ok_def requests_ok_def same_setup_def block_def blocks_def)
next
  case False
  then have "plan_loop s = Some (t, c)" using p by (simp add: plan_request_def)
  from plan_loop_ok [OF _ this, of P Q] q have "loop_ok P Q s (t, c)" by (auto simp: plan_ok_def)
  then show ?thesis using ok False by (simp add: loop_ok_def)
qed

lemma plan_ok_same_setup: "same_setup s t \<Longrightarrow> plan_ok P Q t = plan_ok P Q s"
  by (simp add: same_setup_def plan_ok_def)

lemma candidate_ok:
  assumes q: "plan_ok P Q s" and ok: "requests_ok P Q s" and c: "candidate clk s = Some (t, c)"
  shows "same_setup s t \<and> requests_ok P Q t \<and> pred_option Q c"
proof (cases "sm_held s = []")
  case False
  then have "t = s\<lparr>sm_held := butlast (sm_held s)\<rparr>" "c = Some (last (sm_held s))" using c by (auto simp: candidate_def)
  then show ?thesis using ok False by (auto simp: requests_ok_def same_setup_def dest: in_set_butlastD)
next
  case held: True
  show ?thesis
  proof (cases "sm_due s")
    case (Cons d ds)
    then have "t = s\<lparr>sm_due := ds\<rparr>" "c = Some d" using c held by (auto simp: candidate_def)
    then show ?thesis using ok Cons by (auto simp: requests_ok_def same_setup_def)
  next
    case Nil
    then have "if stopped clk s then (t, c) = (s, None) else plan_request s = Some (t, c)"
      using c held by (auto simp: candidate_def)
    then show ?thesis using plan_request_ok [OF q ok] ok by (cases "stopped clk s") auto
  qed
qed

lemma owed_first_ok:
  assumes "requests_ok P Q s" and "Q r" and "owed_first s r = (t, q)"
  shows "same_setup s t \<and> requests_ok P Q t \<and> Q q"
proof (cases "req_write r \<and> take_first (gates s r) (sm_due s) \<noteq> None")
  case False
  then have "t = s" "q = r" using assms(3) by (auto simp: owed_first_def split: option.splits if_splits)
  then show ?thesis using assms by simp
next
  case True
  then obtain d rest where d: "take_first (gates s r) (sm_due s) = Some (d, rest)" by auto
  from take_first_Some [OF this] have "set (sm_due s) = insert d (set rest)"
    by (metis set_mset_mset set_mset_add_mset_insert)
  moreover have "t = s\<lparr>sm_held := sm_held s @ [r], sm_due := rest\<rparr>" "q = d"
    using assms(3) True d by (auto simp: owed_first_def)
  ultimately show ?thesis using assms by (auto simp: requests_ok_def same_setup_def)
qed

lemma plan_ok_read_back: "plan_ok P Q s \<Longrightarrow> Q r \<Longrightarrow> Q (read_back_of r)"
  by (simp add: plan_ok_def)

lemma hand_out_ok:
  assumes q: "plan_ok P Q s" and ok: "requests_ok P Q s" and r: "Q r" and h: "hand_out s r = (t, n)"
  shows "same_setup s t \<and> requests_ok P Q t \<and> (\<forall>q. n = NextRequest q \<longrightarrow> Q q)"
proof -
  have "Q (read_back_of r)" using q r by (rule plan_ok_read_back)
  then have "requests_ok P Q t" using h ok r
    by (auto simp: hand_out_def requests_ok_def split: if_splits)
  moreover have "same_setup s t" "\<forall>q. n = NextRequest q \<longrightarrow> Q q"
    using h r by (auto simp: hand_out_def same_setup_def split: if_splits)
  ultimately show ?thesis by blast
qed

lemma source_ok:
  assumes q: "plan_ok P Q s" and ok: "requests_ok P Q s" and s: "source clk s = Some (t, n)"
  shows "same_setup s t \<and> requests_ok P Q t \<and> (\<forall>r. n = NextRequest r \<longrightarrow> Q r)"
proof -
  from s obtain u c where c: "candidate clk s = Some (u, c)"
    and n: "(case c of None \<Rightarrow> (u, if sm_outstanding u = 0 then NextDone else NextWait)
       | Some r \<Rightarrow> (case owed_first u r of (s, r) \<Rightarrow> hand_out s r)) = (t, n)"
    by (auto simp: source_def)
  note u = candidate_ok [OF q ok c]
  show ?thesis
  proof (cases c)
    case None
    then show ?thesis using n u by (auto split: if_splits)
  next
    case (Some r)
    obtain v x where o: "owed_first u r = (v, x)" by fastforce
    have v: "same_setup u v \<and> requests_ok P Q v \<and> Q x" using owed_first_ok [of P Q, OF _ _ o] u Some by simp
    then have sv: "same_setup s v" using u same_setup_trans by blast
    have "hand_out v x = (t, n)" using n Some o by simp
    from hand_out_ok [OF _ _ _ this] v sv plan_ok_same_setup [OF sv] q show ?thesis
      using same_setup_trans by blast
  qed
qed

lemma finish_ok:
  assumes wf: "wf_stream s" and out: "0 < sm_outstanding s"
    and r: "sm_read_back s \<Longrightarrow> r \<in> set (sm_in_flight s)"
    and q: "plan_ok P Q s" and ok: "requests_ok P Q s" and f: "finish clk buffer r s = Inr u"
  shows "same_setup s u \<and> requests_ok P Q u"
proof -
  from wf out r obtain fl where t: "land r s = Inr (s\<lparr>sm_outstanding := sm_outstanding s - 1, sm_in_flight := fl\<rparr>)"
    and rb: "sm_read_back s \<Longrightarrow> \<exists>f. same_io f r \<and> mset (sm_in_flight s) = add_mset f (mset fl)"
    and nrb: "\<not> sm_read_back s \<Longrightarrow> fl = []" by (rule land_in_flight) blast+
  have "set fl \<subseteq> set (sm_in_flight s)"
    using rb nrb size_counts(4) by (cases "sm_read_back s") auto
  moreover have "Q r" if "sm_read_back s" using r ok that by (simp add: requests_ok_def)
  then have "Q (read_back_of r)" if "sm_read_back s" using plan_ok_read_back [OF q] that by simp
  ultimately show ?thesis
    using finish_Inr [OF t, of clk buffer] f ok
    by (cases "sm_read_back s") (auto simp: requests_ok_def same_setup_def split: if_splits)
qed

lemma stream_reaches_ok:
  assumes "stream_reaches s0 s" and "wf_stream s0" and "plan_ok P Q s0" and "requests_ok P Q s0"
  shows "wf_stream s \<and> same_setup s0 s \<and> requests_ok P Q s \<and> plan_ok P Q s"
  using assms
proof (induction rule: stream_reaches.induct)
  case (asked s clk s' n)
  then have s: "wf_stream s" "same_setup s0 s" "requests_ok P Q s" "plan_ok P Q s" by auto
  have "same_setup s s' \<and> requests_ok P Q s'" using source_ok [OF s(4,3) asked.hyps(2)] by blast
  moreover have "wf_stream s'" using source_wf [OF s(1), of clk] asked.hyps(2) by auto
  ultimately show ?case using same_setup_trans [OF s(2)] plan_ok_same_setup s(4) by blast
next
  case (completed s r clk buffer s')
  then have s: "wf_stream s" "same_setup s0 s" "requests_ok P Q s" "plan_ok P Q s" by auto
  have "same_setup s s' \<and> requests_ok P Q s'"
    using finish_ok [OF s(1) completed.hyps(2,3) s(4,3) completed.hyps(4)] .
  moreover have "wf_stream s'" using finish_wf [OF s(1) completed.hyps(2,3), of clk buffer] completed.hyps(4) by auto
  ultimately show ?case using same_setup_trans [OF s(2)] plan_ok_same_setup s(4) by blast
qed simp



section \<open>Properties\<close>

text \<open>
  C1: conflicting transfers are not in flight together. In every state the backend can reach with
  read-backs on, two requests in flight of which one writes have disjoint extents, and no write in flight
  touches an extent whose read-back is still owed or held, so a read-back sees the write it checks and
  nothing newer. The only exception is a racing run, which write-verify race starts over more than one
  endpoint: there a read-back and a write may overlap, and still no two writes and no plain read and a
  write.
\<close>

theorem stream_no_conflict:
  assumes "stream_reaches (stream_new generated w template seed verify endpoints duration limit bytes lo hi) s"
    and "po_entries generated \<noteq> []" and "sm_read_back s"
  shows "(\<forall>a b. {#a, b#} \<subseteq># mset (sm_in_flight s) \<longrightarrow> conflict a b
       \<longrightarrow> sm_race s \<and> (is_read_back a \<and> req_write b \<or> is_read_back b \<and> req_write a))
    \<and> (\<forall>d\<in>set (sm_due s) \<union> {x\<in>set (sm_held s). is_read_back x}. \<forall>f\<in>set (sm_in_flight s).
         conflict d f \<longrightarrow> sm_race s \<and> is_read_back d \<and> req_write f)
    \<and> (sm_race s \<longrightarrow> wl_write_verify_race w \<and> 1 < endpoints)"
proof -
  let ?s0 = "stream_new generated w template seed verify endpoints duration limit bytes lo hi"
  have wf: "wf_stream s" using stream_reaches_wf [OF assms(1)] stream_new_wf [OF assms(2)] by blast
  have "plan_ok (\<lambda>_. True) (\<lambda>_. True) ?s0" "requests_ok (\<lambda>_. True) (\<lambda>_. True) ?s0"
    by (simp_all add: plan_ok_def requests_ok_def stream_new_def Let_def)
  then have "same_setup ?s0 s" using stream_reaches_ok [OF assms(1) stream_new_wf [OF assms(2)]] by blast
  then have "sm_race s \<longrightarrow> wl_write_verify_race w \<and> 1 < endpoints"
    by (simp add: same_setup_def stream_new_def Let_def)
  moreover have "is_read_back d" if "d \<in> set (sm_due s) \<union> {x\<in>set (sm_held s). is_read_back x}" for d
    using that wf by (auto simp: wf_stream_def stream_core_def)
  moreover have "\<not> (is_read_back d \<and> req_write d)" for d by (simp add: is_read_back_def)
  ultimately show ?thesis using wf
    unfolding wf_stream_def stream_core_def compatible_def clash_def by blast
qed

definition example_stream :: stream where
  "example_stream = stream_new example_table (po_work example_table) [] 7 False 1 None None None 4096 24576"

lemma example_stream_simps:
  "sm_read_back example_stream" "\<not> sm_race example_stream" "sm_held example_stream = []"
  "sm_due example_stream = []" "sm_outstanding example_stream = 0" "sm_in_flight example_stream = []"
  by (simp_all add: example_stream_def stream_new_def example_table_def workload_default_def Let_def)

definition example_clock :: clock where
  "example_clock = \<lparr>ck_interrupted = False, ck_elapsed = 0\<rparr>"

lemma example_two_in_flight:
  "case source example_clock example_stream of Some (s, n) \<Rightarrow>
     (case source example_clock s of
        Some (t, m) \<Rightarrow> length (sm_in_flight t) = 2 \<and> sm_read_back t \<and> \<not> sm_race t
      | None \<Rightarrow> False)
   | None \<Rightarrow> False"
  by code_simp

theorem stream_no_conflict_witness:
  "\<exists>s n t m. source example_clock example_stream = Some (s, n) \<and> source example_clock s = Some (t, m)
    \<and> length (sm_in_flight t) = 2 \<and> (\<forall>a b. {#a, b#} \<subseteq># mset (sm_in_flight t) \<longrightarrow> \<not> conflict a b)"
proof -
  from example_two_in_flight obtain s n t m
    where s: "source example_clock example_stream = Some (s, n)" and t: "source example_clock s = Some (t, m)"
      and r: "length (sm_in_flight t) = 2" "sm_read_back t" "\<not> sm_race t"
    by (auto split: option.splits)
  have "stream_reaches example_stream t" by (rule asked [OF asked [OF start s] t])
  from stream_no_conflict [OF this [unfolded example_stream_def] example_table_simps(2) r(2)] s t r
  show ?thesis by blast
qed

text \<open>
  C3: a stream never gets stuck. In every state the backend can reach, asking for a request returns; the
  answer is only to wait while something is in flight; and completing any request that is in flight
  succeeds.
\<close>

theorem stream_never_stuck:
  assumes "stream_reaches (stream_new generated w template seed verify endpoints duration limit bytes lo hi) s"
    and "po_entries generated \<noteq> []"
  shows "(\<exists>t n. source clk s = Some (t, n) \<and> (n = NextWait \<longrightarrow> 0 < sm_outstanding s))
    \<and> (\<forall>r. 0 < sm_outstanding s \<and> (sm_read_back s \<longrightarrow> r \<in> set (sm_in_flight s))
         \<longrightarrow> is_ok (finish clk buffer r s))"
proof -
  have wf: "wf_stream s" using stream_reaches_wf [OF assms(1)] stream_new_wf [OF assms(2)] by blast
  have "is_ok (finish clk buffer r s)" if "0 < sm_outstanding s" "sm_read_back s \<longrightarrow> r \<in> set (sm_in_flight s)" for r
    using finish_wf [OF wf that(1), of r clk buffer] that(2) by (auto simp: is_ok_def)
  then show ?thesis using source_wf [OF wf, of clk] by blast
qed

theorem stream_never_stuck_witness:
  "\<exists>t n. source \<lparr>ck_interrupted = False, ck_elapsed = 0\<rparr> example_stream = Some (t, n) \<and> n \<noteq> NextWait"
  using stream_never_stuck [OF start, of example_table "\<lparr>ck_interrupted = False, ck_elapsed = 0\<rparr>"
      "po_work example_table" "[]" 7 False 1 None None None 4096 24576]
    example_table_simps example_stream_simps(5)
  unfolding example_stream_def [symmetric] by fastforce

text \<open>
  C2: the run ends only when every write has been checked. When the source answers that it is done,
  nothing is outstanding, owed or held; with read-backs on, nothing is in flight either and the number of
  verified blocks is the number of completed writes.
\<close>

theorem stream_done_all_verified:
  assumes "stream_reaches (stream_new generated w template seed verify endpoints duration limit bytes lo hi) s"
    and "po_entries generated \<noteq> []" and "source clk s = Some (t, NextDone)"
  shows "sm_outstanding t = 0 \<and> sm_due t = [] \<and> sm_held t = []
    \<and> (sm_read_back t \<longrightarrow> sm_in_flight t = [] \<and> st_verified (sm_stats t) = st_completed_writes (sm_stats t))"
proof -
  have "wf_stream s" using stream_reaches_wf [OF assms(1)] stream_new_wf [OF assms(2)] by blast
  from source_wf [OF this, of clk] assms(3)
  have "wf_stream t" "sm_outstanding t = 0" "sm_due t = []" "sm_held t = []" by auto
  then show ?thesis by (auto simp: wf_stream_def stream_core_def balanced_def split: if_splits)
qed

lemma case_handed_out:
  assumes "case x of Some (s, NextRequest r) \<Rightarrow> P s r | _ \<Rightarrow> False"
  obtains s r where "x = Some (s, NextRequest r)" "P s r"
  using assms by (cases x) (auto split: next_request.splits)

lemma case_finished:
  assumes "case x of Inr t \<Rightarrow> P t | _ \<Rightarrow> False"
  obtains t where "x = Inr t" "P t"
  using assms by (cases x) auto

text \<open>A write and its read-back, handed out after the write completed.\<close>

lemma example_run_read_back:
  "case source example_clock example_stream of Some (s, NextRequest w) \<Rightarrow>
     req_write w \<and> w \<in> set (sm_in_flight s) \<and> 0 < sm_outstanding s
     \<and> (case finish example_clock [] w s of Inr t \<Rightarrow>
          (case source example_clock t of Some (u, NextRequest r) \<Rightarrow>
             is_read_back r \<and> sm_in_flight u = [r] \<and> sm_outstanding u = 1 \<and> sm_due u = [] \<and> sm_held u = []
             \<and> sm_read_back u \<and> st_completed_writes (sm_stats u) = 1
           | _ \<Rightarrow> False)
        | _ \<Rightarrow> False)
   | _ \<Rightarrow> False"
  by code_simp

theorem stream_done_all_verified_witness:
  "\<exists>u r v z. stream_reaches example_stream u \<and> is_read_back r
    \<and> finish example_clock (fill (replicate 4096 0) 4096 7) r u = Inr v
    \<and> source (example_clock\<lparr>ck_interrupted := True\<rparr>) v = Some (z, NextDone)
    \<and> st_completed_writes (sm_stats z) = 1 \<and> st_verified (sm_stats z) = 1"
proof -
  from example_run_read_back obtain s w where s: "source example_clock example_stream = Some (s, NextRequest w)"
      "w \<in> set (sm_in_flight s)" "0 < sm_outstanding s"
    and c: "case finish example_clock [] w s of Inr t \<Rightarrow>
          (case source example_clock t of Some (u, NextRequest r) \<Rightarrow>
             is_read_back r \<and> sm_in_flight u = [r] \<and> sm_outstanding u = 1 \<and> sm_due u = [] \<and> sm_held u = []
             \<and> sm_read_back u \<and> st_completed_writes (sm_stats u) = 1
           | _ \<Rightarrow> False)
        | _ \<Rightarrow> False" by (rule case_handed_out) blast
  from c obtain t where t: "finish example_clock [] w s = Inr t"
    and c: "case source example_clock t of Some (u, NextRequest r) \<Rightarrow>
             is_read_back r \<and> sm_in_flight u = [r] \<and> sm_outstanding u = 1 \<and> sm_due u = [] \<and> sm_held u = []
             \<and> sm_read_back u \<and> st_completed_writes (sm_stats u) = 1
           | _ \<Rightarrow> False" by (rule case_finished) blast
  from c obtain u r where u: "source example_clock t = Some (u, NextRequest r)" "is_read_back r"
      "sm_in_flight u = [r]" "sm_outstanding u = 1" "sm_due u = []" "sm_held u = []" "sm_read_back u"
      "st_completed_writes (sm_stats u) = 1" by (rule case_handed_out) blast
  have ru: "stream_reaches example_stream u"
    by (rule asked [OF completed [OF asked [OF start s(1)] s(3,2) t] u(1)])
  have "land r u = Inr (u\<lparr>sm_outstanding := 0, sm_in_flight := []\<rparr>)"
    using u by (simp add: land_def same_io_def swap_remove_def)
  from finish_Inr [OF this, of example_clock "fill (replicate 4096 0) 4096 7"] obtain v
    where v: "finish example_clock (fill (replicate 4096 0) 4096 7) r u = Inr v" "sm_outstanding v = 0"
      "sm_due v = []" "sm_held v = []" "sm_read_back v" "st_completed_writes (sm_stats v) = 1"
    using u by (auto simp: is_read_back_def)
  have rv: "stream_reaches example_stream v" by (rule completed [OF ru _ _ v(1)]) (use u in auto)
  have z: "source (example_clock\<lparr>ck_interrupted := True\<rparr>) v = Some (v, NextDone)"
    using v by (simp add: source_def candidate_def stopped_def)
  from stream_done_all_verified [OF rv [unfolded example_stream_def] example_table_simps(2) z] ru u v z
  show ?thesis by auto
qed




text \<open>
  C18: verification reports exactly the wrong blocks. Completing a read-back counts it as verified, and
  counts it as incorrect just when the bytes that came back are not the pattern of its offset and seed;
  the first sixteen offsets are kept.
\<close>

theorem finish_reports_wrong_blocks:
  assumes "finish clk buffer r s = Inr u" and "is_read_back r" and "sm_template s = fill (replicate 4096 0) 0 (sm_seed s)"
  shows "st_verified (sm_stats u) = st_verified (sm_stats s) + 1
    \<and> (if buffer = fill buffer (of_nat (req_offset r)) (payload_seed (sm_work s) (sm_seed s) r)
       then st_incorrect (sm_stats u) = st_incorrect (sm_stats s)
         \<and> st_incorrect_offsets (sm_stats u) = st_incorrect_offsets (sm_stats s)
       else st_incorrect (sm_stats u) = st_incorrect (sm_stats s) + 1
         \<and> (length (st_incorrect_offsets (sm_stats s)) < 16 \<longrightarrow>
              st_incorrect_offsets (sm_stats u) = st_incorrect_offsets (sm_stats s) @ [req_offset r]))"
proof -
  from assms(1) obtain t where t: "land r s = Inr t" by (auto simp: finish_def and_then_eq_Inr)
  then have same: "sm_stats t = sm_stats s" "sm_template t = sm_template s" "sm_seed t = sm_seed s" "sm_work t = sm_work s"
    by (auto simp: land_def Let_def split: if_splits option.splits)
  define st where "st = (if check_pattern buffer r (sm_work s) (sm_seed s) (sm_template s)
      then sm_stats s else count_incorrect (sm_stats s) (req_offset r))"
  have "st_verified (sm_stats u) = st_verified st + 1" "st_incorrect (sm_stats u) = st_incorrect st"
    "st_incorrect_offsets (sm_stats u) = st_incorrect_offsets st"
    using assms(1,2) t by (auto simp: finish_def Let_def same st_def stats_complete_def is_read_back_def split: if_splits)
  then show ?thesis
    using check_pattern_iff [OF assms(3), of buffer r "sm_work s"]
    by (simp add: st_def count_incorrect_kept count_incorrect_def incorrect_samples_def Let_def)
qed


definition example_read_back :: request where
  "example_read_back = request_default\<lparr>req_offset := 4096, req_len := 512, req_verify := True\<rparr>"

definition example_checking :: stream where
  "example_checking = example_stream\<lparr>sm_outstanding := 1, sm_in_flight := [example_read_back],
     sm_template := fill (replicate 4096 0) 0 7\<rparr>"

theorem finish_reports_wrong_blocks_witness:
  "\<exists>u. finish \<lparr>ck_interrupted = False, ck_elapsed = 0\<rparr> (fill (replicate 512 0) 4096 7) example_read_back
      example_checking = Inr u \<and> st_verified (sm_stats u) = 1 \<and> st_incorrect (sm_stats u) = 0"
proof -
  have rb: "is_read_back example_read_back" "req_offset example_read_back = 4096"
    by (simp_all add: example_read_back_def is_read_back_def request_default_def)
  have ex: "sm_seed example_checking = 7" "\<not> wl_unique (sm_work example_checking)"
    "st_verified (sm_stats example_checking) = 0" "st_incorrect (sm_stats example_checking) = 0"
    "sm_template example_checking = fill (replicate 4096 0) 0 (sm_seed example_checking)"
    by (simp_all add: example_checking_def example_stream_def stream_new_def example_table_def
        workload_default_def stats_default_def Let_def)
  have "is_ok (land example_read_back example_checking)"
    by (simp add: land_def example_checking_def example_stream_simps same_io_def)
  then obtain u where u: "finish \<lparr>ck_interrupted = False, ck_elapsed = 0\<rparr> (fill (replicate 512 0) 4096 7)
      example_read_back example_checking = Inr u"
    using finish_Inr by (fastforce simp: is_ok_def split: sum.splits)
  from finish_reports_wrong_blocks [OF u rb(1) ex(5)] ex rb u show ?thesis by (auto simp: payload_seed_def)
qed

end
