(* ===== verification/Lanes.thy ===== *)
theory Lanes
  imports Stream_Invariant
begin

unbundle bit_operations_syntax

text \<open>
  \<open>src/rust/src/paths/lanes.rs\<close>, \<open>paths/stats.rs\<close> and \<open>paths/mod.rs\<close>: which path each request of a
  multi-path run takes, the per-path counts and the \<open>TARGET,N\<close> syntax. The atomics of \<open>Lanes\<close> are read
  and written with relaxed order by one worker, so a state record passed along models them; the request
  counter and the seed keep their 64-bit width and latencies are natural numbers below \<open>2^64\<close>. The lemmas
  show that a usable path is found whenever there is one, that a verifying read avoids the path that
  wrote, and that round robin is fair.
\<close>

section \<open>Lanes\<close>

datatype policy = RoundRobin | ReverseRoundRobin | Random | Fastest

definition policy_parse :: "string \<Rightarrow> policy result" where
  "policy_parse text =
     (if text = ''rr'' \<or> text = ''round-robin'' then Inr RoundRobin
      else if text = ''rrr'' \<or> text = ''reverse-round-robin'' then Inr ReverseRoundRobin
      else if text = ''random'' then Inr Random
      else if text = ''fastest'' then Inr Fastest
      else Inl (Err (''--policy takes rr, rrr, random or fastest, not '' @ text)))"

definition tier_optimized :: nat where
  "tier_optimized = 0"

definition tier_non_optimized :: nat where
  "tier_non_optimized = 1"

definition tier_standby :: nat where
  "tier_standby = 2"

record lanes =
  ln_paths :: nat
  ln_policy :: policy
  ln_next :: u64
  ln_seed :: u64
  ln_latency_ns :: "nat list"
  ln_unavailable :: "bool list"
  ln_tier :: "nat list"

definition lanes_new :: "nat \<Rightarrow> policy \<Rightarrow> u64 \<Rightarrow> lanes result" where
  "lanes_new paths policy seed =
     (if paths = 0 then Inl (Err ''a workload needs at least one path'')
      else Inr \<lparr>ln_paths = paths, ln_policy = policy, ln_next = 0, ln_seed = max seed 1,
             ln_latency_ns = replicate paths 0, ln_unavailable = replicate paths False,
             ln_tier = replicate paths tier_optimized\<rparr>)"

text \<open>\<open>min_by_key\<close>: the first index with the least key.\<close>

fun min_by_key :: "(nat \<Rightarrow> nat) \<Rightarrow> nat list \<Rightarrow> nat option" where
  "min_by_key key [] = None"
| "min_by_key key (x # xs) =
     (case min_by_key key xs of None \<Rightarrow> Some x | Some y \<Rightarrow> Some (if key y < key x then y else x))"

definition fastest :: "lanes \<Rightarrow> nat" where
  "fastest l =
     (case find (\<lambda>i. ln_latency_ns l ! i = 0) [0..<ln_paths l] of
        Some unmeasured \<Rightarrow> unmeasured
      | None \<Rightarrow> (case min_by_key (\<lambda>i. ln_latency_ns l ! i) [0..<ln_paths l] of Some i \<Rightarrow> i | None \<Rightarrow> 0))"

text \<open>\<open>random\<close> is one \<open>xorshift\<close> step, the same as write-verify's.\<close>

definition pick :: "lanes \<Rightarrow> lanes \<times> nat" where
  "pick l =
     (case ln_policy l of
        RoundRobin \<Rightarrow> (l\<lparr>ln_next := ln_next l + 1\<rparr>, unat (ln_next l) mod ln_paths l)
      | ReverseRoundRobin \<Rightarrow>
          (l\<lparr>ln_next := ln_next l + 1\<rparr>, ln_paths l - 1 - unat (ln_next l) mod ln_paths l)
      | Random \<Rightarrow>
          (let x = xorshift (ln_seed l) in (l\<lparr>ln_seed := x\<rparr>, unat x mod ln_paths l))
      | Fastest \<Rightarrow> (l, fastest l))"

definition best_tier :: "lanes \<Rightarrow> nat option" where
  "best_tier l =
     (case map (\<lambda>i. ln_tier l ! i) (filter (\<lambda>i. \<not> ln_unavailable l ! i) [0..<ln_paths l]) of
        [] \<Rightarrow> None
      | t # ts \<Rightarrow> (let m = foldr min ts t in if m < tier_standby then Some m else None))"

definition is_usable :: "lanes \<Rightarrow> nat \<Rightarrow> bool" where
  "is_usable l path \<longleftrightarrow> \<not> ln_unavailable l ! path \<and> Some (ln_tier l ! path) = best_tier l"

definition usable_count :: "lanes \<Rightarrow> nat" where
  "usable_count l =
     length (filter (\<lambda>i. \<not> ln_unavailable l ! i \<and> Some (ln_tier l ! i) = best_tier l) [0..<ln_paths l])"

definition around :: "nat \<Rightarrow> nat \<Rightarrow> nat list" where
  "around start n = map (\<lambda>k. (start + k) mod n) [0..<n]"

definition pick_available :: "lanes \<Rightarrow> lanes \<times> nat option" where
  "pick_available l =
     (let (l, start) = pick l in (l, find (is_usable l) (around start (ln_paths l))))"

definition set_tier :: "nat \<Rightarrow> nat \<Rightarrow> lanes \<Rightarrow> lanes" where
  "set_tier path tier l = l\<lparr>ln_tier := (ln_tier l)[path := tier]\<rparr>"

definition pick_available_avoiding :: "nat \<Rightarrow> lanes \<Rightarrow> lanes \<times> nat option" where
  "pick_available_avoiding avoid l =
     (let (l, start) = (case ln_policy l of
            RoundRobin \<Rightarrow> (l, unat (ln_next l) mod ln_paths l)
          | ReverseRoundRobin \<Rightarrow> (l, ln_paths l - 1 - unat (ln_next l) mod ln_paths l)
          | _ \<Rightarrow> pick l)
      in case find (\<lambda>i. i \<noteq> avoid \<and> is_usable l i) (around start (ln_paths l)) of
           Some i \<Rightarrow> (l, Some i)
         | None \<Rightarrow> pick_available l)"

definition mark_available :: "nat \<Rightarrow> lanes \<Rightarrow> lanes" where
  "mark_available path l =
     l\<lparr>ln_unavailable := (ln_unavailable l)[path := False], ln_latency_ns := (ln_latency_ns l)[path := 0]\<rparr>"

definition mark_unavailable :: "nat \<Rightarrow> lanes \<Rightarrow> lanes" where
  "mark_unavailable path l =
     l\<lparr>ln_unavailable := (ln_unavailable l)[path := True],
       ln_latency_ns := (ln_latency_ns l)[path := 2 ^ 64 - 1]\<rparr>"

definition lanes_record :: "nat \<Rightarrow> nat \<Rightarrow> lanes \<Rightarrow> lanes" where
  "lanes_record path nanos l =
     (let old = ln_latency_ns l ! path;
          new = (if old = 0 then nanos else old - old div 8 + nanos div 8)
      in l\<lparr>ln_latency_ns := (ln_latency_ns l)[path := max new 1]\<rparr>)"

section \<open>Per-path counts\<close>

record path_stats =
  pt_reads :: nat
  pt_writes :: nat
  pt_bytes :: nat
  pt_nanos_total :: nat
  pt_nanos_max :: nat
  pt_failovers :: nat
  pt_disconnects :: nat
  pt_reconnects :: nat
  pt_inflight_max :: nat
  pt_alua :: "nat option"

definition path_stats_default :: path_stats where
  "path_stats_default = \<lparr>pt_reads = 0, pt_writes = 0, pt_bytes = 0, pt_nanos_total = 0, pt_nanos_max = 0,
     pt_failovers = 0, pt_disconnects = 0, pt_reconnects = 0, pt_inflight_max = 0, pt_alua = None\<rparr>"

definition alua_name :: "nat option \<Rightarrow> string" where
  "alua_name alua =
     (case alua of None \<Rightarrow> ''-''
      | Some t \<Rightarrow> if t = 0 then ''optimized'' else if t = 1 then ''non-optimized'' else ''standby'')"

definition stats_record :: "bool \<Rightarrow> nat \<Rightarrow> nat \<Rightarrow> path_stats \<Rightarrow> path_stats" where
  "stats_record write bytes nanos s =
     (let s = (if write then s\<lparr>pt_writes := pt_writes s + 1\<rparr> else s\<lparr>pt_reads := pt_reads s + 1\<rparr>)
      in s\<lparr>pt_bytes := pt_bytes s + bytes, pt_nanos_total := pt_nanos_total s + nanos,
           pt_nanos_max := max (pt_nanos_max s) nanos\<rparr>)"

definition stats_merge :: "path_stats \<Rightarrow> path_stats \<Rightarrow> path_stats" where
  "stats_merge other s =
     \<lparr>pt_reads = pt_reads s + pt_reads other, pt_writes = pt_writes s + pt_writes other,
      pt_bytes = pt_bytes s + pt_bytes other, pt_nanos_total = pt_nanos_total s + pt_nanos_total other,
      pt_nanos_max = max (pt_nanos_max s) (pt_nanos_max other),
      pt_failovers = pt_failovers s + pt_failovers other,
      pt_disconnects = pt_disconnects s + pt_disconnects other,
      pt_reconnects = pt_reconnects s + pt_reconnects other,
      pt_inflight_max = max (pt_inflight_max s) (pt_inflight_max other),
      pt_alua = (case pt_alua s of Some t \<Rightarrow> Some t | None \<Rightarrow> pt_alua other)\<rparr>"

definition is_idle :: "path_stats \<Rightarrow> bool" where
  "is_idle s \<longleftrightarrow> pt_reads s + pt_writes s + pt_failovers s + pt_disconnects s = 0"

text \<open>The totals of the run as the list the mutex guards.\<close>

fun record_totals :: "string \<Rightarrow> path_stats \<Rightarrow> (string \<times> path_stats) list \<Rightarrow> (string \<times> path_stats) list" where
  "record_totals label s [] = [(label, s)]"
| "record_totals label s ((l, t) # totals) =
     (if l = label then (l, stats_merge s t) # totals else (l, t) # record_totals label s totals)"

definition take_dump :: "nat \<Rightarrow> nat \<times> bool" where
  "take_dump n = (if n = 0 then (n, False) else (n - 1, True))"

section \<open>Connection counts\<close>

definition expand_connections :: "string \<Rightarrow> string list result" where
  "expand_connections text =
     and_then
       (case rsplit_once (\<lambda>c. c = CHR '','') text of
          Some (target, n) \<Rightarrow>
            (case parse_uint 64 n of
               None \<Rightarrow> Inl (Err (text @ '': the connection count after the comma is not a number''))
             | Some k \<Rightarrow> Inr (target, k))
        | None \<Rightarrow> Inr (text, 1))
       (\<lambda>(target, k).
          if \<not> (1 \<le> k \<and> k \<le> 64)
          then Inl (Err (text @ '': a target takes 1 to 64 connections, not '' @ show_nat k))
          else Inr (replicate k target))"


section \<open>Lemmas\<close>

definition wf_lanes :: "lanes \<Rightarrow> bool" where
  "wf_lanes l \<longleftrightarrow> 0 < ln_paths l \<and> length (ln_latency_ns l) = ln_paths l
     \<and> length (ln_unavailable l) = ln_paths l \<and> length (ln_tier l) = ln_paths l"

text \<open>The specification of a path that may take a request.\<close>

definition in_best_tier :: "lanes \<Rightarrow> nat \<Rightarrow> bool" where
  "in_best_tier l i \<longleftrightarrow> \<not> ln_unavailable l ! i \<and> ln_tier l ! i < tier_standby
     \<and> (\<forall>j < ln_paths l. \<not> ln_unavailable l ! j \<longrightarrow> ln_tier l ! i \<le> ln_tier l ! j)"

lemma foldr_min: "foldr min ts (t :: nat) \<in> insert t (set ts) \<and> (\<forall>x\<in>insert t (set ts). foldr min ts t \<le> x)"
  by (induction ts) (auto simp: min_def)

lemma best_tier_Some:
  "best_tier l = Some t \<longleftrightarrow> t < tier_standby \<and> (\<exists>i < ln_paths l. \<not> ln_unavailable l ! i \<and> ln_tier l ! i = t)
     \<and> (\<forall>j < ln_paths l. \<not> ln_unavailable l ! j \<longrightarrow> t \<le> ln_tier l ! j)"
proof (cases "map (\<lambda>i. ln_tier l ! i) (filter (\<lambda>i. \<not> ln_unavailable l ! i) [0..<ln_paths l])")
  case Nil
  then show ?thesis by (auto simp: best_tier_def filter_empty_conv)
next
  case (Cons x xs)
  have st: "insert x (set xs) = (\<lambda>i. ln_tier l ! i) ` {i. i < ln_paths l \<and> \<not> ln_unavailable l ! i}"
    using arg_cong [OF Cons, of set] by auto
  have "best_tier l = Some t \<longleftrightarrow> t < tier_standby \<and> foldr min xs x = t"
    unfolding best_tier_def Cons by (auto simp: Let_def)
  also have "foldr min xs x = t \<longleftrightarrow> t \<in> insert x (set xs) \<and> (\<forall>y\<in>insert x (set xs). t \<le> y)"
    using foldr_min [of xs x] by (metis order_antisym)
  finally show ?thesis unfolding st by auto
qed

lemma is_usable_iff: "i < ln_paths l \<Longrightarrow> is_usable l i \<longleftrightarrow> in_best_tier l i"
  by (auto simp: is_usable_def in_best_tier_def eq_commute [of "Some _"] best_tier_Some)

lemma best_tier_exists:
  assumes "i < ln_paths l" and "\<not> ln_unavailable l ! i" and "ln_tier l ! i < tier_standby"
  shows "\<exists>j < ln_paths l. in_best_tier l j"
proof -
  let ?A = "{j. j < ln_paths l \<and> \<not> ln_unavailable l ! j}"
  have "finite ?A" "?A \<noteq> {}" using assms by auto
  then obtain j where j: "j \<in> ?A" "\<forall>k\<in>?A. ln_tier l ! j \<le> ln_tier l ! k"
    using arg_min_if_finite(1) [of ?A "\<lambda>j. ln_tier l ! j"] arg_min_least [of ?A _ "\<lambda>j. ln_tier l ! j"] by blast
  then show ?thesis using assms by (auto simp: in_best_tier_def intro!: exI [of _ j] le_less_trans [of _ "ln_tier l ! i"])
qed

lemma set_around [simp]: "0 < n \<Longrightarrow> set (around start n) = {..<n}"
proof -
  assume n: "0 < n"
  have "\<exists>k < n. (start + k) mod n = i" if "i < n" for i
  proof -
    let ?k = "(i + (n - start mod n)) mod n"
    have "(start + ?k) mod n = (start mod n + (i + (n - start mod n))) mod n" by (simp add: mod_simps)
    also have "start mod n + (i + (n - start mod n)) = i + n" using mod_less_divisor [OF n, of start] by linarith
    finally show ?thesis using n that by (intro exI [of _ ?k]) simp
  qed
  then have "{..<n} \<subseteq> set (around start n)" by (fastforce simp: around_def)
  moreover have "set (around start n) \<subseteq> {..<n}" using n by (auto simp: around_def)
  ultimately show ?thesis by blast
qed

lemma find_append: "find P (xs @ ys) = (case find P xs of None \<Rightarrow> find P ys | Some x \<Rightarrow> Some x)"
  by (induction xs) auto

lemma find_in_set: "find P xs = None \<longleftrightarrow> (\<forall>x\<in>set xs. \<not> P x)" "find P xs = Some x \<Longrightarrow> x \<in> set xs \<and> P x"
  by (induction xs) (auto split: if_splits)

lemma pick_same:
  assumes "pick l = (l', start)"
  shows "wf_lanes l' = wf_lanes l" "is_usable l' = is_usable l" "ln_paths l' = ln_paths l"
    "in_best_tier l' = in_best_tier l" "ln_tier l' = ln_tier l" "ln_unavailable l' = ln_unavailable l"
    "ln_policy l' = ln_policy l" "ln_latency_ns l' = ln_latency_ns l"
proof -
  have "\<exists>a b. l' = l\<lparr>ln_next := a, ln_seed := b\<rparr>"
    using assms by (cases l; cases "ln_policy l") (auto simp: pick_def Let_def)
  then show "wf_lanes l' = wf_lanes l" "is_usable l' = is_usable l" "ln_paths l' = ln_paths l"
    "in_best_tier l' = in_best_tier l" "ln_tier l' = ln_tier l" "ln_unavailable l' = ln_unavailable l"
    "ln_policy l' = ln_policy l" "ln_latency_ns l' = ln_latency_ns l"
    by (auto simp: wf_lanes_def is_usable_def in_best_tier_def best_tier_def fun_eq_iff)
qed

lemma pick_available_spec:
  assumes wf: "wf_lanes l" and p: "pick_available l = (l', c)"
  shows "case c of Some i \<Rightarrow> i < ln_paths l \<and> in_best_tier l i
    | None \<Rightarrow> \<forall>i < ln_paths l. ln_unavailable l ! i \<or> tier_standby \<le> ln_tier l ! i"
proof -
  obtain l1 start where l1: "pick l = (l1, start)" by fastforce
  note same = pick_same [OF l1]
  have n: "0 < ln_paths l" using wf by (simp add: wf_lanes_def)
  have c: "c = find (is_usable l) (around start (ln_paths l))"
    using p l1 same by (simp add: pick_available_def)
  show ?thesis
  proof (cases c)
    case None
    then have "\<forall>i < ln_paths l. \<not> in_best_tier l i"
      using find_in_set(1) [of "is_usable l" "around start (ln_paths l)"] n by (auto simp: c is_usable_iff)
    then show ?thesis using None best_tier_exists [of _ l] by simp (meson not_le)
  next
    case (Some i)
    then have "i \<in> set (around start (ln_paths l)) \<and> is_usable l i" using find_in_set(2) c by metis
    then show ?thesis using Some n by (auto simp: is_usable_iff)
  qed
qed

section \<open>Properties\<close>

text \<open>
  C40: a request always gets the best path there is. Whatever the policy, \<open>pick_available\<close> returns a path
  in rotation whose ALUA tier is the lowest of those in rotation and not standby, and it returns none
  only when every path is out of rotation or standby.
\<close>

theorem pick_available_best:
  assumes "wf_lanes l" and "pick_available l = (l', c)"
  shows "case c of
      Some i \<Rightarrow> i < ln_paths l \<and> \<not> ln_unavailable l ! i \<and> ln_tier l ! i < tier_standby
        \<and> (\<forall>j < ln_paths l. \<not> ln_unavailable l ! j \<longrightarrow> ln_tier l ! i \<le> ln_tier l ! j)
    | None \<Rightarrow> \<forall>i < ln_paths l. ln_unavailable l ! i \<or> tier_standby \<le> ln_tier l ! i"
  using pick_available_spec [OF assms] by (auto simp: in_best_tier_def split: option.splits)

definition example_lanes :: lanes where
  "example_lanes = \<lparr>ln_paths = 3, ln_policy = Fastest, ln_next = 0, ln_seed = 1,
     ln_latency_ns = [500, 10, 0], ln_unavailable = [False, False, False], ln_tier = [0, 0, 2]\<rparr>"

theorem pick_available_best_witness:
  "\<exists>l' i. pick_available example_lanes = (l', Some i) \<and> \<not> ln_unavailable example_lanes ! i
     \<and> ln_tier example_lanes ! i = 0"
proof -
  obtain l' c where p: "pick_available example_lanes = (l', c)" by fastforce
  have "wf_lanes example_lanes" by (simp add: wf_lanes_def example_lanes_def)
  note best = pick_available_best [OF this p]
  have "c \<noteq> None"
  proof
    assume "c = None"
    then show False using best by (auto simp: example_lanes_def tier_standby_def dest!: spec [of _ 0])
  qed
  then obtain i where i: "c = Some i" by auto
  then have "ln_tier example_lanes ! i \<le> ln_tier example_lanes ! 0"
    using best by (auto simp: example_lanes_def dest!: spec [of _ 0])
  then show ?thesis using best p i by (auto simp: example_lanes_def)
qed

text \<open>
  a verifying read goes through another path when there is one. If some usable path differs from the
  one to avoid, \<open>pick_available_avoiding\<close> returns such a path; otherwise it falls back to
  \<open>pick_available\<close>'s choice.
\<close>

theorem avoiding_uses_other_path:
  assumes "wf_lanes l" and "pick_available_avoiding avoid l = (l', c)"
    and "j < ln_paths l" and "j \<noteq> avoid" and "is_usable l j"
  shows "\<exists>i. c = Some i \<and> i < ln_paths l \<and> i \<noteq> avoid \<and> is_usable l i"
proof -
  define m where "m = (case ln_policy l of
            RoundRobin \<Rightarrow> (l, unat (ln_next l) mod ln_paths l)
          | ReverseRoundRobin \<Rightarrow> (l, ln_paths l - 1 - unat (ln_next l) mod ln_paths l)
          | _ \<Rightarrow> pick l)"
  obtain l1 start where m1: "m = (l1, start)" by fastforce
  then have same: "is_usable l1 = is_usable l" "ln_paths l1 = ln_paths l"
    using pick_same [of l l1 start] by (auto simp: m_def split: policy.splits)
  have n: "0 < ln_paths l" using assms(3) by simp
  let ?f = "find (\<lambda>i. i \<noteq> avoid \<and> is_usable l i) (around start (ln_paths l))"
  have "?f \<noteq> None" using assms(3-5) n by (auto simp: find_in_set(1))
  then obtain i where i: "?f = Some i" by auto
  then have "c = Some i" using assms(2) m1 same unfolding pick_available_avoiding_def m_def [symmetric] by simp
  moreover have "i < ln_paths l \<and> i \<noteq> avoid \<and> is_usable l i" using find_in_set(2) [OF i] n by simp
  ultimately show ?thesis by blast
qed

theorem avoiding_uses_other_path_witness:
  "\<exists>i. snd (pick_available_avoiding 0 example_lanes) = Some i \<and> i \<noteq> 0"
proof -
  have "wf_lanes example_lanes" "is_usable example_lanes 1" "1 < ln_paths example_lanes"
    by (simp_all add: wf_lanes_def is_usable_iff in_best_tier_def example_lanes_def tier_standby_def less_Suc_eq numeral_3_eq_3)
  from avoiding_uses_other_path [OF this(1) _ this(3) _ this(2), of 0 "fst (pick_available_avoiding 0 example_lanes)"
      "snd (pick_available_avoiding 0 example_lanes)"] show ?thesis by auto
qed


text \<open>The paths a run of picks chooses.\<close>

fun picks :: "nat \<Rightarrow> lanes \<Rightarrow> nat list" where
  "picks 0 l = []"
| "picks (Suc n) l = (let (l, i) = pick l in i # picks n l)"

lemma picks_round_robin:
  assumes "ln_policy l \<in> {RoundRobin, ReverseRoundRobin}"
  shows "unat (ln_next l) + n \<le> 2 ^ 64 \<Longrightarrow> picks n l =
    map (\<lambda>k. if ln_policy l = RoundRobin then (unat (ln_next l) + k) mod ln_paths l
             else ln_paths l - 1 - (unat (ln_next l) + k) mod ln_paths l) [0..<n]"
  using assms
proof (induction n arbitrary: l)
  case (Suc n)
  show ?case
  proof (cases "n = 0")
    case True
    then show ?thesis using Suc.prems by (auto simp: pick_def)
  next
    case False
    then have "unat (ln_next l + 1) = unat (ln_next l) + 1"
      using Suc.prems(1) by (simp add: unat_word_ariths(1))
    moreover have "[0..<Suc n] = 0 # map Suc [0..<n]" by (simp add: upt_conv_Cons map_Suc_upt del: upt_Suc)
    ultimately show ?thesis
      using Suc.prems Suc.IH [of "l\<lparr>ln_next := ln_next l + 1\<rparr>"] by (auto simp: pick_def o_def simp del: upt_Suc)
  qed
qed simp

text \<open>
  Round robin is fair. Over as many picks as there are paths, with the 64-bit request counter not
  wrapping on the way, round robin and reverse round robin choose every path exactly once.
\<close>

theorem round_robin_fair:
  assumes "ln_policy l \<in> {RoundRobin, ReverseRoundRobin}" and "0 < ln_paths l"
    and "unat (ln_next l) + ln_paths l \<le> 2 ^ 64"
  shows "distinct (picks (ln_paths l) l) \<and> set (picks (ln_paths l) l) = {..<ln_paths l}"
proof -
  let ?n = "ln_paths l" and ?a = "around (unat (ln_next l)) (ln_paths l)"
  have eq: "picks ?n l = (if ln_policy l = RoundRobin then ?a else map (\<lambda>i. ?n - 1 - i) ?a)"
    using picks_round_robin [OF assms(1,3)] by (auto simp: around_def)
  have a: "set ?a = {..<?n}" using assms(2) by simp
  moreover have "length ?a = ?n" by (simp add: around_def)
  ultimately have d: "distinct ?a" by (metis card_distinct card_lessThan)
  have "inj_on (\<lambda>i. ?n - 1 - i) {..<?n}" by (rule inj_onI) auto
  moreover from this have "(\<lambda>i. ?n - 1 - i) ` {..<?n} = {..<?n}"
    using assms(2) by (intro endo_inj_surj) auto
  ultimately show ?thesis using a d by (simp add: eq distinct_map)
qed

theorem round_robin_fair_witness:
  "distinct (picks 3 (example_lanes\<lparr>ln_policy := RoundRobin, ln_next := 5\<rparr>))"
  using round_robin_fair [of "example_lanes\<lparr>ln_policy := RoundRobin, ln_next := 5\<rparr>"]
  by (simp add: example_lanes_def)

text \<open>
  The fastest policy is blind while an unmeasured path is out of use. As long as some path has no
  latency sample, as a standby path never has, \<open>fastest\<close> keeps choosing that path, and the request goes
  to the first usable path after it, whatever the measured latencies are.
\<close>

theorem fastest_ignores_latency:
  assumes "wf_lanes l" and "ln_policy l = Fastest" and "u < ln_paths l" and "ln_latency_ns l ! u = 0"
    and "\<forall>i < u. ln_latency_ns l ! i \<noteq> 0"
  shows "pick_available l = (l, find (is_usable l) (around u (ln_paths l)))"
proof -
  have "[0..<ln_paths l] = [0..<u] @ u # [Suc u..<ln_paths l]"
    using assms(3) by (metis less_imp_le_nat upt_add_eq_append upt_conv_Cons le_add_diff_inverse zero_le)
  moreover have "find (\<lambda>i. ln_latency_ns l ! i = 0) [0..<u] = None"
    using assms(5) by (auto simp: find_in_set(1))
  ultimately have "find (\<lambda>i. ln_latency_ns l ! i = 0) [0..<ln_paths l] = Some u"
    using assms(4) by (simp add: find_append)
  then have "fastest l = u" by (simp add: fastest_def)
  then show ?thesis using assms(2) by (simp add: pick_available_def pick_def)
qed

theorem fastest_ignores_latency_witness:
  "snd (pick_available example_lanes) = Some 0
   \<and> is_usable example_lanes 1 \<and> ln_latency_ns example_lanes ! 1 < ln_latency_ns example_lanes ! 0"
proof -
  have "pick_available example_lanes = (example_lanes, find (is_usable example_lanes) (around 2 3))"
    using fastest_ignores_latency [of example_lanes 2]
    by (simp add: wf_lanes_def example_lanes_def less_Suc_eq numeral_2_eq_2)
  moreover have "find (is_usable example_lanes) (around 2 3) = Some 0 \<and> is_usable example_lanes 1
      \<and> ln_latency_ns example_lanes ! 1 < ln_latency_ns example_lanes ! 0"
    by code_simp
  ultimately show ?thesis by simp
qed

text \<open>
  The moving average never overflows. A sample below \<open>2^64\<close> keeps every latency between one and
  \<open>2^64 - 1\<close>, so a measured path is never taken for an unmeasured one.
\<close>

theorem latency_average_bounded:
  assumes "wf_lanes l" and "path < ln_paths l" and "ln_latency_ns l ! path < 2 ^ 64" and "nanos < 2 ^ 64"
  shows "0 < ln_latency_ns (lanes_record path nanos l) ! path
    \<and> ln_latency_ns (lanes_record path nanos l) ! path < 2 ^ 64
    \<and> (0 < ln_latency_ns l ! path \<longrightarrow>
         ln_latency_ns (lanes_record path nanos l) ! path
           \<le> max (ln_latency_ns l ! path) nanos + 1)"
proof -
  define old where "old = ln_latency_ns l ! path"
  have new: "ln_latency_ns (lanes_record path nanos l) ! path
      = max (if old = 0 then nanos else old - old div 8 + nanos div 8) 1"
    using assms(1,2) by (simp add: lanes_record_def wf_lanes_def old_def Let_def)
  have old: "old < 2 ^ 64" using assms(3) by (simp add: old_def)
  have "old - old div 8 + nanos div 8 < 2 ^ 64" using old assms(4) by simp
  moreover have "old - old div 8 + nanos div 8 \<le> max old nanos + 1" by simp
  ultimately show ?thesis unfolding new old_def [symmetric] using assms(4) by (auto simp: less_max_iff_disj)
qed

theorem latency_average_bounded_witness:
  "ln_latency_ns (lanes_record 1 90 example_lanes) ! 1 < 2 ^ 64"
  using latency_average_bounded [of example_lanes 1 90] by (simp add: wf_lanes_def example_lanes_def)

text \<open>
  \<open>TARGET,N\<close> expands to \<open>N\<close> connections. A printed count between 1 and 64 after the last comma gives that
  many copies of the target; any other count is rejected.
\<close>

theorem expand_connections_count:
  assumes "k < 2 ^ 64"
  shows "expand_connections (target @ CHR '','' # show_nat k) =
    (if 1 \<le> k \<and> k \<le> 64 then Inr (replicate k target)
     else Inl (Err ((target @ CHR '','' # show_nat k) @ '': a target takes 1 to 64 connections, not '' @ show_nat k)))"
proof -
  have "list_all (\<lambda>c. c \<noteq> CHR '','') (show_nat k)"
    using show_nat_digits [of k] by (auto simp: list_all_iff is_digit_def)
  then have "rsplit_once (\<lambda>c. c = CHR '','') (target @ CHR '','' # show_nat k) = Some (target, show_nat k)"
    using split_once_append [of "\<lambda>c. c = CHR '',''" "rev (show_nat k)" "CHR '',''" "rev target"]
    by (simp add: rsplit_once_def list_all_iff)
  then show ?thesis using parse_uint_show_nat [of k 64] assms by (simp add: expand_connections_def)
qed

theorem expand_connections_count_witness:
  "expand_connections (''iqn'' @ CHR '','' # show_nat 2) = Inr [''iqn'', ''iqn'']"
proof -
  have "expand_connections (''iqn'' @ CHR '','' # show_nat 2) = Inr (replicate 2 ''iqn'')"
    using expand_connections_count [of 2 "''iqn''"] by simp
  also have "replicate 2 ''iqn'' = [''iqn'', ''iqn'']" by (simp add: numeral_2_eq_2)
  finally show ?thesis .
qed

end
