(* ===== verification/Pool.thy ===== *)
theory Pool
  imports Lanes
begin

text \<open>
  \<open>src/rust/src/paths/pool.rs\<close>: the scheduler that runs a queue's requests over several paths. A transport
  is the record of functions of the traits \<open>Transport\<close> and \<open>Fabric\<close> (a session is any type, so the
  network may answer in any way); a client offers requests and takes completions. \<open>drive\<close> is cut at its
  loop heads into the steps \<open>begin_pass\<close>, \<open>send_step\<close> and \<open>wait_step\<close>, with the phase that comes next; the
  time of a step is an argument. The queue's arena is a list of buffers, one per slot, which a transport
  reads and writes through the slot's index, as the code does through a pointer. A panic of a transport
  ends the run. The dump option and the
  progress counter, which only report, are left out.
\<close>

section \<open>Transports\<close>

type_synonym memory = "u8 list list"

record geometry =
  ge_block_len :: nat
  ge_capacity_bytes :: nat

record io =
  io_write :: bool
  io_lba :: nat
  io_blocks :: nat

text \<open>The sense bytes of a finished command: at most 64.\<close>

record finished =
  dn_tag :: nat
  dn_status :: u8
  dn_code :: u16
  dn_unavailable :: bool
  dn_sense :: "u8 list"

record 's transport =
  tp_can_submit :: "'s \<Rightarrow> bool"
  tp_inflight :: "'s \<Rightarrow> nat"
  tp_tier :: "'s \<Rightarrow> nat option"
  tp_check :: "'s \<Rightarrow> io \<Rightarrow> unit result"
  tp_submit :: "'s \<Rightarrow> nat \<Rightarrow> io \<Rightarrow> nat \<Rightarrow> nat \<Rightarrow> memory \<Rightarrow> 's result"
  tp_poll :: "'s \<Rightarrow> memory \<Rightarrow> (finished \<times> 's) result \<times> memory"
  tp_tick :: "'s \<Rightarrow> 's result"
  tp_failure :: "'s \<Rightarrow> io \<Rightarrow> finished \<Rightarrow> string"
  tp_unavailable :: "'s \<Rightarrow> finished \<Rightarrow> string"

text \<open>
  \<open>submit\<close> takes the tag, the request, the index and length of its buffer, and \<open>poll\<close> may write the
  buffers of the commands in flight whether it succeeds or not. Opening a path may answer differently
  each time, so it takes the time.
\<close>

record ('p, 's) fabric =
  fb_transport :: "'s transport"
  fb_label :: "'p \<Rightarrow> string"
  fb_open :: "'p \<Rightarrow> nat \<Rightarrow> ('s \<times> geometry) result"

definition reconnect_after :: nat where
  "reconnect_after = 3000000000"

section \<open>The pool\<close>

record ('p, 's) pool =
  pl_paths :: "'p list"
  pl_sessions :: "'s option list"
  pl_down_at :: "nat option list"
  pl_slot_inflight :: "bool list"
  pl_stream_stats :: stream_stats
  pl_race :: bool
  pl_slot_req :: "request list"
  pl_slot_started :: "nat list"
  pl_slot_path :: "nat list"
  pl_free :: "nat list"
  pl_retry :: "nat list"
  pl_in_flight :: nat
  pl_last_write_path :: "nat option"
  pl_labels :: "string list"
  pl_stats :: "path_stats list"
  pl_failed :: "(nat \<times> string) list"
  pl_lanes :: lanes
  pl_geometry :: geometry

text \<open>\<open>{:?}\<close> of a geometry.\<close>

definition show_geometry :: "geometry \<Rightarrow> string" where
  "show_geometry g = ''Geometry { block_len: '' @ show_nat (ge_block_len g) @ '', capacity_bytes: ''
     @ show_nat (ge_capacity_bytes g) @ '' }''"

text \<open>The loop of \<open>open\<close>: the sessions, their tiers and the common geometry.\<close>

fun open_sessions ::
  "('p, 's) fabric \<Rightarrow> nat \<Rightarrow> geometry option \<Rightarrow> 'p list \<Rightarrow> ('s list \<times> geometry option) result" where
  "open_sessions F now g [] = Inr ([], g)"
| "open_sessions F now g (p # ps) =
     and_then (fb_open F p now) (\<lambda>(session, found).
       if (case g of Some first \<Rightarrow> first \<noteq> found | None \<Rightarrow> False)
       then Inl (Err (''paths report block size and capacity '' @ show_geometry (the g) @ '' and ''
              @ show_geometry found @ ''; they are not one LUN''))
       else and_then (open_sessions F now (Some found) ps) (\<lambda>(ss, g). Inr (session # ss, g)))"

definition session_tier :: "('p, 's) fabric \<Rightarrow> 's \<Rightarrow> nat" where
  "session_tier F s = (case tp_tier (fb_transport F) s of Some t \<Rightarrow> t | None \<Rightarrow> tier_optimized)"

definition pool_open :: "('p, 's) fabric \<Rightarrow> nat \<Rightarrow> 'p list \<Rightarrow> policy \<Rightarrow> u64 \<Rightarrow> ('p, 's) pool result" where
  "pool_open F now paths policy seed =
     and_then (open_sessions F now None paths) (\<lambda>(sessions, geometry).
     and_then (ok_or geometry ''no paths'') (\<lambda>geometry.
     and_then (lanes_new (length sessions) policy seed) (\<lambda>lanes.
       Inr \<lparr>pl_paths = paths, pl_sessions = map Some sessions, pl_down_at = replicate (length paths) None,
            pl_slot_inflight = [], pl_stream_stats = stream_stats_new, pl_race = False, pl_slot_req = [],
            pl_slot_started = [], pl_slot_path = [], pl_free = [], pl_retry = [], pl_in_flight = 0,
            pl_last_write_path = None, pl_labels = map (fb_label F) paths,
            pl_stats = map (\<lambda>s. path_stats_default\<lparr>pt_alua := tp_tier (fb_transport F) s\<rparr>) sessions,
            pl_failed = [], pl_lanes = lanes\<lparr>ln_tier := map (session_tier F) sessions\<rparr>,
            pl_geometry = geometry\<rparr>)))"

definition reserve :: "nat \<Rightarrow> nat \<Rightarrow> ('p, 's) pool \<Rightarrow> ('p, 's) pool" where
  "reserve now depth p =
     p\<lparr>pl_slot_req := replicate depth request_default, pl_slot_started := replicate depth now,
       pl_slot_path := replicate depth 0, pl_slot_inflight := replicate depth False,
       pl_free := rev [0..<depth], pl_retry := []\<rparr>"

text \<open>\<open>usize::MAX\<close> stands for no path to avoid.\<close>

definition path_with_room :: "('p, 's) fabric \<Rightarrow> bool \<Rightarrow> ('p, 's) pool \<Rightarrow> ('p, 's) pool \<times> nat option" where
  "path_with_room F verify_read p =
     (let (lanes, first) =
        (if verify_read then
           pick_available_avoiding (case pl_last_write_path p of Some w \<Rightarrow> w | None \<Rightarrow> 2 ^ 64 - 1) (pl_lanes p)
         else pick_available (pl_lanes p));
          p = p\<lparr>pl_lanes := lanes\<rparr>
      in case first of
           None \<Rightarrow> (p, None)
         | Some first \<Rightarrow>
             (p, find (\<lambda>i. is_usable lanes i
                   \<and> (case pl_sessions p ! i of Some s \<Rightarrow> tp_can_submit (fb_transport F) s | None \<Rightarrow> False))
                 (around first (length (pl_sessions p)))))"

text \<open>The loop over the slots in \<open>disconnect\<close>, and the whole of it.\<close>

fun requeue :: "nat \<Rightarrow> nat \<Rightarrow> nat list \<Rightarrow> ('p, 's) pool \<Rightarrow> ('p, 's) pool result" where
  "requeue now path [] p = Inr p"
| "requeue now path (slot # slots) p =
     (if pl_slot_inflight p ! slot \<and> pl_slot_path p ! slot = path then
        (if pl_in_flight p = 0 then Inl Panic
         else and_then (stream_change now False (pl_stream_stats p)) (\<lambda>st.
                requeue now path slots
                  (p\<lparr>pl_slot_inflight := (pl_slot_inflight p)[slot := False],
                     pl_in_flight := pl_in_flight p - 1, pl_stream_stats := st,
                     pl_retry := pl_retry p @ [slot]\<rparr>)))
      else requeue now path slots p)"

definition disconnect :: "nat \<Rightarrow> nat \<Rightarrow> ('p, 's) pool \<Rightarrow> ('p, 's) pool result" where
  "disconnect now path p =
     requeue now path [0..<length (pl_slot_inflight p)]
       (p\<lparr>pl_sessions := (pl_sessions p)[path := None],
          pl_down_at := (pl_down_at p)[path := Some now],
          pl_stats := (pl_stats p)[path := (pl_stats p ! path)\<lparr>pt_disconnects := pt_disconnects (pl_stats p ! path) + 1\<rparr>],
          pl_lanes := mark_unavailable path (pl_lanes p)\<rparr>)"

definition blocks_request :: "bool \<Rightarrow> request \<Rightarrow> request \<Rightarrow> bool" where
  "blocks_request race req other \<longleftrightarrow>
     \<not> (race \<and> req_verify req \<and> \<not> req_write req \<and> req_write other)
     \<and> (req_write other \<or> req_write req)
     \<and> req_offset other < req_offset req + req_len req \<and> req_offset req < req_offset other + req_len other"

definition overlaps_in_flight :: "request \<Rightarrow> ('p, 's) pool \<Rightarrow> bool" where
  "overlaps_in_flight req p \<longleftrightarrow>
     list_ex (\<lambda>slot. pl_slot_inflight p ! slot \<and> blocks_request (pl_race p) req (pl_slot_req p ! slot))
       [0..<length (pl_slot_inflight p)]"

definition endpoints :: "('p, 's) pool \<Rightarrow> nat" where
  "endpoints p = usable_count (pl_lanes p)"

definition set_race :: "bool \<Rightarrow> ('p, 's) pool \<Rightarrow> ('p, 's) pool" where
  "set_race on p = p\<lparr>pl_race := on\<rparr>"

definition any_down :: "('p, 's) pool \<Rightarrow> bool" where
  "any_down p \<longleftrightarrow> list_ex (\<lambda>s. s = None) (pl_sessions p)"

definition reconnect_path :: "('p, 's) fabric \<Rightarrow> nat \<Rightarrow> nat \<Rightarrow> ('p, 's) pool \<Rightarrow> ('p, 's) pool result" where
  "reconnect_path F now path p =
     (case pl_down_at p ! path of
        None \<Rightarrow> Inr p
      | Some since \<Rightarrow>
          if now - since < reconnect_after then Inr p
          else case fb_open F (pl_paths p ! path) now of
                 Inl Panic \<Rightarrow> Inl Panic
               | Inl (Err _) \<Rightarrow> Inr (p\<lparr>pl_down_at := (pl_down_at p)[path := Some now]\<rparr>)
               | Inr (session, _) \<Rightarrow>
                   Inr (p\<lparr>pl_sessions := (pl_sessions p)[path := Some session],
                     pl_down_at := (pl_down_at p)[path := None],
                     pl_stats := (pl_stats p)[path := (pl_stats p ! path)\<lparr>pt_reconnects := pt_reconnects (pl_stats p ! path) + 1\<rparr>],
                     pl_lanes := mark_available path (set_tier path (session_tier F session) (pl_lanes p))\<rparr>))"

fun reconnect_paths :: "('p, 's) fabric \<Rightarrow> nat \<Rightarrow> nat list \<Rightarrow> ('p, 's) pool \<Rightarrow> ('p, 's) pool result" where
  "reconnect_paths F now [] p = Inr p"
| "reconnect_paths F now (path # paths) p = and_then (reconnect_path F now path p) (reconnect_paths F now paths)"

definition try_reconnect :: "('p, 's) fabric \<Rightarrow> nat \<Rightarrow> ('p, 's) pool \<Rightarrow> ('p, 's) pool result" where
  "try_reconnect F now p = reconnect_paths F now [0..<length (pl_sessions p)] p"

definition io_of :: "request \<Rightarrow> nat \<Rightarrow> io result" where
  "io_of req block =
     (if block = 0 then Inl Panic
      else if 2 ^ 32 \<le> req_len req div block
      then Inl (Err ''transfer beyond the 32-bit block count of this transport'')
      else Inr \<lparr>io_write = req_write req, io_lba = req_offset req div block, io_blocks = req_len req div block\<rparr>)"

section \<open>drive\<close>

datatype offer = OfferRequest nat request | OfferWait | OfferDone

text \<open>What \<open>stream\<close> wraps around the engine's source.\<close>

definition offer_of :: "next_request \<Rightarrow> offer" where
  "offer_of n = (case n of NextRequest r \<Rightarrow> OfferRequest 0 r | NextWait \<Rightarrow> OfferWait | NextDone \<Rightarrow> OfferDone)"

record 'c client =
  cl_next :: "'c \<Rightarrow> offer \<times> 'c"
  cl_prepare :: "request \<Rightarrow> u8 list \<Rightarrow> u8 list"
  cl_complete :: "nat \<Rightarrow> request \<Rightarrow> memory \<Rightarrow> 'c \<Rightarrow> 'c"

datatype phase = Begin | Sending | Waiting | Returned "unit result"

record ('p, 's, 'c) drive =
  dv_pool :: "('p, 's) pool"
  dv_held :: "(nat \<times> request) option"
  dv_exhausted :: bool
  dv_memory :: memory
  dv_client :: 'c
  dv_phase :: phase

text \<open>Reconnects and keep-alives at the head of a pass.\<close>

fun tick_paths :: "('p, 's) fabric \<Rightarrow> nat \<Rightarrow> nat list \<Rightarrow> ('p, 's) pool \<Rightarrow> ('p, 's) pool result" where
  "tick_paths F now [] p = Inr p"
| "tick_paths F now (path # paths) p =
     (case pl_sessions p ! path of
        None \<Rightarrow> tick_paths F now paths p
      | Some s \<Rightarrow>
          (case tp_tick (fb_transport F) s of
             Inr s \<Rightarrow> tick_paths F now paths (p\<lparr>pl_sessions := (pl_sessions p)[path := Some s]\<rparr>)
           | Inl Panic \<Rightarrow> Inl Panic
           | Inl (Err _) \<Rightarrow> and_then (disconnect now path p) (tick_paths F now paths)))"

definition begin_pass :: "('p, 's) fabric \<Rightarrow> nat \<Rightarrow> ('p, 's, 'c) drive \<Rightarrow> ('p, 's, 'c) drive result" where
  "begin_pass F now d =
     and_then (try_reconnect F now (dv_pool d)) (\<lambda>p.
     and_then (tick_paths F now [0..<length (pl_sessions p)] p) (\<lambda>p.
       Inr (d\<lparr>dv_pool := p, dv_phase := Sending\<rparr>)))"

text \<open>
  The first half of the sending loop: a request to send is held, or the loop is left (phase Waiting), or
  it goes round again (phase Sending with nothing held). With slots from the free list, \<open>prepare\<close> fills
  the buffer of a write.
\<close>

definition prepared :: "'c client \<Rightarrow> nat \<Rightarrow> request \<Rightarrow> memory \<Rightarrow> memory" where
  "prepared C slot req m =
     (if req_write req
      then m[slot := cl_prepare C req (take (req_len req) (m ! slot)) @ drop (req_len req) (m ! slot)] else m)"

definition fetch :: "'c client \<Rightarrow> bool \<Rightarrow> ('p, 's, 'c) drive \<Rightarrow> ('p, 's, 'c) drive" where
  "fetch C explicit d =
     (let p = dv_pool d
      in if dv_held d \<noteq> None then d
         else if pl_retry p \<noteq> [] then
           (let slot = last (pl_retry p)
            in d\<lparr>dv_pool := p\<lparr>pl_retry := butlast (pl_retry p)\<rparr>, dv_held := Some (slot, pl_slot_req p ! slot)\<rparr>)
         else if dv_exhausted d then d\<lparr>dv_phase := Waiting\<rparr>
         else if \<not> explicit \<and> pl_free p = [] then d\<lparr>dv_phase := Waiting\<rparr>
         else (let (offer, c) = cl_next C (dv_client d); d = d\<lparr>dv_client := c\<rparr>
               in case offer of
                    OfferWait \<Rightarrow> d\<lparr>dv_phase := Waiting\<rparr>
                  | OfferDone \<Rightarrow> d\<lparr>dv_exhausted := True\<rparr>
                  | OfferRequest named req \<Rightarrow>
                      (let slot = (if explicit then named else last (pl_free p));
                           p = (if explicit then p else p\<lparr>pl_free := butlast (pl_free p)\<rparr>)
                       in d\<lparr>dv_pool := p\<lparr>pl_slot_req := (pl_slot_req p)[slot := req]\<rparr>,
                            dv_memory := (if explicit then dv_memory d else prepared C slot req (dv_memory d)),
                            dv_held := Some (slot, req)\<rparr>)))"

text \<open>What a successful \<open>submit\<close> on \<open>path\<close> records.\<close>

definition sent :: "('p, 's) fabric \<Rightarrow> nat \<Rightarrow> nat \<Rightarrow> nat \<Rightarrow> 's \<Rightarrow> ('p, 's) pool \<Rightarrow> ('p, 's) pool result" where
  "sent F now slot path session p =
     (let st = pl_stats p ! path
      in and_then (stream_change now True (pl_stream_stats p)) (\<lambda>ss.
           Inr (p\<lparr>pl_sessions := (pl_sessions p)[path := Some session],
                  pl_slot_inflight := (pl_slot_inflight p)[slot := True],
                  pl_stats := (pl_stats p)[path := st\<lparr>pt_inflight_max :=
                     max (pt_inflight_max st) (tp_inflight (fb_transport F) session)\<rparr>],
                  pl_slot_started := (pl_slot_started p)[slot := now],
                  pl_slot_path := (pl_slot_path p)[slot := path],
                  pl_in_flight := pl_in_flight p + 1, pl_stream_stats := ss\<rparr>)))"

text \<open>The second half: the held request is sent, waits, or ends the run.\<close>

definition dispatch ::
  "('p, 's) fabric \<Rightarrow> nat \<Rightarrow> nat \<Rightarrow> request \<Rightarrow> ('p, 's, 'c) drive \<Rightarrow> ('p, 's, 'c) drive result" where
  "dispatch F now slot req d =
     (let p = dv_pool d; block = ge_block_len (pl_geometry p);
          stop = (\<lambda>e. Inr (d\<lparr>dv_phase := Returned (Inl e)\<rparr>))
      in if block = 0 then Inl Panic
         else if req_offset req mod block \<noteq> 0 \<or> req_len req mod block \<noteq> 0 then
           stop (Err (''request at '' @ show_nat (req_offset req) @ '' of '' @ show_nat (req_len req)
             @ '' bytes is not aligned to the '' @ show_nat block @ ''-byte block size''))
         else case io_of req block of
           Inl e \<Rightarrow> stop e
         | Inr io \<Rightarrow>
             if overlaps_in_flight req p then Inr (d\<lparr>dv_phase := Waiting\<rparr>)
             else case path_with_room F (req_verify req \<and> \<not> req_write req) p of
               (p, None) \<Rightarrow>
                 if any_down p then and_then (try_reconnect F now p) (\<lambda>p. Inr (d\<lparr>dv_pool := p\<rparr>))
                 else (let (lanes, first) = pick_available (pl_lanes p); p = p\<lparr>pl_lanes := lanes\<rparr>
                       in if first = None
                          then Inr (d\<lparr>dv_pool := p, dv_phase := Returned (Inl (Err
                            ''no path can take I/O: each is standby, unavailable or transitioning''))\<rparr>)
                          else Inr (d\<lparr>dv_pool := p, dv_phase := Waiting\<rparr>))
             | (p, Some path) \<Rightarrow>
                 (case pl_sessions p ! path of
                    None \<Rightarrow> and_then (disconnect now path p) (\<lambda>p. Inr (d\<lparr>dv_pool := p\<rparr>))
                  | Some session \<Rightarrow>
                      (case tp_check (fb_transport F) session io of
                         Inl Panic \<Rightarrow> Inl Panic
                       | Inl (Err e) \<Rightarrow> Inr (d\<lparr>dv_pool := p, dv_phase := Returned (Inl (Err e))\<rparr>)
                       | Inr _ \<Rightarrow>
                           (case tp_submit (fb_transport F) session slot io slot (req_len req) (dv_memory d) of
                              Inl Panic \<Rightarrow> Inl Panic
                            | Inl (Err _) \<Rightarrow> and_then (disconnect now path p) (\<lambda>p. Inr (d\<lparr>dv_pool := p\<rparr>))
                            | Inr session \<Rightarrow>
                                and_then (sent F now slot path session p) (\<lambda>p.
                                  Inr (d\<lparr>dv_pool := p, dv_held := None\<rparr>))))))"

definition send_step ::
  "('p, 's) fabric \<Rightarrow> 'c client \<Rightarrow> bool \<Rightarrow> nat \<Rightarrow> ('p, 's, 'c) drive \<Rightarrow> ('p, 's, 'c) drive result" where
  "send_step F C explicit now d =
     (let d = fetch C explicit d
      in case dv_held d of Some (slot, req) \<Rightarrow> dispatch F now slot req d | None \<Rightarrow> Inr d)"

text \<open>A finished command of path \<open>path\<close>.\<close>

definition completion ::
  "('p, 's) fabric \<Rightarrow> 'c client \<Rightarrow> bool \<Rightarrow> nat \<Rightarrow> nat \<Rightarrow> finished \<Rightarrow> ('p, 's, 'c) drive \<Rightarrow> ('p, 's, 'c) drive result" where
  "completion F C explicit now path dn d =
     (let p = dv_pool d; slot = dn_tag dn
      in if length (pl_slot_inflight p) \<le> slot \<or> pl_in_flight p = 0 then Inl Panic
         else and_then (stream_change now False (pl_stream_stats p)) (\<lambda>ss.
           let p = p\<lparr>pl_slot_inflight := (pl_slot_inflight p)[slot := False],
                     pl_in_flight := pl_in_flight p - 1, pl_stream_stats := ss\<rparr>;
               req = pl_slot_req p ! slot
           in if dn_status dn = 0 then
                (let nanos = (now - pl_slot_started p ! slot) mod 2 ^ 64;
                     p = p\<lparr>pl_lanes := lanes_record path nanos (pl_lanes p),
                           pl_stats := (pl_stats p)[path := stats_record (req_write req) (req_len req) nanos (pl_stats p ! path)],
                           pl_last_write_path := (if req_write req then Some path else pl_last_write_path p),
                           pl_free := pl_free p @ (if explicit then [] else [slot])\<rparr>
                 in Inr (d\<lparr>dv_pool := p, dv_client := cl_complete C slot req (dv_memory d) (dv_client d), dv_phase := Begin\<rparr>))
              else if dn_unavailable dn then
                (let reason = (case pl_sessions p ! path of Some s \<Rightarrow> tp_unavailable (fb_transport F) s dn | None \<Rightarrow> []);
                     p = p\<lparr>pl_failed := pl_failed p @ [(path, reason)],
                           pl_stats := (pl_stats p)[path := (pl_stats p ! path)\<lparr>pt_failovers := pt_failovers (pl_stats p ! path) + 1\<rparr>],
                           pl_lanes := mark_unavailable path (pl_lanes p),
                           pl_retry := pl_retry p @ [slot]\<rparr>
                 in Inr (d\<lparr>dv_pool := p, dv_phase := Begin\<rparr>))
              else
                (let io = (case io_of req (ge_block_len (pl_geometry p)) of
                             Inr io \<Rightarrow> io | Inl _ \<Rightarrow> \<lparr>io_write = req_write req, io_lba = 0, io_blocks = 0\<rparr>);
                     message = (case pl_sessions p ! path of
                                  Some s \<Rightarrow> tp_failure (fb_transport F) s io dn
                                | None \<Rightarrow> ''status 0x'' @ hex_byte (dn_status dn))
                 in Inr (d\<lparr>dv_pool := p, dv_phase := Returned (Inl (Err message))\<rparr>))))"

definition busy_path :: "('p, 's) fabric \<Rightarrow> ('p, 's) pool \<Rightarrow> nat option" where
  "busy_path F p =
     find (\<lambda>i. case pl_sessions p ! i of Some s \<Rightarrow> 0 < tp_inflight (fb_transport F) s | None \<Rightarrow> False)
       [0..<length (pl_sessions p)]"

text \<open>After the sending loop: the run ends, goes round again, or waits for one command.\<close>

definition wait_step ::
  "('p, 's) fabric \<Rightarrow> 'c client \<Rightarrow> bool \<Rightarrow> nat \<Rightarrow> ('p, 's, 'c) drive \<Rightarrow> ('p, 's, 'c) drive result" where
  "wait_step F C explicit now d =
     (let p = dv_pool d
      in if pl_in_flight p = 0 then
           (if dv_exhausted d \<and> pl_retry p = [] then Inr (d\<lparr>dv_phase := Returned (Inr ())\<rparr>)
            else if dv_held d \<noteq> None
            then Inr (d\<lparr>dv_phase := Returned (Inl (Err ''no path has room for a request''))\<rparr>)
            else Inr (d\<lparr>dv_phase := Begin\<rparr>))
         else case busy_path F p of
           None \<Rightarrow> Inr (d\<lparr>dv_phase := Returned (Inl (Err ''requests in flight on no path''))\<rparr>)
         | Some path \<Rightarrow>
             (case pl_sessions p ! path of
                None \<Rightarrow> and_then (disconnect now path p) (\<lambda>p. Inr (d\<lparr>dv_pool := p, dv_phase := Begin\<rparr>))
              | Some s \<Rightarrow>
                  (case tp_poll (fb_transport F) s (dv_memory d) of
                     (Inl Panic, m) \<Rightarrow> Inl Panic
                   | (Inl (Err _), m) \<Rightarrow>
                       and_then (disconnect now path p) (\<lambda>p. Inr (d\<lparr>dv_pool := p, dv_memory := m, dv_phase := Begin\<rparr>))
                   | (Inr (dn, s), m) \<Rightarrow>
                       completion F C explicit now path dn
                         (d\<lparr>dv_pool := p\<lparr>pl_sessions := (pl_sessions p)[path := Some s]\<rparr>, dv_memory := m\<rparr>))))"

definition drive_step ::
  "('p, 's) fabric \<Rightarrow> 'c client \<Rightarrow> bool \<Rightarrow> nat \<Rightarrow> ('p, 's, 'c) drive \<Rightarrow> ('p, 's, 'c) drive result" where
  "drive_step F C explicit now d =
     (case dv_phase d of
        Begin \<Rightarrow> begin_pass F now d
      | Sending \<Rightarrow> send_step F C explicit now d
      | Waiting \<Rightarrow> wait_step F C explicit now d
      | Returned _ \<Rightarrow> Inr d)"

definition drive_start :: "('p, 's) pool \<Rightarrow> memory \<Rightarrow> 'c \<Rightarrow> ('p, 's, 'c) drive" where
  "drive_start p m c = \<lparr>dv_pool = p, dv_held = None, dv_exhausted = False, dv_memory = m, dv_client = c, dv_phase = Begin\<rparr>"

text \<open>A run is a sequence of steps, each at its own time.\<close>

fun drive_run :: "('p, 's) fabric \<Rightarrow> 'c client \<Rightarrow> bool \<Rightarrow> nat list \<Rightarrow> ('p, 's, 'c) drive \<Rightarrow> ('p, 's, 'c) drive result" where
  "drive_run F C explicit [] d = Inr d"
| "drive_run F C explicit (now # ts) d =
     and_then (drive_step F C explicit now d) (drive_run F C explicit ts)"

text \<open>The totals a closing pool adds.\<close>

definition pool_totals :: "('p, 's) pool \<Rightarrow> (string \<times> path_stats) list \<Rightarrow> (string \<times> path_stats) list" where
  "pool_totals p totals =
     fold (\<lambda>(label, s) totals.
         if \<not> is_idle s \<or> (case pt_alua s of Some t \<Rightarrow> t \<noteq> tier_optimized | None \<Rightarrow> False)
         then record_totals label s totals else totals)
       (zip (pl_labels p) (pl_stats p)) totals"

text \<open>The source of \<open>execute\<close>: the batch's requests in slot order, with the number already offered.\<close>

definition batch_next :: "request list \<times> nat \<Rightarrow> offer \<times> (request list \<times> nat)" where
  "batch_next c = (let (rs, i) = c
     in if i < length rs then (OfferRequest i (rs ! i), (rs, i + 1)) else (OfferDone, c))"

end
