(* ===== verification/Pool_Slots.thy ===== *)
theory Pool_Slots
  imports Pool
begin

text \<open>
  Who owns the slots of a queue in \<open>src/rust/src/paths/pool.rs\<close>. \<open>own\<close> says that every slot is free,
  waiting to be sent again, in flight or in hand, and only in one of them; \<open>synced\<close> says that the commands
  a session has in flight are the slots sent on its path. The locale \<open>fabric_contract\<close> is what the pool
  relies on of a transport. The lemmas show that losing a path, sending and landing a command keep both.
\<close>

section \<open>Who owns a slot\<close>

definition flying :: "('p, 's) pool \<Rightarrow> nat set" where
  "flying p = {i. i < length (pl_slot_inflight p) \<and> pl_slot_inflight p ! i}"

text \<open>Requests that may not be in flight together; the race exempts a read-back and a write.\<close>

definition path_clash :: "bool \<Rightarrow> request \<Rightarrow> request \<Rightarrow> bool" where
  "path_clash race a b \<longleftrightarrow> conflict a b
     \<and> \<not> (race \<and> (is_read_back a \<and> req_write b \<or> is_read_back b \<and> req_write a))"

text \<open>
  \<open>own p hs\<close>: every slot of the queue is in exactly one place: free, waiting to be sent again, in flight,
  or in hand (\<open>hs\<close>); the counters agree with the slots in flight; and no two requests in flight clash.
\<close>

definition own :: "('p, 's) pool \<Rightarrow> nat list \<Rightarrow> bool" where
  "own p hs \<longleftrightarrow> length (pl_slot_req p) = length (pl_slot_inflight p)
     \<and> length (pl_slot_path p) = length (pl_slot_inflight p)
     \<and> length (pl_slot_started p) = length (pl_slot_inflight p)
     \<and> mset (pl_free p) + mset (pl_retry p) + mset hs + mset_set (flying p)
         = mset_set {..<length (pl_slot_inflight p)}
     \<and> pl_in_flight p = card (flying p) \<and> ss_in_flight (pl_stream_stats p) = pl_in_flight p
     \<and> (\<forall>i\<in>flying p. \<forall>j\<in>flying p. i \<noteq> j \<longrightarrow>
          \<not> path_clash (pl_race p) (pl_slot_req p ! i) (pl_slot_req p ! j))"

lemma finite_flying [simp]: "finite (flying p)"
  by (simp add: flying_def)

lemma path_clash_sym: "path_clash race a b = path_clash race b a"
  by (auto simp: path_clash_def conflict_def)

lemma path_clash_blocks: "path_clash race a b \<Longrightarrow> blocks_request race a b"
  by (auto simp: path_clash_def blocks_request_def conflict_def is_read_back_def)

lemma mset_set_move:
  assumes "finite A" and "x \<in> A"
  shows "mset_set A = add_mset x (mset_set (A - {x}))"
  using assms by (metis finite_Diff insert_Diff_single insert_absorb mset_set.insert_remove)

lemma flying_off:
  "flying (p\<lparr>pl_slot_inflight := (pl_slot_inflight p)[slot := False], pl_in_flight := k, pl_stream_stats := ss\<rparr>)
    = flying p - {slot}"
  by (cases "slot < length (pl_slot_inflight p)") (auto simp: flying_def nth_list_update)

lemma stream_change_off:
  assumes "0 < ss_in_flight st"
  shows "\<exists>ss. stream_change now False st = Inr ss \<and> ss_in_flight ss = ss_in_flight st - 1"
  using assms by (auto simp: stream_change_def Let_def split: option.splits)

lemma stream_change_on:
  "\<exists>ss. stream_change now True st = Inr ss \<and> ss_in_flight ss = ss_in_flight st + 1"
  by (auto simp: stream_change_def Let_def split: option.splits)

text \<open>A slot in flight lands and is in hand.\<close>

lemma own_land:
  assumes o: "own p hs" and s: "slot \<in> flying p"
  obtains ss where "stream_change now False (pl_stream_stats p) = Inr ss"
    "own (p\<lparr>pl_slot_inflight := (pl_slot_inflight p)[slot := False], pl_in_flight := pl_in_flight p - 1,
       pl_stream_stats := ss\<rparr>) (slot # hs)"
    "0 < pl_in_flight p"
proof -
  have pos: "0 < card (flying p)" using s by (auto simp: card_gt_0_iff)
  then have "0 < ss_in_flight (pl_stream_stats p)" using o by (simp add: own_def)
  from stream_change_off [OF this] obtain ss where
    ss: "stream_change now False (pl_stream_stats p) = Inr ss" "ss_in_flight ss = ss_in_flight (pl_stream_stats p) - 1"
    by blast
  have "own (p\<lparr>pl_slot_inflight := (pl_slot_inflight p)[slot := False], pl_in_flight := pl_in_flight p - 1,
       pl_stream_stats := ss\<rparr>) (slot # hs)"
    using o ss(2) s mset_set_move [OF finite_flying s] unfolding own_def flying_off by simp
  then show thesis using that ss(1) pos o by (simp add: own_def)
qed

text \<open>Moves of a slot in hand.\<close>

lemma flying_same [simp]:
  "flying (p\<lparr>pl_retry := x\<rparr>) = flying p" "flying (p\<lparr>pl_free := x\<rparr>) = flying p"
  "flying (p\<lparr>pl_slot_req := r\<rparr>) = flying p" "flying (p\<lparr>pl_lanes := l\<rparr>) = flying p"
  "flying (p\<lparr>pl_sessions := ses\<rparr>) = flying p" "flying (p\<lparr>pl_down_at := dn\<rparr>) = flying p"
  "flying (p\<lparr>pl_stats := st\<rparr>) = flying p" "flying (p\<lparr>pl_failed := f\<rparr>) = flying p"
  "flying (p\<lparr>pl_last_write_path := w\<rparr>) = flying p"
  by (simp_all add: flying_def)

lemma own_same [simp]:
  "own (p\<lparr>pl_lanes := l\<rparr>) hs = own p hs" "own (p\<lparr>pl_sessions := ses\<rparr>) hs = own p hs"
  "own (p\<lparr>pl_down_at := dn\<rparr>) hs = own p hs" "own (p\<lparr>pl_stats := st\<rparr>) hs = own p hs"
  "own (p\<lparr>pl_failed := f\<rparr>) hs = own p hs" "own (p\<lparr>pl_last_write_path := w\<rparr>) hs = own p hs"
  by (simp_all add: own_def)

lemma own_to_retry: "own p (slot # hs) \<Longrightarrow> own (p\<lparr>pl_retry := pl_retry p @ [slot]\<rparr>) hs"
  by (simp add: own_def)

lemma own_to_free: "own p (slot # hs) \<Longrightarrow> own (p\<lparr>pl_free := pl_free p @ [slot]\<rparr>) hs"
  by (simp add: own_def)

lemma mset_butlast_last: "xs \<noteq> [] \<Longrightarrow> mset xs = add_mset (last xs) (mset (butlast xs))"
  by (metis add_mset_add_single append_butlast_last_id mset.simps(1) mset.simps(2) mset_append)

lemma own_from_retry:
  assumes "own p hs" and "pl_retry p \<noteq> []"
  shows "own (p\<lparr>pl_retry := butlast (pl_retry p)\<rparr>) (last (pl_retry p) # hs)"
  using assms mset_butlast_last [OF assms(2)] by (simp add: own_def)

lemma own_from_free:
  assumes "own p hs" and "pl_free p \<noteq> []"
  shows "own (p\<lparr>pl_free := butlast (pl_free p)\<rparr>) (last (pl_free p) # hs)"
  using assms mset_butlast_last [OF assms(2)] by (simp add: own_def)

lemma own_hand:
  assumes "own p (slot # hs)"
  shows "slot < length (pl_slot_inflight p)" "slot \<notin> flying p" "slot \<notin> set hs"
proof -
  let ?M = "mset (pl_free p) + mset (pl_retry p) + mset hs + mset_set (flying p)"
  have eq: "add_mset slot ?M = mset_set {..<length (pl_slot_inflight p)}"
    using assms by (simp add: own_def)
  then have "slot \<in># mset_set {..<length (pl_slot_inflight p)}" by (metis union_single_eq_member)
  then show "slot < length (pl_slot_inflight p)" by simp
  have "count (add_mset slot ?M) slot \<le> 1" unfolding eq by (simp add: count_mset_set')
  then have "slot \<notin># ?M" unfolding not_in_iff by simp
  then have "slot \<notin># mset_set (flying p)" and "slot \<notin># mset hs" by auto
  then show "slot \<notin> flying p" "slot \<notin> set hs" by (auto simp: elem_mset_set [OF finite_flying])
qed

lemma own_set_req:
  assumes "own p (slot # hs)"
  shows "own (p\<lparr>pl_slot_req := (pl_slot_req p)[slot := req]\<rparr>) (slot # hs)"
proof -
  have "(pl_slot_req p)[slot := req] ! i = pl_slot_req p ! i" if "i \<in> flying p" for i
    using own_hand(2) [OF assms] that by (metis nth_list_update_neq)
  then show ?thesis using assms by (simp add: own_def)
qed

lemma flying_on:
  "slot < length (pl_slot_inflight p) \<Longrightarrow>
   flying (p\<lparr>pl_slot_inflight := (pl_slot_inflight p)[slot := True]\<rparr>) = insert slot (flying p)"
  by (auto simp: flying_def nth_list_update)


text \<open>A slot in hand is sent: nothing in flight clashes with its request.\<close>

lemma own_sent:
  assumes o: "own p (slot # hs)" and req: "pl_slot_req p ! slot = req" and free: "\<not> overlaps_in_flight req p"
    and ss: "ss_in_flight ss = ss_in_flight (pl_stream_stats p) + 1"
  shows "own (p\<lparr>pl_sessions := ses, pl_slot_inflight := (pl_slot_inflight p)[slot := True], pl_stats := st,
      pl_slot_started := (pl_slot_started p)[slot := now], pl_slot_path := (pl_slot_path p)[slot := path],
      pl_in_flight := pl_in_flight p + 1, pl_stream_stats := ss\<rparr>) hs" (is "own ?p hs")
proof -
  have fl: "flying ?p = insert slot (flying p)"
    using own_hand(1) [OF o] by (auto simp: flying_def nth_list_update)
  have clash: "\<not> path_clash (pl_race p) req (pl_slot_req p ! i)" if "i \<in> flying p" for i
    using free that path_clash_blocks [of "pl_race p" req "pl_slot_req p ! i"]
    by (auto simp: overlaps_in_flight_def flying_def list_ex_iff)
  have "\<forall>i\<in>insert slot (flying p). \<forall>j\<in>insert slot (flying p). i \<noteq> j \<longrightarrow>
      \<not> path_clash (pl_race p) (pl_slot_req p ! i) (pl_slot_req p ! j)"
    using o clash path_clash_sym [of "pl_race p"] unfolding own_def req [symmetric] by blast
  then show ?thesis using o own_hand(2) [OF o] ss unfolding own_def fl by simp
qed

section \<open>Losing a path\<close>

definition on_path :: "('p, 's) pool \<Rightarrow> nat \<Rightarrow> nat set" where
  "on_path p path = {slot \<in> flying p. pl_slot_path p ! slot = path}"

lemma finite_on_path [simp]: "finite (on_path p path)"
  by (simp add: on_path_def)

text \<open>What \<open>requeue\<close> and \<open>disconnect\<close> leave alone.\<close>

definition same_slots :: "('p, 's) pool \<Rightarrow> ('p, 's) pool \<Rightarrow> bool" where
  "same_slots p q \<longleftrightarrow> pl_paths q = pl_paths p \<and> pl_slot_req q = pl_slot_req p \<and> pl_slot_path q = pl_slot_path p
     \<and> pl_slot_started q = pl_slot_started p \<and> pl_free q = pl_free p \<and> pl_race q = pl_race p
     \<and> pl_geometry q = pl_geometry p \<and> length (pl_slot_inflight q) = length (pl_slot_inflight p)"

definition same_links :: "('p, 's) pool \<Rightarrow> ('p, 's) pool \<Rightarrow> bool" where
  "same_links p q \<longleftrightarrow> pl_sessions q = pl_sessions p \<and> pl_down_at q = pl_down_at p \<and> pl_stats q = pl_stats p
     \<and> pl_lanes q = pl_lanes p"

lemma same_slots_refl [simp]: "same_slots p p"
  by (simp add: same_slots_def)

lemma same_slots_trans: "same_slots p q \<Longrightarrow> same_slots q r \<Longrightarrow> same_slots p r"
  by (simp add: same_slots_def)

lemma requeue_keeps:
  assumes "own p hs" and "set slots \<subseteq> {..<length (pl_slot_inflight p)}"
  shows "\<exists>q. requeue now path slots p = Inr q \<and> own q hs \<and> same_slots p q \<and> same_links p q
    \<and> flying q = flying p - {slot \<in> set slots. pl_slot_path p ! slot = path}
    \<and> (\<exists>moved. pl_retry q = pl_retry p @ moved \<and> set moved = flying p \<inter> {slot \<in> set slots. pl_slot_path p ! slot = path})"
  using assms
proof (induction slots arbitrary: p)
  case Nil
  then show ?case by (auto simp: same_links_def)
next
  case (Cons slot slots)
  show ?case
  proof (cases "slot \<in> flying p \<and> pl_slot_path p ! slot = path")
    case True
    then have s: "slot \<in> flying p" "pl_slot_path p ! slot = path" "pl_slot_inflight p ! slot"
      by (auto simp: flying_def)
    from own_land [OF Cons.prems(1) s(1), of now] obtain ss where
      ss: "stream_change now False (pl_stream_stats p) = Inr ss" "0 < pl_in_flight p"
      and o: "own (p\<lparr>pl_slot_inflight := (pl_slot_inflight p)[slot := False],
        pl_in_flight := pl_in_flight p - 1, pl_stream_stats := ss\<rparr>) (slot # hs)" by metis
    let ?p = "p\<lparr>pl_slot_inflight := (pl_slot_inflight p)[slot := False], pl_in_flight := pl_in_flight p - 1,
        pl_stream_stats := ss, pl_retry := pl_retry p @ [slot]\<rparr>"
    have o': "own ?p hs" using own_to_retry [OF o] by simp
    have fl: "flying ?p = flying p - {slot}" by (simp only: flying_same flying_off)
    from Cons.IH [OF o'] Cons.prems(2) obtain q moved where q: "requeue now path slots ?p = Inr q" "own q hs" "same_slots ?p q"
      "same_links ?p q" "flying q = flying p - {slot} - {x \<in> set slots. pl_slot_path p ! x = path}"
      "pl_retry q = pl_retry p @ [slot] @ moved"
      "set moved = (flying p - {slot}) \<inter> {x \<in> set slots. pl_slot_path p ! x = path}"
      unfolding fl by auto
    have "requeue now path (slot # slots) p = Inr q" using s ss q(1) by simp
    moreover have "same_slots p q" using q(3) by (simp add: same_slots_def)
    moreover have "same_links p q" using q(4) by (simp add: same_links_def)
    moreover have "set ([slot] @ moved) = flying p \<inter> {x \<in> set (slot # slots). pl_slot_path p ! x = path}"
      using q(7) s(1,2) by auto
    ultimately show ?thesis using q(2,5,6) s(1,2) by fastforce
  next
    case False
    then have "requeue now path (slot # slots) p = requeue now path slots p"
      using Cons.prems(2) by (auto simp: flying_def)
    moreover have "flying p - {x \<in> set (slot # slots). pl_slot_path p ! x = path}
        = flying p - {x \<in> set slots. pl_slot_path p ! x = path}"
      "flying p \<inter> {x \<in> set (slot # slots). pl_slot_path p ! x = path}
        = flying p \<inter> {x \<in> set slots. pl_slot_path p ! x = path}" using False by auto
    ultimately show ?thesis using Cons.IH [OF Cons.prems(1)] Cons.prems(2) by simp
  qed
qed

section \<open>Sessions\<close>

text \<open>
  What the pool relies on of a transport: a fresh session has no command; a command that was submitted is
  in flight under its tag; \<open>poll\<close> finishes one of the commands in flight; \<open>tick\<close> and \<open>inflight\<close> agree. A
  session may have a peer that breaks the protocol: \<open>sound\<close> marks those it cannot panic on.
\<close>

locale fabric_contract =
  fixes F :: "('p, 's) fabric" and tags :: "'s \<Rightarrow> nat multiset" and sound :: "'s \<Rightarrow> bool"
  assumes open_idle: "fb_open F path now = Inr (s, g) \<Longrightarrow> tags s = {#}"
    and submit_adds: "tp_submit (fb_transport F) s tag io buf len m = Inr s' \<Longrightarrow> tags s' = add_mset tag (tags s)"
    and poll_takes: "tp_poll (fb_transport F) s m = (Inr (dn, s'), m') \<Longrightarrow> tags s = add_mset (dn_tag dn) (tags s')"
    and tick_keeps: "tp_tick (fb_transport F) s = Inr s' \<Longrightarrow> tags s' = tags s"
    and inflight_size: "tp_inflight (fb_transport F) s = size (tags s)"
    and check_returns: "tp_check (fb_transport F) s io \<noteq> Inl Panic"
    and submit_sound: "sound s \<Longrightarrow> tp_submit (fb_transport F) s tag io buf len m \<noteq> Inl Panic"
      "sound s \<Longrightarrow> tp_submit (fb_transport F) s tag io buf len m = Inr s' \<Longrightarrow> sound s'"
    and poll_sound: "sound s \<Longrightarrow> tp_poll (fb_transport F) s m \<noteq> (Inl Panic, m')"
      "sound s \<Longrightarrow> tp_poll (fb_transport F) s m = (Inr (dn, s'), m') \<Longrightarrow> sound s'"
    and tick_sound: "sound s \<Longrightarrow> tp_tick (fb_transport F) s \<noteq> Inl Panic"
      "sound s \<Longrightarrow> tp_tick (fb_transport F) s = Inr s' \<Longrightarrow> sound s'"

text \<open>Every path that opens gives a sound session.\<close>

definition opens_sound :: "('p, 's) fabric \<Rightarrow> ('s \<Rightarrow> bool) \<Rightarrow> bool" where
  "opens_sound F sound \<longleftrightarrow> (\<forall>path now. fb_open F path now \<noteq> Inl Panic
     \<and> (\<forall>s g. fb_open F path now = Inr (s, g) \<longrightarrow> sound s))"

lemma opens_soundD:
  "opens_sound F sound \<Longrightarrow> fb_open F path now \<noteq> Inl Panic"
  "opens_sound F sound \<Longrightarrow> fb_open F path now = Inr (s, g) \<Longrightarrow> sound s"
  by (auto simp: opens_sound_def)

definition session_tags :: "('s \<Rightarrow> nat multiset) \<Rightarrow> 's option \<Rightarrow> nat multiset" where
  "session_tags tags so = (case so of None \<Rightarrow> {#} | Some s \<Rightarrow> tags s)"

lemma session_tags_simps [simp]: "session_tags tags None = {#}" "session_tags tags (Some s) = tags s"
  by (simp_all add: session_tags_def)

text \<open>The shape of the per-path lists, and the commands of each session.\<close>

definition shape :: "('p, 's) pool \<Rightarrow> bool" where
  "shape p \<longleftrightarrow> length (pl_down_at p) = length (pl_sessions p) \<and> length (pl_paths p) = length (pl_sessions p)
     \<and> length (pl_stats p) = length (pl_sessions p) \<and> wf_lanes (pl_lanes p)
     \<and> ln_paths (pl_lanes p) = length (pl_sessions p) \<and> 0 < ge_block_len (pl_geometry p)
     \<and> (\<forall>slot\<in>flying p. pl_slot_path p ! slot < length (pl_sessions p))
     \<and> (\<forall>i < length (pl_sessions p). pl_down_at p ! i = None \<longleftrightarrow> pl_sessions p ! i \<noteq> None)"

definition synced :: "('s \<Rightarrow> nat multiset) \<Rightarrow> ('p, 's) pool \<Rightarrow> bool" where
  "synced tags p \<longleftrightarrow>
     (\<forall>i < length (pl_sessions p). session_tags tags (pl_sessions p ! i) = mset_set (on_path p i))"

definition all_sound :: "('s \<Rightarrow> bool) \<Rightarrow> ('p, 's) pool \<Rightarrow> bool" where
  "all_sound sound p \<longleftrightarrow> (\<forall>s. Some s \<in> set (pl_sessions p) \<longrightarrow> sound s)"

text \<open>Everything together: a pool with the slots \<open>hs\<close> in hand.\<close>

definition pool_ok :: "('s \<Rightarrow> nat multiset) \<Rightarrow> ('s \<Rightarrow> bool) \<Rightarrow> ('p, 's) pool \<Rightarrow> nat list \<Rightarrow> bool" where
  "pool_ok tags sound p hs \<longleftrightarrow> own p hs \<and> shape p \<and> synced tags p \<and> all_sound sound p"

lemma all_sound_nth: "all_sound sound p \<Longrightarrow> i < length (pl_sessions p) \<Longrightarrow> pl_sessions p ! i = Some s \<Longrightarrow> sound s"
  by (metis all_sound_def nth_mem)

lemma all_sound_update:
  "all_sound sound p \<Longrightarrow> pl_sessions q = (pl_sessions p)[i := so] \<Longrightarrow> (\<And>s. so = Some s \<Longrightarrow> sound s) \<Longrightarrow> all_sound sound q"
  using set_update_subset_insert [of "pl_sessions p" i so] by (auto simp: all_sound_def)

lemma all_sound_same [simp]:
  "all_sound sound (p\<lparr>pl_retry := x\<rparr>) = all_sound sound p" "all_sound sound (p\<lparr>pl_free := x\<rparr>) = all_sound sound p"
  "all_sound sound (p\<lparr>pl_slot_req := r\<rparr>) = all_sound sound p" "all_sound sound (p\<lparr>pl_lanes := l\<rparr>) = all_sound sound p"
  "all_sound sound (p\<lparr>pl_down_at := dn\<rparr>) = all_sound sound p" "all_sound sound (p\<lparr>pl_stats := st\<rparr>) = all_sound sound p"
  "all_sound sound (p\<lparr>pl_failed := f\<rparr>) = all_sound sound p"
  "all_sound sound (p\<lparr>pl_last_write_path := w\<rparr>) = all_sound sound p"
  "all_sound sound (p\<lparr>pl_slot_inflight := fl\<rparr>) = all_sound sound p"
  "all_sound sound (p\<lparr>pl_in_flight := k\<rparr>) = all_sound sound p"
  "all_sound sound (p\<lparr>pl_stream_stats := ss\<rparr>) = all_sound sound p"
  "all_sound sound (p\<lparr>pl_slot_started := ts\<rparr>) = all_sound sound p"
  "all_sound sound (p\<lparr>pl_slot_path := ps\<rparr>) = all_sound sound p"
  by (simp_all add: all_sound_def)

lemma all_sound_set:
  "all_sound sound p \<Longrightarrow> sound s \<Longrightarrow> all_sound sound (p\<lparr>pl_sessions := (pl_sessions p)[i := Some s]\<rparr>)"
  by (rule all_sound_update) auto

lemma wf_lanes_updates [simp]:
  "wf_lanes (set_tier i t l) = wf_lanes l" "wf_lanes (mark_available i l) = wf_lanes l"
  "wf_lanes (mark_unavailable i l) = wf_lanes l" "wf_lanes (lanes_record i n l) = wf_lanes l"
  "ln_paths (set_tier i t l) = ln_paths l" "ln_paths (mark_available i l) = ln_paths l"
  "ln_paths (mark_unavailable i l) = ln_paths l" "ln_paths (lanes_record i n l) = ln_paths l"
  by (simp_all add: wf_lanes_def set_tier_def mark_available_def mark_unavailable_def lanes_record_def Let_def)

lemma on_path_same [simp]:
  "on_path (p\<lparr>pl_retry := x\<rparr>) i = on_path p i" "on_path (p\<lparr>pl_free := x\<rparr>) i = on_path p i"
  "on_path (p\<lparr>pl_slot_req := r\<rparr>) i = on_path p i" "on_path (p\<lparr>pl_lanes := l\<rparr>) i = on_path p i"
  "on_path (p\<lparr>pl_sessions := ses\<rparr>) i = on_path p i" "on_path (p\<lparr>pl_down_at := dn\<rparr>) i = on_path p i"
  "on_path (p\<lparr>pl_stats := st\<rparr>) i = on_path p i" "on_path (p\<lparr>pl_failed := f\<rparr>) i = on_path p i"
  "on_path (p\<lparr>pl_last_write_path := w\<rparr>) i = on_path p i"
  by (simp_all add: on_path_def)

lemma shape_same [simp]:
  "shape (p\<lparr>pl_retry := x\<rparr>) = shape p" "shape (p\<lparr>pl_free := x\<rparr>) = shape p" "shape (p\<lparr>pl_slot_req := r\<rparr>) = shape p"
  "shape (p\<lparr>pl_failed := f\<rparr>) = shape p" "shape (p\<lparr>pl_last_write_path := w\<rparr>) = shape p"
  by (simp_all add: shape_def)

lemma synced_same [simp]:
  "synced tags (p\<lparr>pl_retry := x\<rparr>) = synced tags p" "synced tags (p\<lparr>pl_free := x\<rparr>) = synced tags p"
  "synced tags (p\<lparr>pl_slot_req := r\<rparr>) = synced tags p" "synced tags (p\<lparr>pl_lanes := l\<rparr>) = synced tags p"
  "synced tags (p\<lparr>pl_down_at := dn\<rparr>) = synced tags p" "synced tags (p\<lparr>pl_stats := st\<rparr>) = synced tags p"
  "synced tags (p\<lparr>pl_failed := f\<rparr>) = synced tags p" "synced tags (p\<lparr>pl_last_write_path := w\<rparr>) = synced tags p"
  by (simp_all add: synced_def)

lemma shape_stats [simp]: "shape (p\<lparr>pl_stats := (pl_stats p)[i := st]\<rparr>) = shape p"
  by (simp add: shape_def)

lemma shape_lanes: "shape p \<Longrightarrow> wf_lanes l \<Longrightarrow> ln_paths l = ln_paths (pl_lanes p) \<Longrightarrow> shape (p\<lparr>pl_lanes := l\<rparr>)"
  by (simp add: shape_def)

lemma pool_ok_lanes:
  "pool_ok tags sound p hs \<Longrightarrow> wf_lanes l \<Longrightarrow> ln_paths l = ln_paths (pl_lanes p) \<Longrightarrow> pool_ok tags sound (p\<lparr>pl_lanes := l\<rparr>) hs"
  by (simp add: pool_ok_def shape_lanes)

text \<open>Dropping a path: its commands come back and nothing else changes.\<close>

lemma disconnect_keeps:
  assumes ok: "pool_ok tags sound p hs" and path: "path < length (pl_sessions p)"
  shows "\<exists>q. disconnect now path p = Inr q \<and> pool_ok tags sound q hs \<and> same_slots p q
    \<and> pl_sessions q = (pl_sessions p)[path := None] \<and> flying q = flying p - on_path p path
    \<and> (\<exists>moved. pl_retry q = pl_retry p @ moved \<and> set moved = on_path p path)"
proof -
  let ?p = "p\<lparr>pl_sessions := (pl_sessions p)[path := None],
          pl_down_at := (pl_down_at p)[path := Some now],
          pl_stats := (pl_stats p)[path := (pl_stats p ! path)\<lparr>pt_disconnects := pt_disconnects (pl_stats p ! path) + 1\<rparr>],
          pl_lanes := mark_unavailable path (pl_lanes p)\<rparr>"
  have o: "own ?p hs" using ok by (simp add: pool_ok_def)
  have sub: "set [0..<length (pl_slot_inflight p)] \<subseteq> {..<length (pl_slot_inflight ?p)}" by auto
  from requeue_keeps [OF o sub, of now path] obtain q moved where
    r: "requeue now path [0..<length (pl_slot_inflight p)] ?p = Inr q" "own q hs" "same_slots ?p q" "same_links ?p q"
      "flying q = flying ?p - {slot \<in> set [0..<length (pl_slot_inflight p)]. pl_slot_path ?p ! slot = path}"
      "pl_retry q = pl_retry ?p @ moved"
      "set moved = flying ?p \<inter> {slot \<in> set [0..<length (pl_slot_inflight p)]. pl_slot_path ?p ! slot = path}"
    by blast
  have q: "disconnect now path p = Inr q" "own q hs" "same_slots ?p q" "same_links ?p q"
      "flying q = flying p - on_path p path" "pl_retry q = pl_retry p @ moved" "set moved = on_path p path"
    using r(2-4) r(1,6) unfolding disconnect_def r(5,7) by (auto simp: on_path_def flying_def)
  have ss: "same_slots p q" using q(3) by (simp add: same_slots_def)
  have ses: "pl_sessions q = (pl_sessions p)[path := None]" using q(4) by (simp add: same_links_def)
  have sh: "shape q"
    using ok q(3,4,5) path by (auto simp: pool_ok_def shape_def same_slots_def same_links_def nth_list_update)
  have on: "on_path q i = (if i = path then {} else on_path p i)" for i
    using q(5) ss by (auto simp: on_path_def same_slots_def)
  have "synced tags q"
    using ok path by (auto simp: synced_def pool_ok_def ses on nth_list_update)
  moreover have "all_sound sound q" using ok all_sound_update [OF _ ses] by (simp add: pool_ok_def)
  ultimately show ?thesis using q ss ses sh by (auto simp: pool_ok_def)
qed

text \<open>Sending and landing a command on a session.\<close>

lemma shape_sent:
  assumes "shape p" and "path < length (pl_sessions p)" and "slot < length (pl_slot_inflight p)"
    and "length (pl_slot_path p) = length (pl_slot_inflight p)" and "pl_sessions p ! path \<noteq> None"
  shows "shape (p\<lparr>pl_sessions := (pl_sessions p)[path := Some s], pl_slot_inflight := (pl_slot_inflight p)[slot := True],
      pl_stats := (pl_stats p)[path := st], pl_slot_started := x, pl_slot_path := (pl_slot_path p)[slot := path],
      pl_in_flight := k, pl_stream_stats := ss\<rparr>)"
  using assms by (auto simp: shape_def flying_def nth_list_update)

lemma synced_sent:
  assumes sy: "synced tags p" and path: "path < length (pl_sessions p)" and slot: "slot < length (pl_slot_inflight p)"
    "length (pl_slot_path p) = length (pl_slot_inflight p)" "slot \<notin> flying p"
    and t: "tags s = add_mset slot (session_tags tags (pl_sessions p ! path))"
  shows "synced tags (p\<lparr>pl_sessions := (pl_sessions p)[path := Some s], pl_slot_inflight := (pl_slot_inflight p)[slot := True],
      pl_stats := st, pl_slot_started := x, pl_slot_path := (pl_slot_path p)[slot := path],
      pl_in_flight := k, pl_stream_stats := ss\<rparr>)" (is "synced tags ?p")
proof -
  have "on_path ?p i = (if i = path then insert slot (on_path p i) else on_path p i)" for i
    using slot by (auto simp: on_path_def flying_def nth_list_update)
  moreover have "slot \<notin> on_path p path" using slot by (simp add: on_path_def)
  ultimately show ?thesis using sy t path by (auto simp: synced_def nth_list_update)
qed

lemma flying_landed:
  "slot \<in> flying p \<Longrightarrow> flying (p\<lparr>pl_sessions := ses, pl_slot_inflight := (pl_slot_inflight p)[slot := False],
      pl_in_flight := k, pl_stream_stats := ss\<rparr>) = flying p - {slot}"
  by (auto simp: flying_def nth_list_update)

lemma landed:
  assumes ok: "pool_ok tags sound p hs" and path: "path < length (pl_sessions p)" and s: "pl_sessions p ! path = Some s"
    and t: "tags s = add_mset slot (tags s')" and snd: "sound s'"
  obtains ss where "stream_change now False (pl_stream_stats p) = Inr ss" "slot < length (pl_slot_inflight p)"
    "0 < pl_in_flight p"
    "pool_ok tags sound (p\<lparr>pl_sessions := (pl_sessions p)[path := Some s'], pl_slot_inflight := (pl_slot_inflight p)[slot := False],
       pl_in_flight := pl_in_flight p - 1, pl_stream_stats := ss\<rparr>) (slot # hs)"
proof -
  have eq: "add_mset slot (tags s') = mset_set (on_path p path)"
    using ok path s t by (auto simp: pool_ok_def synced_def)
  then have "slot \<in># mset_set (on_path p path)" by (metis union_single_eq_member)
  then have on: "slot \<in> on_path p path" by simp
  then have fl: "slot \<in> flying p" by (simp add: on_path_def)
  from own_land [OF _ fl, of hs now] ok obtain ss where
    ss: "stream_change now False (pl_stream_stats p) = Inr ss" "0 < pl_in_flight p"
    and o: "own (p\<lparr>pl_slot_inflight := (pl_slot_inflight p)[slot := False],
        pl_in_flight := pl_in_flight p - 1, pl_stream_stats := ss\<rparr>) (slot # hs)" by (auto simp: pool_ok_def)
  let ?q = "p\<lparr>pl_sessions := (pl_sessions p)[path := Some s'], pl_slot_inflight := (pl_slot_inflight p)[slot := False],
       pl_in_flight := pl_in_flight p - 1, pl_stream_stats := ss\<rparr>"
  have "own ?q (slot # hs)" using o by (simp add: own_def flying_def)
  note flq = flying_landed [OF fl]
  have "tags s' = mset_set (on_path p path - {slot})"
    using eq mset_set_move [OF finite_on_path on] by simp
  moreover have "on_path ?q i = (if i = path then on_path p i - {slot} else on_path p i)" for i
    using on by (auto simp: on_path_def flq)
  ultimately have "synced tags ?q"
    using ok path by (auto simp: synced_def pool_ok_def nth_list_update)
  moreover have "shape ?q" using ok s path by (auto simp: pool_ok_def shape_def flq nth_list_update)
  ultimately show thesis
    using that ss fl \<open>own ?q (slot # hs)\<close> ok all_sound_set [of sound p s' path] snd by (auto simp: pool_ok_def flying_def)
qed

end
