(* ===== verification/Pool_Drive.thy ===== *)
theory Pool_Drive
  imports Pool_Slots
begin

text \<open>
  The invariant of \<open>drive\<close> in \<open>src/rust/src/paths/pool.rs\<close> for streamed runs, step by step and over a whole
  run, proved once under \<open>fabric_contract\<close>: a run never panics, always knows where each slot is, keeps
  clashing requests apart, and always has a session to wait on while something is in flight.
\<close>

section \<open>The steps of drive\<close>

definition held_slots :: "('p, 's, 'c) drive \<Rightarrow> nat list" where
  "held_slots d = (case dv_held d of None \<Rightarrow> [] | Some (slot, req) \<Rightarrow> [slot])"

definition failed_run :: "('p, 's, 'c) drive \<Rightarrow> bool" where
  "failed_run d \<longleftrightarrow> (\<exists>e. dv_phase d = Returned (Inl e))"

text \<open>A run that failed may have lost the slot of the command that failed it; no other run does.\<close>

definition drive_ok :: "('s \<Rightarrow> nat multiset) \<Rightarrow> ('s \<Rightarrow> bool) \<Rightarrow> ('p, 's, 'c) drive \<Rightarrow> bool" where
  "drive_ok tags sound d \<longleftrightarrow> (\<exists>hs. pool_ok tags sound (dv_pool d) hs \<and> (failed_run d \<or> hs = held_slots d))
     \<and> (\<forall>slot req. dv_held d = Some (slot, req) \<longrightarrow> pl_slot_req (dv_pool d) ! slot = req)"

lemma drive_okI:
  "pool_ok tags sound (dv_pool d) (held_slots d) \<Longrightarrow>
   (\<And>slot req. dv_held d = Some (slot, req) \<Longrightarrow> pl_slot_req (dv_pool d) ! slot = req) \<Longrightarrow> drive_ok tags sound d"
  by (auto simp: drive_ok_def)

lemma drive_okD:
  "drive_ok tags sound d \<Longrightarrow> \<not> failed_run d \<Longrightarrow> pool_ok tags sound (dv_pool d) (held_slots d)"
  "drive_ok tags sound d \<Longrightarrow> dv_held d = Some (slot, req) \<Longrightarrow> pl_slot_req (dv_pool d) ! slot = req"
  by (auto simp: drive_ok_def)

lemma upt_below: "set [0..<n] \<subseteq> {..<n}"
  by auto

text \<open>The steps on the paths keep the slots as they are.\<close>

definition steady :: "('s \<Rightarrow> nat multiset) \<Rightarrow> ('s \<Rightarrow> bool) \<Rightarrow> nat list \<Rightarrow> ('p, 's) pool \<Rightarrow> ('p, 's) pool \<Rightarrow> bool" where
  "steady tags sound hs p q \<longleftrightarrow> pool_ok tags sound q hs \<and> same_slots p q \<and> length (pl_sessions q) = length (pl_sessions p)"

lemma steady_trans: "steady tags sound hs p q \<Longrightarrow> steady tags sound hs q r \<Longrightarrow> steady tags sound hs p r"
  by (auto simp: steady_def intro: same_slots_trans)

lemma steady_refl: "pool_ok tags sound p hs \<Longrightarrow> steady tags sound hs p p"
  by (simp add: steady_def)

lemma steady_drive:
  assumes "drive_ok tags sound d" and "\<not> failed_run d" and "steady tags sound (held_slots d) (dv_pool d) q"
  shows "drive_ok tags sound (d\<lparr>dv_pool := q\<rparr>)" and "drive_ok tags sound (d\<lparr>dv_pool := q, dv_phase := ph\<rparr>)"
    and "drive_ok tags sound (d\<lparr>dv_pool := q, dv_memory := m, dv_phase := ph\<rparr>)"
  using assms by (auto simp: drive_ok_def steady_def same_slots_def held_slots_def)

lemma disconnect_steady:
  assumes "pool_ok tags sound p hs" and "path < length (pl_sessions p)"
  obtains q where "disconnect now path p = Inr q" "steady tags sound hs p q"
  using disconnect_keeps [OF assms, of now] by (auto simp: steady_def)

lemma pick_available_same:
  "pick_available l = (l', c) \<Longrightarrow> wf_lanes l \<Longrightarrow> wf_lanes l' \<and> ln_paths l' = ln_paths l"
  using pick_same by (auto simp: pick_available_def split: prod.splits)

lemma pick_available_avoiding_same:
  assumes "pick_available_avoiding avoid l = (l', c)" and "wf_lanes l"
  shows "wf_lanes l' \<and> ln_paths l' = ln_paths l"
proof -
  obtain l1 start where l1: "(case ln_policy l of
            RoundRobin \<Rightarrow> (l, unat (ln_next l) mod ln_paths l)
          | ReverseRoundRobin \<Rightarrow> (l, ln_paths l - 1 - unat (ln_next l) mod ln_paths l)
          | _ \<Rightarrow> pick l) = (l1, start)" by fastforce
  then have "wf_lanes l1 \<and> ln_paths l1 = ln_paths l"
    using assms(2) pick_same(1,3) by (auto split: policy.splits)
  then show ?thesis
    using assms(1) pick_available_same [of l1 l' c] unfolding pick_available_avoiding_def l1
    by (auto split: option.splits)
qed

lemma path_with_room_spec:
  assumes wf: "wf_lanes (pl_lanes p)" and r: "path_with_room F verify p = (q, c)"
  shows "\<exists>l. q = p\<lparr>pl_lanes := l\<rparr> \<and> wf_lanes l \<and> ln_paths l = ln_paths (pl_lanes p)"
    and "c = Some path \<Longrightarrow> path < length (pl_sessions p)
      \<and> (\<exists>s. pl_sessions p ! path = Some s \<and> tp_can_submit (fb_transport F) s)"
proof -
  define lf where "lf = (if verify then
           pick_available_avoiding (case pl_last_write_path p of Some w \<Rightarrow> w | None \<Rightarrow> 2 ^ 64 - 1) (pl_lanes p)
         else pick_available (pl_lanes p))"
  obtain l first where lf: "lf = (l, first)" by fastforce
  have l: "wf_lanes l \<and> ln_paths l = ln_paths (pl_lanes p)"
    using lf pick_available_same [OF _ wf] pick_available_avoiding_same [OF _ wf] unfolding lf_def by (cases verify) simp_all
  have r': "path_with_room F verify p = (let p = p\<lparr>pl_lanes := l\<rparr> in case first of
           None \<Rightarrow> (p, None)
         | Some first \<Rightarrow>
             (p, find (\<lambda>i. is_usable l i
                   \<and> (case pl_sessions p ! i of Some s \<Rightarrow> tp_can_submit (fb_transport F) s | None \<Rightarrow> False))
                 (around first (length (pl_sessions p)))))"
    unfolding path_with_room_def lf_def [symmetric] lf by simp
  show "\<exists>l. q = p\<lparr>pl_lanes := l\<rparr> \<and> wf_lanes l \<and> ln_paths l = ln_paths (pl_lanes p)"
    using r l unfolding r' by (auto simp: Let_def split: option.splits)
  assume "c = Some path"
  with r obtain f where f: "find (\<lambda>i. is_usable l i
        \<and> (case pl_sessions p ! i of Some s \<Rightarrow> tp_can_submit (fb_transport F) s | None \<Rightarrow> False))
      (around f (length (pl_sessions p))) = Some path"
    unfolding r' by (auto simp: Let_def split: option.splits)
  have "path \<in> set (around f (length (pl_sessions p)))" using find_in_set(2) [OF f] by blast
  then have "path < length (pl_sessions p)" by (cases "0 < length (pl_sessions p)") (auto simp: around_def)
  then show "path < length (pl_sessions p) \<and> (\<exists>s. pl_sessions p ! path = Some s \<and> tp_can_submit (fb_transport F) s)"
    using find_in_set(2) [OF f] by (auto split: option.splits)
qed

context fabric_contract
begin

lemma reconnect_path_steady:
  assumes snd: "opens_sound F sound" and ok: "pool_ok tags sound p hs" and i: "i < length (pl_sessions p)"
  shows "\<exists>q. reconnect_path F now i p = Inr q \<and> steady tags sound hs p q"
proof (cases "\<exists>since s g. pl_down_at p ! i = Some since \<and> \<not> now - since < reconnect_after \<and> fb_open F (pl_paths p ! i) now = Inr (s, g)")
  case False
  then have "reconnect_path F now i p = Inr p
      \<or> (pl_down_at p ! i \<noteq> None \<and> reconnect_path F now i p = Inr (p\<lparr>pl_down_at := (pl_down_at p)[i := Some now]\<rparr>))"
    using opens_soundD(1) [OF snd]
    by (auto simp: reconnect_path_def split: option.splits sum.splits error.splits)
  moreover have "steady tags sound hs p (p\<lparr>pl_down_at := (pl_down_at p)[i := Some now]\<rparr>)" if "pl_down_at p ! i \<noteq> None"
    using ok i that
    by (auto simp: steady_def pool_ok_def shape_def same_slots_def nth_list_update split: if_splits)
  ultimately show ?thesis using steady_refl [OF ok] by auto
next
  case True
  then obtain since s g where d: "pl_down_at p ! i = Some since" "\<not> now - since < reconnect_after"
    and o: "fb_open F (pl_paths p ! i) now = Inr (s, g)" by blast
  have none: "pl_sessions p ! i = None" using ok i d by (auto simp: pool_ok_def shape_def)
  then have "mset_set (on_path p i) = {#}" using ok i unfolding pool_ok_def synced_def by (metis session_tags_simps(1))
  then have e: "on_path p i = {}" by (simp add: mset_set_empty_iff)
  let ?q = "p\<lparr>pl_sessions := (pl_sessions p)[i := Some s], pl_down_at := (pl_down_at p)[i := None],
      pl_stats := (pl_stats p)[i := (pl_stats p ! i)\<lparr>pt_reconnects := pt_reconnects (pl_stats p ! i) + 1\<rparr>],
      pl_lanes := mark_available i (set_tier i (session_tier F s) (pl_lanes p))\<rparr>"
  have eq: "reconnect_path F now i p = Inr ?q" using d o by (simp add: reconnect_path_def)
  have "synced tags ?q"
    using ok e i open_idle [OF o] by (auto simp: synced_def pool_ok_def nth_list_update)
  moreover have "shape ?q" using ok i by (auto simp: shape_def pool_ok_def nth_list_update)
  moreover have "own ?q hs" using ok by (simp add: pool_ok_def)
  moreover have "all_sound sound ?q"
    using ok all_sound_set [of sound p s i] opens_soundD(2) [OF snd o] by (simp add: pool_ok_def)
  ultimately show ?thesis unfolding eq by (auto simp: steady_def pool_ok_def same_slots_def)
qed

lemma try_reconnect_steady:
  assumes snd: "opens_sound F sound" and ok: "pool_ok tags sound p hs"
  shows "\<exists>q. try_reconnect F now p = Inr q \<and> steady tags sound hs p q"
proof -
  have "\<exists>r. reconnect_paths F now is q = Inr r \<and> steady tags sound hs p r"
    if "set is \<subseteq> {..<length (pl_sessions p)}" "steady tags sound hs p q" for "is" q
    using that
  proof (induction "is" arbitrary: q)
    case (Cons i "is")
    have "pool_ok tags sound q hs" "i < length (pl_sessions q)" using Cons.prems by (auto simp: steady_def)
    from reconnect_path_steady [OF snd this, of now] obtain r
      where r: "reconnect_path F now i q = Inr r" "steady tags sound hs q r" by blast
    then show ?case using Cons.IH [of r] Cons.prems by (auto intro: steady_trans)
  qed simp
  from this [OF upt_below steady_refl [OF ok]] show ?thesis by (simp add: try_reconnect_def)
qed

lemma tick_paths_steady:
  assumes "pool_ok tags sound p hs" and "set paths \<subseteq> {..<length (pl_sessions p)}"
  shows "\<exists>q. tick_paths F now paths p = Inr q \<and> steady tags sound hs p q"
  using assms
proof (induction paths arbitrary: p)
  case Nil
  then show ?case by (simp add: steady_refl)
next
  case (Cons path paths)
  have path: "path < length (pl_sessions p)" using Cons.prems by simp
  consider (none) "pl_sessions p ! path = None"
    | (ticked) s s' where "pl_sessions p ! path = Some s" "tp_tick (fb_transport F) s = Inr s'"
    | (lost) s e where "pl_sessions p ! path = Some s" "tp_tick (fb_transport F) s = Inl e" "e \<noteq> Panic"
    using tick_sound(1) all_sound_nth [of sound p path] Cons.prems(1) path unfolding pool_ok_def
    by (metis not_None_eq sum.exhaust)
  then show ?case
  proof cases
    case none
    then show ?thesis using Cons by simp
  next
    case ticked
    let ?p = "p\<lparr>pl_sessions := (pl_sessions p)[path := Some s']\<rparr>"
    have "tags s' = mset_set (on_path p path)"
      using tick_keeps [OF ticked(2)] ticked(1) Cons.prems path by (auto simp: pool_ok_def synced_def)
    moreover have "all_sound sound ?p"
      using Cons.prems(1) all_sound_set [of sound p s' path] all_sound_nth [of sound p path s] tick_sound(2) ticked path
      by (simp add: pool_ok_def)
    ultimately have "steady tags sound hs p ?p"
      using Cons.prems path ticked(1)
      by (auto simp: steady_def pool_ok_def synced_def shape_def same_slots_def nth_list_update)
    then show ?thesis
      using Cons.IH [of ?p] Cons.prems ticked by (auto simp: steady_def intro: same_slots_trans)
  next
    case lost
    from disconnect_steady [OF Cons.prems(1) path, of now] obtain q
      where q: "disconnect now path p = Inr q" "steady tags sound hs p q" .
    then show ?thesis
      using Cons.IH [of q] Cons.prems lost by (cases e) (auto simp: steady_def intro: same_slots_trans)
  qed
qed

lemma begin_pass_ok:
  assumes snd: "opens_sound F sound" and ok: "drive_ok tags sound d" and "dv_phase d = Begin"
  shows "\<exists>d'. begin_pass F now d = Inr d' \<and> drive_ok tags sound d'"
proof -
  have nf: "\<not> failed_run d" using assms(3) by (simp add: failed_run_def)
  from try_reconnect_steady [OF snd drive_okD(1) [OF ok nf], of now] obtain p
    where p: "try_reconnect F now (dv_pool d) = Inr p" "steady tags sound (held_slots d) (dv_pool d) p" by blast
  then have "pool_ok tags sound p (held_slots d)" by (simp add: steady_def)
  from tick_paths_steady [OF this upt_below, of now] obtain q
    where q: "tick_paths F now [0..<length (pl_sessions p)] p = Inr q" "steady tags sound (held_slots d) p q" by auto
  from steady_drive(2) [OF ok nf steady_trans [OF p(2) q(2)]] p(1) q(1) show ?thesis
    by (simp add: begin_pass_def)
qed

lemma fetch_ok:
  assumes "drive_ok tags sound d" and "dv_phase d = Sending"
  shows "drive_ok tags sound (fetch C False d)" "dv_phase (fetch C False d) \<in> {Sending, Waiting}"
proof -
  have nf: "\<not> failed_run d" using assms(2) by (simp add: failed_run_def)
  have ok: "pool_ok tags sound (dv_pool d) (held_slots d)" by (rule drive_okD(1) [OF assms(1) nf])
  have req: "pl_slot_req (dv_pool d) ! slot = r" if "dv_held d = Some (slot, r)" for slot r
    using drive_okD(2) [OF assms(1) that] .
  show "dv_phase (fetch C False d) \<in> {Sending, Waiting}"
    using assms(2) by (auto simp: fetch_def Let_def split: prod.splits offer.splits)
  show "drive_ok tags sound (fetch C False d)"
  proof (cases "dv_held d = None")
    case False
    then show ?thesis using assms(1) by (simp add: fetch_def)
  next
    case held: True
    then have ok: "pool_ok tags sound (dv_pool d) []" using ok by (simp add: held_slots_def)
    let ?p = "dv_pool d"
    have taken: "pool_ok tags sound (?p\<lparr>pl_free := butlast (pl_free ?p), pl_slot_req := (pl_slot_req ?p)[last (pl_free ?p) := r]\<rparr>)
        [last (pl_free ?p)]" "last (pl_free ?p) < length (pl_slot_req ?p)" if "pl_free ?p \<noteq> []" for r
    proof -
      have o: "own (?p\<lparr>pl_free := butlast (pl_free ?p)\<rparr>) [last (pl_free ?p)]"
        using own_from_free [OF _ that] ok by (simp add: pool_ok_def)
      from own_set_req [OF o, of r] ok own_hand(1) [OF o]
      show "pool_ok tags sound (?p\<lparr>pl_free := butlast (pl_free ?p), pl_slot_req := (pl_slot_req ?p)[last (pl_free ?p) := r]\<rparr>)
        [last (pl_free ?p)]" "last (pl_free ?p) < length (pl_slot_req ?p)" by (simp_all add: pool_ok_def own_def)
    qed
    have again: "pool_ok tags sound (?p\<lparr>pl_retry := butlast (pl_retry ?p)\<rparr>) [last (pl_retry ?p)]" if "pl_retry ?p \<noteq> []"
      using own_from_retry [OF _ that] ok by (simp add: pool_ok_def)
    show ?thesis
      using held ok again taken
      by (auto simp: fetch_def Let_def held_slots_def intro!: drive_okI split: prod.splits offer.splits)
  qed
qed

lemma sent_ok:
  assumes d: "drive_ok tags sound d" and nf: "\<not> failed_run d" and held: "dv_held d = Some (slot, req)"
    and p: "steady tags sound (held_slots d) (dv_pool d) p" and free: "\<not> overlaps_in_flight req p"
    and path: "path < length (pl_sessions p)" "pl_sessions p ! path = Some s"
    and sub: "tp_submit (fb_transport F) s slot io buf len m = Inr s'"
  shows "\<exists>q. sent F now slot path s' p = Inr q \<and> drive_ok tags sound (d\<lparr>dv_pool := q, dv_held := None\<rparr>)"
proof -
  have o: "own p [slot]" and sh: "shape p" and sy: "synced tags p"
    using p held by (simp_all add: steady_def pool_ok_def held_slots_def)
  have req: "pl_slot_req p ! slot = req" using p drive_okD(2) [OF d held] by (simp add: steady_def same_slots_def)
  from stream_change_on obtain ss where ss: "stream_change now True (pl_stream_stats p) = Inr ss"
    "ss_in_flight ss = ss_in_flight (pl_stream_stats p) + 1" by blast
  have len: "length (pl_slot_path p) = length (pl_slot_inflight p)" using o by (simp add: own_def)
  have sd: "all_sound sound p" using p by (simp add: steady_def pool_ok_def)
  have "sound s'" using submit_sound(2) [OF all_sound_nth [OF sd path] sub] .
  with sd have sd': "all_sound sound (p\<lparr>pl_sessions := (pl_sessions p)[path := Some s']\<rparr>)" by (rule all_sound_set)
  have t: "tags s' = add_mset slot (session_tags tags (pl_sessions p ! path))"
    using submit_adds [OF sub] path(2) by simp
  show ?thesis
    using own_sent [OF o req free ss(2)] shape_sent [OF sh path(1) own_hand(1) [OF o] len]
      synced_sent [OF sy path(1) own_hand(1) [OF o] len own_hand(2) [OF o] t] path(2) ss(1) sd'
    by (auto simp: sent_def Let_def pool_ok_def held_slots_def intro!: drive_okI)
qed


lemma dispatch_ok:
  assumes snd: "opens_sound F sound" and d: "drive_ok tags sound d" and ph: "dv_phase d = Sending \<or> dv_phase d = Waiting" and held: "dv_held d = Some (slot, req)"
  shows "\<exists>d'. dispatch F now slot req d = Inr d' \<and> drive_ok tags sound d'"
proof -
  have nf: "\<not> failed_run d" using ph by (auto simp: failed_run_def)
  have ok: "pool_ok tags sound (dv_pool d) (held_slots d)" by (rule drive_okD(1) [OF d nf])
  have block: "0 < ge_block_len (pl_geometry (dv_pool d))" using ok by (simp add: pool_ok_def shape_def)
  have stop: "drive_ok tags sound (d\<lparr>dv_phase := ph\<rparr>)" for ph
    using steady_drive(2) [OF d nf steady_refl [OF ok], of ph] by simp
  obtain p c where pc: "path_with_room F (req_verify req \<and> \<not> req_write req) (dv_pool d) = (p, c)" by fastforce
  have wf: "wf_lanes (pl_lanes (dv_pool d))" using ok by (simp add: pool_ok_def shape_def)
  note room = path_with_room_spec [OF wf pc]
  from room(1) obtain l where l: "p = (dv_pool d)\<lparr>pl_lanes := l\<rparr>" "wf_lanes l" "ln_paths l = ln_paths (pl_lanes (dv_pool d))"
    by blast
  have p: "steady tags sound (held_slots d) (dv_pool d) p"
    using pool_ok_lanes [OF ok l(2,3)] l(1) by (simp add: steady_def same_slots_def)
  have okp: "pool_ok tags sound p (held_slots d)" using p by (simp add: steady_def)
  obtain l2 first where l2: "pick_available (pl_lanes p) = (l2, first)" by fastforce
  have "wf_lanes l2 \<and> ln_paths l2 = ln_paths (pl_lanes p)" using pick_available_same [OF l2] l by simp
  then have p2: "steady tags sound (held_slots d) (dv_pool d) (p\<lparr>pl_lanes := l2\<rparr>)"
    using pool_ok_lanes [OF okp] p by (simp add: steady_def same_slots_def)
  from try_reconnect_steady [OF snd okp, of now] obtain p3
    where p3: "try_reconnect F now p = Inr p3" "steady tags sound (held_slots d) p p3" by blast
  note on_paths = steady_drive(1,2) [OF d nf p] steady_drive(1,2) [OF d nf p2]
    steady_drive(1) [OF d nf steady_trans [OF p p3(2)]]
  show ?thesis
  proof (cases "overlaps_in_flight req (dv_pool d) \<or> c = None")
    case True
    then show ?thesis
      using block stop on_paths p3(1) by (auto simp: dispatch_def Let_def pc l2 split: sum.splits)
  next
    case False
    then obtain path where path: "c = Some path" and free: "\<not> overlaps_in_flight req p"
      by (auto simp: l(1) overlaps_in_flight_def)
    from room(2) [OF path] obtain s where s: "path < length (pl_sessions p)" "pl_sessions p ! path = Some s"
      by (auto simp: l(1))
    from disconnect_steady [OF okp s(1), of now] obtain q
      where q: "disconnect now path p = Inr q" "steady tags sound (held_slots d) p q" .
    have lost: "drive_ok tags sound (d\<lparr>dv_pool := q\<rparr>)" by (rule steady_drive(1) [OF d nf steady_trans [OF p q(2)]])
    have "sound s" using okp all_sound_nth [of sound, OF _ s] unfolding pool_ok_def by blast
    note no_panic = check_returns submit_sound(1) [OF this]
    have eq: "dispatch F now slot req d = (case tp_check (fb_transport F) s io of
          Inl e \<Rightarrow> Inr (d\<lparr>dv_pool := p, dv_phase := Returned (Inl e)\<rparr>)
        | Inr _ \<Rightarrow> (case tp_submit (fb_transport F) s slot io slot (req_len req) (dv_memory d) of
            Inl _ \<Rightarrow> Inr (d\<lparr>dv_pool := q\<rparr>)
          | Inr s' \<Rightarrow> and_then (sent F now slot path s' p) (\<lambda>p. Inr (d\<lparr>dv_pool := p, dv_held := None\<rparr>))))"
      if "req_offset req mod ge_block_len (pl_geometry (dv_pool d)) = 0"
        "req_len req mod ge_block_len (pl_geometry (dv_pool d)) = 0"
        "io_of req (ge_block_len (pl_geometry (dv_pool d))) = Inr io" for io
      using that block False no_panic
      by (simp add: dispatch_def Let_def pc path s(2) q(1) split: sum.splits error.splits)
    have "\<exists>d'. dispatch F now slot req d = Inr d' \<and> drive_ok tags sound d'"
      if io: "req_offset req mod ge_block_len (pl_geometry (dv_pool d)) = 0"
        "req_len req mod ge_block_len (pl_geometry (dv_pool d)) = 0"
        "io_of req (ge_block_len (pl_geometry (dv_pool d))) = Inr io" for io
      unfolding eq [OF io]
      using on_paths(2) lost sent_ok [OF d nf held p free s, of io slot "req_len req" "dv_memory d" _ now]
      by (fastforce split: sum.splits)
    then show ?thesis
      using block stop by (cases "io_of req (ge_block_len (pl_geometry (dv_pool d)))")
        (auto simp: dispatch_def Let_def)
  qed
qed

lemma send_step_ok:
  assumes snd: "opens_sound F sound" and "drive_ok tags sound d" and "dv_phase d = Sending"
  shows "\<exists>d'. send_step F C False now d = Inr d' \<and> drive_ok tags sound d'"
  using fetch_ok [OF assms(2,3), of C] dispatch_ok [OF snd, of "fetch C False d" _ _ now]
  by (auto simp: send_step_def Let_def split: option.splits)


lemma completion_ok:
  assumes d: "drive_ok tags sound d" and nf: "\<not> failed_run d" and path: "path < length (pl_sessions (dv_pool d))"
    and s: "pl_sessions (dv_pool d) ! path = Some s" and poll: "tp_poll (fb_transport F) s m = (Inr (dn, s'), m')"
  shows "\<exists>d'. completion F C False now path dn
      (d\<lparr>dv_pool := (dv_pool d)\<lparr>pl_sessions := (pl_sessions (dv_pool d))[path := Some s']\<rparr>, dv_memory := m'\<rparr>) = Inr d'
    \<and> drive_ok tags sound d'"
proof -
  let ?p = "dv_pool d"
  have ok: "pool_ok tags sound ?p (held_slots d)" by (rule drive_okD(1) [OF d nf])
  have "sound s" using ok all_sound_nth [of sound, OF _ path s] unfolding pool_ok_def by blast
  then have "sound s'" using poll by (rule poll_sound(2))
  from landed [OF ok path s poll_takes [OF poll] this, of now] obtain ss where
    ss: "stream_change now False (pl_stream_stats ?p) = Inr ss" "dn_tag dn < length (pl_slot_inflight ?p)" "0 < pl_in_flight ?p"
    and q: "pool_ok tags sound (?p\<lparr>pl_sessions := (pl_sessions ?p)[path := Some s'], pl_slot_inflight := (pl_slot_inflight ?p)[dn_tag dn := False],
       pl_in_flight := pl_in_flight ?p - 1, pl_stream_stats := ss\<rparr>) (dn_tag dn # held_slots d)" by blast
  define q where "q = ?p\<lparr>pl_sessions := (pl_sessions ?p)[path := Some s'], pl_slot_inflight := (pl_slot_inflight ?p)[dn_tag dn := False],
       pl_in_flight := pl_in_flight ?p - Suc 0, pl_stream_stats := ss\<rparr>"
  have okq: "pool_ok tags sound q (dn_tag dn # held_slots d)" using q by (simp add: q_def)
  have sh: "shape (q\<lparr>pl_lanes := l, pl_stats := (pl_stats q)[path := st]\<rparr>)" if "wf_lanes l" "ln_paths l = ln_paths (pl_lanes q)" for l st
    using okq that by (simp add: pool_ok_def shape_def)
  have freed: "pool_ok tags sound (q\<lparr>pl_lanes := lanes_record path n (pl_lanes q), pl_stats := (pl_stats q)[path := st],
      pl_last_write_path := w, pl_free := pl_free q @ [dn_tag dn]\<rparr>) (held_slots d)" for n st w
    using okq own_to_free [of q "dn_tag dn"] sh [of "lanes_record path n (pl_lanes q)" st] by (simp add: pool_ok_def shape_def own_def)
  have kept: "pool_ok tags sound (q\<lparr>pl_lanes := lanes_record path n (pl_lanes q), pl_stats := (pl_stats q)[path := st],
      pl_free := pl_free q @ [dn_tag dn]\<rparr>) (held_slots d)" for n st
    using okq own_to_free [of q "dn_tag dn"] sh [of "lanes_record path n (pl_lanes q)" st] by (simp add: pool_ok_def shape_def own_def)
  have requeued: "pool_ok tags sound (q\<lparr>pl_failed := f, pl_stats := (pl_stats q)[path := st],
      pl_lanes := mark_unavailable path (pl_lanes q), pl_retry := pl_retry q @ [dn_tag dn]\<rparr>) (held_slots d)" for f st
    using okq own_to_retry [of q "dn_tag dn"] sh [of "mark_unavailable path (pl_lanes q)" st] by (simp add: pool_ok_def shape_def own_def)
  have req: "pl_slot_req q = pl_slot_req ?p" "pl_lanes q = pl_lanes ?p" "pl_stats q = pl_stats ?p"
    "pl_free q = pl_free ?p" "pl_retry q = pl_retry ?p" by (simp_all add: q_def)
  note held = drive_okD(2) [OF d]
  let ?d = "d\<lparr>dv_pool := ?p\<lparr>pl_sessions := (pl_sessions ?p)[path := Some s']\<rparr>, dv_memory := m'\<rparr>"
  consider "dn_status dn = 0" | "dn_status dn \<noteq> 0" "dn_unavailable dn" | "dn_status dn \<noteq> 0" "\<not> dn_unavailable dn" by blast
  then show ?thesis
  proof cases
    case 1
    then show ?thesis
      using ss held freed kept by (auto simp: completion_def Let_def q_def [symmetric] held_slots_def req intro!: drive_okI)
  next
    case 2
    then show ?thesis
      using ss held requeued by (auto simp: completion_def Let_def q_def [symmetric] held_slots_def req intro!: drive_okI)
  next
    case 3
    then show ?thesis
      using ss held okq by (auto simp: completion_def Let_def q_def [symmetric] req drive_ok_def failed_run_def)
  qed
qed


lemma busy_path_Some:
  assumes ok: "pool_ok tags sound p hs" and pos: "0 < pl_in_flight p"
  obtains path s where "busy_path F p = Some path" "path < length (pl_sessions p)" "pl_sessions p ! path = Some s"
proof -
  have "0 < card (flying p)" using ok pos by (simp add: pool_ok_def own_def)
  then obtain slot where slot: "slot \<in> flying p" by (fastforce simp: card_gt_0_iff)
  let ?i = "pl_slot_path p ! slot"
  have i: "?i < length (pl_sessions p)" using ok slot by (auto simp: pool_ok_def shape_def)
  have "slot \<in> on_path p ?i" using slot by (simp add: on_path_def)
  then have "session_tags tags (pl_sessions p ! ?i) \<noteq> {#}"
    using ok i by (auto simp: pool_ok_def synced_def mset_set_empty_iff)
  then have busy: "case pl_sessions p ! ?i of Some s \<Rightarrow> 0 < tp_inflight (fb_transport F) s | None \<Rightarrow> False"
    by (auto simp: session_tags_def inflight_size nonempty_has_size split: option.splits)
  then have "busy_path F p \<noteq> None" using i by (auto simp: busy_path_def find_in_set(1))
  then obtain path where path: "busy_path F p = Some path" by blast
  from find_in_set(2) [OF path [unfolded busy_path_def]] show thesis
    by (auto split: option.splits intro: that [OF path])
qed

lemma wait_step_ok:
  assumes d: "drive_ok tags sound d" and ph: "dv_phase d = Waiting"
  shows "\<exists>d'. wait_step F C False now d = Inr d' \<and> drive_ok tags sound d'"
proof -
  have nf: "\<not> failed_run d" using ph by (simp add: failed_run_def)
  have ok: "pool_ok tags sound (dv_pool d) (held_slots d)" by (rule drive_okD(1) [OF d nf])
  have stop: "drive_ok tags sound (d\<lparr>dv_phase := ph\<rparr>)" for ph
    using steady_drive(2) [OF d nf steady_refl [OF ok], of ph] by simp
  show ?thesis
  proof (cases "pl_in_flight (dv_pool d) = 0")
    case True
    then show ?thesis using stop by (simp add: wait_step_def Let_def)
  next
    case False
    with busy_path_Some [OF ok] obtain path s where path: "busy_path F (dv_pool d) = Some path"
      "path < length (pl_sessions (dv_pool d))" "pl_sessions (dv_pool d) ! path = Some s" by auto
    from disconnect_steady [OF ok path(2), of now] obtain q
      where q: "disconnect now path (dv_pool d) = Inr q" "steady tags sound (held_slots d) (dv_pool d) q" .
    obtain r m' where r: "tp_poll (fb_transport F) s (dv_memory d) = (r, m')" by fastforce
    show ?thesis
    proof (cases r)
      case (Inl e)
      have "sound s" using ok all_sound_nth [of sound, OF _ path(2,3)] unfolding pool_ok_def by blast
      then obtain msg where "e = Err msg" using poll_sound(1) r Inl by (cases e) auto
      then show ?thesis
        using Inl False path q(1) r steady_drive(3) [OF d nf q(2)] by (simp add: wait_step_def Let_def)
    next
      case (Inr x)
      then show ?thesis
        using False path r completion_ok [OF d nf path(2,3), of "dv_memory d" "fst x" "snd x" m' C now]
        by (cases x) (simp add: wait_step_def Let_def)
    qed
  qed
qed

text \<open>Every run, of any length, keeps the invariant and never panics.\<close>

lemma drive_step_ok:
  assumes "opens_sound F sound" and "drive_ok tags sound d"
  shows "\<exists>d'. drive_step F C False now d = Inr d' \<and> drive_ok tags sound d'"
  using assms begin_pass_ok [of d now] send_step_ok [of d C now] wait_step_ok [of d C now]
  by (cases "dv_phase d") (simp_all add: drive_step_def)

lemma drive_run_ok:
  "opens_sound F sound \<Longrightarrow> drive_ok tags sound d \<Longrightarrow> \<exists>d'. drive_run F C False ts d = Inr d' \<and> drive_ok tags sound d'"
proof (induction ts arbitrary: d)
  case (Cons now ts)
  from drive_step_ok [OF Cons.prems, of C now] Cons.IH Cons.prems(1) show ?case by auto
qed simp

end

section \<open>From opening to the end\<close>

lemma open_sessions_Inr:
  "open_sessions F now g ps = Inr (ss, g') \<Longrightarrow> length ss = length ps \<and> (\<forall>s\<in>set ss. \<exists>p g. fb_open F p now = Inr (s, g))"
  by (induction F now g ps arbitrary: ss g' rule: open_sessions.induct)
    (fastforce simp: and_then_eq_Inr split: if_splits)+

lemma pool_open_Inr:
  assumes "pool_open F now paths policy seed = Inr p"
  shows "length (pl_sessions p) = length paths" "pl_paths p = paths" "pl_down_at p = replicate (length paths) None"
    "length (pl_stats p) = length paths" "wf_lanes (pl_lanes p)" "ln_paths (pl_lanes p) = length paths"
    "pl_in_flight p = 0" "ss_in_flight (pl_stream_stats p) = 0"
    "\<forall>i < length paths. \<exists>s path g. pl_sessions p ! i = Some s \<and> fb_open F path now = Inr (s, g)"
  using assms
  by (auto simp: pool_open_def and_then_eq_Inr lanes_new_def wf_lanes_def stream_stats_new_def
      dest!: open_sessions_Inr split: if_splits)

lemma flying_reserve [simp]: "flying (set_race race (reserve now depth p)) = {}"
  by (auto simp: flying_def reserve_def set_race_def)

context fabric_contract
begin

lemma drive_start_ok:
  assumes snd: "opens_sound F sound" and o: "pool_open F now paths policy seed = Inr p" and b: "0 < ge_block_len (pl_geometry p)"
  shows "drive_ok tags sound (drive_start (set_race race (reserve t depth p)) m c)"
proof -
  note p = pool_open_Inr [OF o]
  let ?q = "set_race race (reserve t depth p)"
  have "own ?q []"
    using p(7,8) by (simp add: own_def) (simp add: set_race_def reserve_def atLeast0LessThan)
  moreover have "shape ?q"
    using p b by (auto simp: shape_def) (auto simp: set_race_def reserve_def)
  moreover have "synced tags ?q"
    unfolding synced_def
  proof (intro allI impI)
    fix i assume "i < length (pl_sessions ?q)"
    then have "i < length paths" using p(1) by (simp add: set_race_def reserve_def)
    with p(9) open_idle have "session_tags tags (pl_sessions p ! i) = {#}" by fastforce
    then show "session_tags tags (pl_sessions ?q ! i) = mset_set (on_path ?q i)"
      by (simp add: on_path_def) (simp add: set_race_def reserve_def)
  qed
  moreover have "all_sound sound ?q"
    using p(1,9) opens_soundD(2) [OF snd]
    by (fastforce simp: all_sound_def set_race_def reserve_def in_set_conv_nth)
  ultimately show ?thesis by (intro drive_okI) (simp_all add: drive_start_def pool_ok_def held_slots_def)
qed

end

text \<open>Ok is only returned with nothing in flight, nothing to send again and no more requests.\<close>

definition ended :: "('p, 's, 'c) drive \<Rightarrow> bool" where
  "ended d \<longleftrightarrow> (dv_phase d = Returned (Inr ()) \<longrightarrow>
     pl_in_flight (dv_pool d) = 0 \<and> pl_retry (dv_pool d) = [] \<and> dv_exhausted d)"

lemma completion_not_done:
  assumes "completion F C explicit now path dn d = Inr d'"
  shows "dv_phase d' \<noteq> Returned (Inr ())"
proof (cases "stream_change now False (pl_stream_stats (dv_pool d))")
  case (Inl e)
  then show ?thesis using assms by (simp add: completion_def Let_def split: if_splits)
next
  case (Inr ss)
  then show ?thesis
    using assms by (cases "dn_status dn = 0"; cases "dn_unavailable dn") (auto simp: completion_def Let_def split: if_splits)
qed

lemma wait_step_done:
  assumes w: "wait_step F C explicit now d = Inr d'" and r: "dv_phase d' = Returned (Inr ())"
  shows "pl_in_flight (dv_pool d) = 0 \<and> pl_retry (dv_pool d) = [] \<and> dv_exhausted d \<and> d' = d\<lparr>dv_phase := Returned (Inr ())\<rparr>"
proof (cases "pl_in_flight (dv_pool d) = 0")
  case True
  then show ?thesis using assms by (auto simp: wait_step_def Let_def split: if_splits)
next
  case False
  then show ?thesis
    using w r unfolding wait_step_def Let_def
    by (auto simp: and_then_eq_Inr split: option.splits prod.splits sum.splits error.splits dest: completion_not_done)
qed

lemma drive_step_ended:
  assumes "drive_step F C explicit now d = Inr d'" and "ended d"
  shows "ended d'"
proof (cases "dv_phase d")
  case Begin
  then show ?thesis using assms by (auto simp: drive_step_def begin_pass_def Let_def and_then_eq_Inr ended_def)
next
  case Sending
  let ?f = "fetch C explicit d"
  have f: "dv_phase ?f \<in> {Sending, Waiting}"
    using Sending by (auto simp: fetch_def Let_def split: prod.splits offer.splits)
  have "dv_phase d' \<noteq> Returned (Inr ())"
  proof (cases "dv_held ?f")
    case None
    then show ?thesis using assms(1) Sending f by (auto simp: drive_step_def send_step_def Let_def)
  next
    case (Some x)
    obtain slot req where x: "x = (slot, req)" by fastforce
    have "dispatch F now slot req ?f = Inr d'"
      using assms(1) Sending Some x by (simp add: drive_step_def send_step_def Let_def)
    then show ?thesis
      using f
      by (auto simp: dispatch_def Let_def and_then_eq_Inr
          split: if_splits sum.splits prod.splits option.splits error.splits)
  qed
  then show ?thesis by (simp add: ended_def)
next
  case Waiting
  then show ?thesis
    using assms(1) wait_step_done [of F C explicit now d d'] by (auto simp: drive_step_def ended_def)
next
  case (Returned r)
  then show ?thesis using assms by (simp add: drive_step_def)
qed

lemma drive_run_ended:
  "drive_run F C explicit ts d = Inr d' \<Longrightarrow> ended d \<Longrightarrow> ended d'"
proof (induction ts arbitrary: d)
  case (Cons now ts)
  then show ?case using drive_step_ended by (fastforce simp: and_then_eq_Inr)
qed simp

section \<open>A request lost on failover\<close>










text \<open>
  Two paths to one LUN: path 0 takes a command and answers it with ALUA unavailable; path 1 is usable but
  its command window is closed.
\<close>

record example_session =
  xs_tags :: "nat list"
  xs_window :: bool

definition example_transport :: "example_session transport" where
  "example_transport = \<lparr>tp_can_submit = xs_window, tp_inflight = (\<lambda>s. length (xs_tags s)), tp_tier = (\<lambda>_. None),
     tp_check = (\<lambda>s io. Inr ()),
     tp_submit = (\<lambda>s tag io buf len m. Inr (s\<lparr>xs_tags := xs_tags s @ [tag]\<rparr>)),
     tp_poll = (\<lambda>s m. case xs_tags s of [] \<Rightarrow> (Inl (Err ''nothing in flight''), m)
        | tag # ts \<Rightarrow> (Inr (\<lparr>dn_tag = tag, dn_status = 2, dn_code = 0, dn_unavailable = True, dn_sense = []\<rparr>,
                          s\<lparr>xs_tags := ts\<rparr>), m)),
     tp_tick = Inr, tp_failure = (\<lambda>s io dn. ''failed''), tp_unavailable = (\<lambda>s dn. ''unavailable'')\<rparr>"

definition example_fabric :: "(nat, example_session) fabric" where
  "example_fabric = \<lparr>fb_transport = example_transport, fb_label = (\<lambda>_. ''path''),
     fb_open = (\<lambda>path now. Inr (\<lparr>xs_tags = [], xs_window = (path = 0)\<rparr>, \<lparr>ge_block_len = 512, ge_capacity_bytes = 4096\<rparr>))\<rparr>"

text \<open>A client with one write.\<close>

definition example_client :: "request list client" where
  "example_client = \<lparr>cl_next = (\<lambda>rs. case rs of [] \<Rightarrow> (OfferDone, []) | r # rs \<Rightarrow> (OfferRequest 0 r, rs)),
     cl_prepare = (\<lambda>r buf. buf), cl_complete = (\<lambda>slot r m c. c)\<rparr>"

definition example_write :: request where
  "example_write = request_default\<lparr>req_len := 512, req_write := True\<rparr>"

lemma example_contract: "fabric_contract example_fabric (\<lambda>s. mset (xs_tags s)) (\<lambda>_. True)"
  by unfold_locales (auto simp: example_fabric_def example_transport_def split: list.splits)

lemma example_opens: "opens_sound example_fabric (\<lambda>_. True)"
  by (simp add: opens_sound_def example_fabric_def)

section \<open>Properties\<close>

text \<open>
  C6: the pool always knows where every slot is. In a streamed run (slots come from the free list) over any
  transport that keeps its contract, for any client, depth and path policy and any number of steps,
  nothing panics; every slot of the queue is in exactly one place: free, to be sent again, in hand, or in
  flight; and the number in flight is what the counters say. In hand is the request the loop holds; only
  after \<open>drive\<close> returned an error may it instead be the slots of the commands that failed.
\<close>

theorem pool_slots_owned:
  assumes "fabric_contract F tags sound" and "opens_sound F sound"
    and "pool_open F now paths policy seed = Inr p" and "0 < ge_block_len (pl_geometry p)"
  shows "\<exists>d hs. drive_run F C False ts (drive_start (set_race race (reserve t depth p)) m c) = Inr d
    \<and> pl_in_flight (dv_pool d) = card (flying (dv_pool d))
    \<and> ss_in_flight (pl_stream_stats (dv_pool d)) = pl_in_flight (dv_pool d)
    \<and> mset (pl_free (dv_pool d)) + mset (pl_retry (dv_pool d)) + mset hs
         + mset_set (flying (dv_pool d)) = mset_set {..<length (pl_slot_inflight (dv_pool d))}
    \<and> (hs = held_slots d \<or> (\<exists>e. dv_phase d = Returned (Inl e)))"
  using fabric_contract.drive_run_ok [OF assms(1,2) fabric_contract.drive_start_ok [OF assms]]
  by (fastforce simp: drive_ok_def pool_ok_def own_def failed_run_def)

lemma example_open:
  obtains p where "pool_open example_fabric 0 [0, 1] RoundRobin 1 = Inr p" "0 < ge_block_len (pl_geometry p)"
  by (simp add: pool_open_def example_fabric_def lanes_new_def)

text \<open>After four steps the write is on path 0 and the run waits for it.\<close>

definition example_waiting :: "(nat, example_session, request list) drive \<Rightarrow> bool" where
  "example_waiting d \<longleftrightarrow> dv_phase d = Waiting \<and> dv_exhausted d \<and> dv_held d = None \<and> pl_retry (dv_pool d) = []
     \<and> pl_in_flight (dv_pool d) = 1 \<and> busy_path example_fabric (dv_pool d) = Some 0
     \<and> pl_sessions (dv_pool d) = [Some \<lparr>xs_tags = [0], xs_window = True\<rparr>, Some \<lparr>xs_tags = [], xs_window = False\<rparr>]
     \<and> pl_slot_req (dv_pool d) ! 0 = example_write \<and> ge_block_len (pl_geometry (dv_pool d)) = 512
     \<and> is_usable (mark_unavailable 0 (pl_lanes (dv_pool d))) 1"

lemma example_run_waiting:
  "case pool_open example_fabric 0 [0, 1] RoundRobin 1 of Inl _ \<Rightarrow> False | Inr p \<Rightarrow>
      (case drive_run example_fabric example_client False [1, 2, 3, 4] (drive_start (set_race False (reserve 0 2 p))
        [replicate 512 0, replicate 512 0] [example_write]) of Inl _ \<Rightarrow> False | Inr d \<Rightarrow> example_waiting d)"
  by code_simp

theorem pool_slots_owned_witness:
  "\<exists>p d. pool_open example_fabric 0 [0, 1] RoundRobin 1 = Inr p
    \<and> drive_run example_fabric example_client False [1, 2, 3, 4] (drive_start (set_race False (reserve 0 2 p))
        [replicate 512 0, replicate 512 0] [example_write]) = Inr d
    \<and> pl_in_flight (dv_pool d) = 1 \<and> card (flying (dv_pool d)) = 1
    \<and> mset (pl_free (dv_pool d)) + mset_set (flying (dv_pool d))
        = mset_set {..<length (pl_slot_inflight (dv_pool d))}"
proof -
  from example_run_waiting obtain p d where p: "pool_open example_fabric 0 [0, 1] RoundRobin 1 = Inr p"
    and d: "drive_run example_fabric example_client False [1, 2, 3, 4] (drive_start (set_race False (reserve 0 2 p))
        [replicate 512 0, replicate 512 0] [example_write]) = Inr d"
    and w: "example_waiting d" by (auto split: sum.splits)
  have "0 < ge_block_len (pl_geometry p)" using example_open p by (metis sum.inject(2))
  from pool_slots_owned [OF example_contract example_opens p this, where C = example_client and ts = "[1, 2, 3, 4]"
      and race = False and t = 0 and depth = 2 and m = "[replicate 512 0, replicate 512 0]" and c = "[example_write]"]
    p d w
  show ?thesis unfolding example_waiting_def held_slots_def by auto
qed

text \<open>
  C5: the pool keeps clashing requests apart. Two requests in flight at the same time never touch a common
  byte when either writes, whatever path they took; in a race run the one exception is a read-back and a
  write.
\<close>

theorem pool_no_clash:
  assumes "fabric_contract F tags sound" and "opens_sound F sound"
    and "pool_open F now paths policy seed = Inr p" and "0 < ge_block_len (pl_geometry p)"
    and "drive_run F C False ts (drive_start (set_race race (reserve t depth p)) m c) = Inr d"
    and "i \<in> flying (dv_pool d)" and "j \<in> flying (dv_pool d)" and "i \<noteq> j"
  shows "\<not> conflict (pl_slot_req (dv_pool d) ! i) (pl_slot_req (dv_pool d) ! j)
    \<or> pl_race (dv_pool d) \<and> (is_read_back (pl_slot_req (dv_pool d) ! i) \<or> is_read_back (pl_slot_req (dv_pool d) ! j))"
proof -
  from fabric_contract.drive_run_ok [OF assms(1,2) fabric_contract.drive_start_ok [OF assms(1-4)]] assms(5)
  have "drive_ok tags sound d" by (metis sum.inject(2))
  then obtain hs where "own (dv_pool d) hs" by (auto simp: drive_ok_def pool_ok_def)
  then have "\<not> path_clash (pl_race (dv_pool d)) (pl_slot_req (dv_pool d) ! i) (pl_slot_req (dv_pool d) ! j)"
    using assms(6-8) by (simp add: own_def)
  then show ?thesis by (auto simp: path_clash_def)
qed

definition example_reads :: "request list" where
  "example_reads = [request_default\<lparr>req_len := 512\<rparr>, request_default\<lparr>req_len := 512\<rparr>]"

theorem pool_no_clash_witness:
  "\<exists>p d. pool_open example_fabric 0 [0, 1] RoundRobin 1 = Inr p
    \<and> drive_run example_fabric example_client False [1, 2, 3] (drive_start (set_race False (reserve 0 2 p))
        [replicate 512 0, replicate 512 0] example_reads) = Inr d
    \<and> {0, 1} \<subseteq> flying (dv_pool d) \<and> \<not> conflict (pl_slot_req (dv_pool d) ! 0) (pl_slot_req (dv_pool d) ! 1)"
proof -
  have "case pool_open example_fabric 0 [0, 1] RoundRobin 1 of Inl _ \<Rightarrow> False | Inr p \<Rightarrow>
      (case drive_run example_fabric example_client False [1, 2, 3] (drive_start (set_race False (reserve 0 2 p))
        [replicate 512 0, replicate 512 0] example_reads) of Inl _ \<Rightarrow> False
       | Inr d \<Rightarrow> pl_slot_inflight (dv_pool d) = [True, True] \<and> \<not> pl_race (dv_pool d))"
    by code_simp
  then obtain p d where p: "pool_open example_fabric 0 [0, 1] RoundRobin 1 = Inr p"
    and d: "drive_run example_fabric example_client False [1, 2, 3] (drive_start (set_race False (reserve 0 2 p))
        [replicate 512 0, replicate 512 0] example_reads) = Inr d" "pl_slot_inflight (dv_pool d) = [True, True]" "\<not> pl_race (dv_pool d)"
    by (auto split: sum.splits)
  have "0 < ge_block_len (pl_geometry p)" using example_open p by (metis sum.inject(2))
  moreover have "0 \<in> flying (dv_pool d)" "1 \<in> flying (dv_pool d)" by (simp_all add: flying_def d(2))
  ultimately show ?thesis
    using pool_no_clash [OF example_contract example_opens p _ d(1), of 0 1] p d by auto
qed

text \<open>
  C7: a run that ends well has finished its requests. While commands are in flight there is always a session
  to wait on; and when \<open>drive\<close> returns Ok, the client has no more requests, nothing is in flight or to be
  sent again, and every slot is free except the one of a request still in hand.
\<close>

theorem pool_ends_clean:
  assumes "fabric_contract F tags sound" and "opens_sound F sound"
    and "pool_open F now paths policy seed = Inr p" and "0 < ge_block_len (pl_geometry p)"
    and "drive_run F C False ts (drive_start (set_race race (reserve t depth p)) m c) = Inr d"
  shows "(0 < pl_in_flight (dv_pool d) \<longrightarrow> busy_path F (dv_pool d) \<noteq> None)
    \<and> (dv_phase d = Returned (Inr ()) \<longrightarrow> dv_exhausted d \<and> flying (dv_pool d) = {} \<and> pl_retry (dv_pool d) = []
         \<and> mset (pl_free (dv_pool d)) + mset (held_slots d) = mset_set {..<length (pl_slot_inflight (dv_pool d))})"
proof -
  from fabric_contract.drive_run_ok [OF assms(1,2) fabric_contract.drive_start_ok [OF assms(1-4)]] assms(5)
  have ok: "drive_ok tags sound d" by (metis sum.inject(2))
  then obtain hs where hs: "pool_ok tags sound (dv_pool d) hs" "failed_run d \<or> hs = held_slots d" by (auto simp: drive_ok_def)
  have busy: "busy_path F (dv_pool d) \<noteq> None" if "0 < pl_in_flight (dv_pool d)"
    using fabric_contract.busy_path_Some [OF assms(1) hs(1) that] by blast
  have "ended d" using drive_run_ended [OF assms(5)] by (simp add: ended_def drive_start_def)
  then have finished: "dv_exhausted d" "pl_in_flight (dv_pool d) = 0" "pl_retry (dv_pool d) = []" if "dv_phase d = Returned (Inr ())"
    using that by (simp_all add: ended_def)
  have own: "own (dv_pool d) (held_slots d)" if "dv_phase d = Returned (Inr ())"
    using hs that by (auto simp: failed_run_def pool_ok_def)
  have none: "flying (dv_pool d) = {}" if "dv_phase d = Returned (Inr ())"
    using own [OF that] finished(2) [OF that] by (simp add: own_def)
  have "mset (pl_free (dv_pool d)) + mset (held_slots d) = mset_set {..<length (pl_slot_inflight (dv_pool d))}"
    if "dv_phase d = Returned (Inr ())"
    using own [OF that] none [OF that] finished(3) [OF that] by (simp add: own_def)
  then show ?thesis using busy finished none by blast
qed

theorem pool_ends_clean_witness:
  "\<exists>p d. pool_open example_fabric 0 [0, 1] RoundRobin 1 = Inr p
    \<and> drive_run example_fabric example_client False [1, 2, 3, 4] (drive_start (set_race False (reserve 0 2 p))
        [replicate 512 0, replicate 512 0] []) = Inr d
    \<and> dv_phase d = Returned (Inr ()) \<and> flying (dv_pool d) = {}"
proof -
  have "case pool_open example_fabric 0 [0, 1] RoundRobin 1 of Inl _ \<Rightarrow> False | Inr p \<Rightarrow>
      (case drive_run example_fabric example_client False [1, 2, 3, 4] (drive_start (set_race False (reserve 0 2 p))
        [replicate 512 0, replicate 512 0] []) of Inl _ \<Rightarrow> False
       | Inr d \<Rightarrow> dv_phase d = Returned (Inr ()))"
    by code_simp
  then obtain p d where p: "pool_open example_fabric 0 [0, 1] RoundRobin 1 = Inr p"
    and d: "drive_run example_fabric example_client False [1, 2, 3, 4] (drive_start (set_race False (reserve 0 2 p))
        [replicate 512 0, replicate 512 0] []) = Inr d" "dv_phase d = Returned (Inr ())"
    by (auto split: sum.splits)
  have "0 < ge_block_len (pl_geometry p)" using example_open p by (metis sum.inject(2))
  then show ?thesis using pool_ends_clean [OF example_contract example_opens p _ d(1)] p d by blast
qed



end
