(* ===== verification/Buffers.thy ===== *)
theory Buffers
  imports Pool
begin

text \<open>
  The promise a caller of \<open>Transport::submit\<close> relies on (\<open>src/rust/src/paths/pool.rs\<close>): between submitting a
  command and its completion a session writes nothing but the buffers of reads in flight. The locale
  \<open>buffer_contract\<close> states it over any transport, with the buffers in flight as a set of index, length and
  direction, and lifts it to every sequence of calls a caller makes.
\<close>

type_synonym buffers = "(nat \<times> nat \<times> bool) set"

text \<open>Every buffer holds its command's length; only the bytes of reads change.\<close>

definition bufs_fit :: "buffers \<Rightarrow> memory \<Rightarrow> bool" where
  "bufs_fit K m \<longleftrightarrow> (\<forall>(buf, len, write)\<in>K. buf < length m \<and> len \<le> length (m ! buf))"

definition changes_only :: "buffers \<Rightarrow> memory \<Rightarrow> memory \<Rightarrow> bool" where
  "changes_only K m m' \<longleftrightarrow> map length m' = map length m
     \<and> (\<forall>b < length m. (\<forall>len. (b, len, False) \<notin> K) \<longrightarrow> m' ! b = m ! b)"

lemma changes_only_refl [simp]: "changes_only K m m"
  by (simp add: changes_only_def)

lemma changes_only_mono: "changes_only K m m' \<Longrightarrow> K \<subseteq> L \<Longrightarrow> changes_only L m m'"
  by (auto simp: changes_only_def)

lemma changes_only_trans: "changes_only K m m1 \<Longrightarrow> changes_only K m1 m2 \<Longrightarrow> changes_only K m m2"
  unfolding changes_only_def by (metis length_map)

lemma bufs_fit_mono: "bufs_fit K m \<Longrightarrow> L \<subseteq> K \<Longrightarrow> bufs_fit L m"
  by (auto simp: bufs_fit_def)

lemma bufs_fit_insert [simp]: "bufs_fit (insert (buf, len, write) K) m \<longleftrightarrow> (buf < length m \<and> len \<le> length (m ! buf)) \<and> bufs_fit K m"
  by (simp add: bufs_fit_def)

lemma bufs_fit_changes:
  assumes "changes_only K m m'" and "bufs_fit L m"
  shows "bufs_fit L m'"
proof -
  have l: "map length m' = map length m" using assms(1) by (simp add: changes_only_def)
  then have n: "length m' = length m" using map_eq_imp_length_eq by blast
  have "length (m' ! b) = length (m ! b)" if "b < length m" for b
    using arg_cong [OF l, of "\<lambda>xs. xs ! b"] that n by simp
  then show ?thesis using assms(2) n unfolding bufs_fit_def by fastforce
qed

lemma changes_only_copy:
  assumes "(buf, len, False) \<in> K" and "bufs_fit K m" and "off + length d \<le> len"
  shows "changes_only K m (m[buf := copy_at off d (m ! buf)])"
proof -
  have b: "buf < length m" "len \<le> length (m ! buf)" using assms(1,2) by (auto simp: bufs_fit_def)
  have "map length (m[buf := copy_at off d (m ! buf)]) = (map length m)[buf := length (m ! buf)]"
    using b assms(3) by (simp add: map_update)
  also have "\<dots> = map length m" using b by (metis length_map list_update_id nth_map)
  finally show ?thesis using assms(1) unfolding changes_only_def by (metis nth_list_update_neq)
qed

section \<open>Sequences of calls\<close>

datatype call = Submit nat io nat nat | Poll | Tick

text \<open>The calls made on one session, up to the first that fails: the session, if it is left, and the memory.\<close>

fun calls :: "'s transport \<Rightarrow> call list \<Rightarrow> 's \<Rightarrow> memory \<Rightarrow> 's option \<times> memory" where
  "calls T [] s m = (Some s, m)"
| "calls T (Submit tag io buf len # cs) s m =
     (case tp_submit T s tag io buf len m of Inl _ \<Rightarrow> (None, m) | Inr s \<Rightarrow> calls T cs s m)"
| "calls T (Poll # cs) s m =
     (case tp_poll T s m of (Inl _, m) \<Rightarrow> (None, m) | (Inr (_, s), m) \<Rightarrow> calls T cs s m)"
| "calls T (Tick # cs) s m = (case tp_tick T s of Inl _ \<Rightarrow> (None, m) | Inr s \<Rightarrow> calls T cs s m)"

fun handed :: "call list \<Rightarrow> buffers" where
  "handed [] = {}"
| "handed (Submit tag io buf len # cs) = insert (buf, len, io_write io) (handed cs)"
| "handed (_ # cs) = handed cs"

locale buffer_contract =
  fixes T :: "'s transport" and bufs :: "'s \<Rightarrow> buffers"
  assumes submit_bufs: "tp_submit T s tag io buf len m = Inr s' \<Longrightarrow> bufs s' \<subseteq> insert (buf, len, io_write io) (bufs s)"
    and poll_memory: "tp_poll T s m = (r, m') \<Longrightarrow> bufs_fit (bufs s) m \<Longrightarrow> changes_only (bufs s) m m'"
    and poll_bufs: "tp_poll T s m = (Inr (d, s'), m') \<Longrightarrow> bufs_fit (bufs s) m \<Longrightarrow> bufs s' \<subseteq> bufs s"
    and tick_bufs: "tp_tick T s = Inr s' \<Longrightarrow> bufs s' \<subseteq> bufs s"
begin

lemma calls_change_only:
  "calls T cs s m = (so, m') \<Longrightarrow> bufs_fit (bufs s \<union> handed cs) m \<Longrightarrow> changes_only (bufs s \<union> handed cs) m m'"
proof (induction cs arbitrary: s m)
  case (Cons c cs)
  show ?case
  proof (cases c)
    case (Submit tag io buf len)
    show ?thesis
    proof (cases "tp_submit T s tag io buf len m")
      case (Inr s1)
      then have sub: "bufs s1 \<union> handed cs \<subseteq> bufs s \<union> handed (c # cs)" using submit_bufs [OF Inr] Submit by auto
      have "calls T cs s1 m = (so, m')" using Cons.prems(1) Submit Inr by simp
      then show ?thesis using Cons.IH [OF _ bufs_fit_mono [OF Cons.prems(2) sub]] changes_only_mono sub by blast
    qed (use Cons.prems Submit in simp)
  next
    case Poll
    obtain r m1 where p: "tp_poll T s m = (r, m1)" by fastforce
    have f: "bufs_fit (bufs s) m" "bufs_fit (handed cs) m" using Cons.prems(2) Poll by (auto intro: bufs_fit_mono)
    note ch = poll_memory [OF p f(1)]
    show ?thesis
    proof (cases r)
      case (Inr dn)
      obtain d s1 where d: "dn = (d, s1)" by fastforce
      have sub: "bufs s1 \<union> handed cs \<subseteq> bufs s \<union> handed (c # cs)" using poll_bufs [OF _ f(1)] p Inr d Poll by fastforce
      have "bufs_fit (bufs s1 \<union> handed cs) m1"
        using bufs_fit_changes [OF ch Cons.prems(2)] sub bufs_fit_mono by blast
      then have "changes_only (bufs s1 \<union> handed cs) m1 m'"
        using Cons.IH [of s1 m1] Cons.prems(1) Poll p Inr d by simp
      then show ?thesis using ch changes_only_trans changes_only_mono sub by (metis Un_upper1)
    qed (use Cons.prems Poll p ch in \<open>auto intro: changes_only_mono\<close>)
  next
    case Tick
    show ?thesis
    proof (cases "tp_tick T s")
      case (Inr s1)
      then have sub: "bufs s1 \<union> handed cs \<subseteq> bufs s \<union> handed (c # cs)" using tick_bufs [OF Inr] Tick by auto
      have "calls T cs s1 m = (so, m')" using Cons.prems(1) Tick Inr by simp
      then show ?thesis using Cons.IH [OF _ bufs_fit_mono [OF Cons.prems(2) sub]] changes_only_mono sub by blast
    qed (use Cons.prems Tick in simp)
  qed
qed simp

end

end
