(* ===== verification/Pool_Payload.thy ===== *)
theory Pool_Payload
  imports Pool_Drive Buffers
begin

text \<open>
  What the pool (\<open>src/rust/src/paths/pool.rs\<close>) makes of the promise of \<open>Transport::submit\<close>: over a transport that
  keeps both contracts, the buffer of a slot changes only while a read of that slot is in flight, or when the
  slot is taken from the free list and its payload is prepared. So the payload of a write is the same from its
  preparation to its completion, also when the command is sent again on another path. The locale
  \<open>buffered_fabric\<close> adds the buffers in flight, with their tags, to \<open>fabric_contract\<close>.
\<close>

section \<open>The contract with buffers\<close>

type_synonym slot_buffer = "nat \<times> nat \<times> nat \<times> bool"

locale buffered_fabric = fabric_contract F tags sound
  for F :: "('p, 's) fabric" and tags :: "'s \<Rightarrow> nat multiset" and sound :: "'s \<Rightarrow> bool" +
  fixes bufs :: "'s \<Rightarrow> slot_buffer multiset"
  assumes tags_bufs: "tags s = image_mset fst (bufs s)"
    and submit_bufs: "tp_submit (fb_transport F) s tag io buf len m = Inr s' \<Longrightarrow>
      bufs s' = add_mset (tag, buf, len, io_write io) (bufs s)"
    and poll_bufs: "tp_poll (fb_transport F) s m = (Inr (dn, s'), m') \<Longrightarrow> set_mset (bufs s') \<subseteq> set_mset (bufs s)"
    and tick_bufs: "tp_tick (fb_transport F) s = Inr s' \<Longrightarrow> bufs s' = bufs s"
    and poll_memory: "tp_poll (fb_transport F) s m = (r, m') \<Longrightarrow> bufs_fit (snd ` set_mset (bufs s)) m \<Longrightarrow>
      changes_only (snd ` set_mset (bufs s)) m m'"

section \<open>Sessions under a predicate\<close>

text \<open>What the steps on the paths do to the requests of the slots and to any property of the sessions.\<close>

definition keeps_sessions :: "('s \<Rightarrow> bool) \<Rightarrow> ('p, 's) pool \<Rightarrow> ('p, 's) pool \<Rightarrow> bool" where
  "keeps_sessions P p q \<longleftrightarrow> pl_slot_req q = pl_slot_req p \<and> pl_free q = pl_free p \<and> (all_sound P p \<longrightarrow> all_sound P q)"

lemma keeps_sessions_refl [simp]: "keeps_sessions P p p"
  by (simp add: keeps_sessions_def)

lemma keeps_sessions_trans: "keeps_sessions P p q \<Longrightarrow> keeps_sessions P q r \<Longrightarrow> keeps_sessions P p r"
  by (simp add: keeps_sessions_def)

lemma requeue_sessions:
  "requeue now path slots p = Inr q \<Longrightarrow>
   pl_sessions q = pl_sessions p \<and> pl_slot_req q = pl_slot_req p \<and> pl_free q = pl_free p"
  by (induction slots arbitrary: p) (fastforce simp: and_then_eq_Inr split: if_splits)+

lemma disconnect_sessions:
  assumes "disconnect now path p = Inr q"
  shows "keeps_sessions P p q"
proof -
  from requeue_sessions [OF assms [unfolded disconnect_def]]
  have q: "pl_sessions q = (pl_sessions p)[path := None]" "pl_slot_req q = pl_slot_req p" "pl_free q = pl_free p" by simp_all
  then show ?thesis using all_sound_update [OF _ q(1)] by (simp add: keeps_sessions_def)
qed

lemma reconnect_path_sessions:
  assumes "reconnect_path F now i p = Inr q" and "\<And>path now s g. fb_open F path now = Inr (s, g) \<Longrightarrow> P s"
  shows "keeps_sessions P p q"
  using assms(1) all_sound_set [of P p _ i] assms(2)
  by (auto simp: reconnect_path_def keeps_sessions_def split: option.splits if_splits sum.splits error.splits)

lemma reconnect_paths_sessions:
  assumes "\<And>path now s g. fb_open F path now = Inr (s, g) \<Longrightarrow> P s"
  shows "reconnect_paths F now is p = Inr q \<Longrightarrow> keeps_sessions P p q"
proof (induction "is" arbitrary: p)
  case (Cons i "is")
  then obtain r where r: "reconnect_path F now i p = Inr r" "reconnect_paths F now is r = Inr q"
    by (auto simp: and_then_eq_Inr)
  then show ?case
    using Cons.IH [OF r(2)] reconnect_path_sessions [OF r(1), of P] assms keeps_sessions_trans by blast
qed simp

lemma try_reconnect_sessions:
  assumes "\<And>path now s g. fb_open F path now = Inr (s, g) \<Longrightarrow> P s" and "try_reconnect F now p = Inr q"
  shows "keeps_sessions P p q"
  using reconnect_paths_sessions [OF assms(1)] assms(2) by (simp add: try_reconnect_def)

lemma tick_paths_sessions:
  assumes tick: "\<And>s s'. P s \<Longrightarrow> tp_tick (fb_transport F) s = Inr s' \<Longrightarrow> P s'"
  shows "tick_paths F now paths p = Inr q \<Longrightarrow> set paths \<subseteq> {..<length (pl_sessions p)} \<Longrightarrow> keeps_sessions P p q"
proof (induction paths arbitrary: p)
  case (Cons path paths)
  have path: "path < length (pl_sessions p)" using Cons.prems(2) by simp
  show ?case
  proof (cases "pl_sessions p ! path")
    case (Some s)
    show ?thesis
    proof (cases "tp_tick (fb_transport F) s")
      case (Inr s')
      let ?p = "p\<lparr>pl_sessions := (pl_sessions p)[path := Some s']\<rparr>"
      have "keeps_sessions P p ?p"
        using all_sound_set [of P p s' path] all_sound_nth [of P p path s] tick [OF _ Inr] path Some
        by (simp add: keeps_sessions_def)
      moreover have "keeps_sessions P ?p q" using Cons.IH [of ?p] Cons.prems Some Inr by simp
      ultimately show ?thesis by (rule keeps_sessions_trans)
    next
      case (Inl e)
      with Cons.prems(1) Some obtain r where r: "disconnect now path p = Inr r" "tick_paths F now paths r = Inr q"
        by (cases e) (auto simp: and_then_eq_Inr)
      have "length (pl_sessions r) = length (pl_sessions p)"
        using requeue_sessions [OF r(1) [unfolded disconnect_def]] by simp
      then show ?thesis
        using keeps_sessions_trans [OF disconnect_sessions [OF r(1)] Cons.IH [OF r(2)]] Cons.prems(2) by simp
    qed
  qed (use Cons in simp)
qed simp

section \<open>Slots and their buffers\<close>

text \<open>A session's buffers are those of the slots it has in flight, as their requests say.\<close>

definition fine :: "('s \<Rightarrow> slot_buffer multiset) \<Rightarrow> request list \<Rightarrow> 's \<Rightarrow> bool" where
  "fine bufs reqs s \<longleftrightarrow>
     (\<forall>(tag, buf, len, write)\<in>#bufs s. buf = tag \<and> len = req_len (reqs ! tag) \<and> write = req_write (reqs ! tag))"

text \<open>The arena: one buffer of \<open>sz\<close> bytes per slot, and no request longer than that.\<close>

definition arena :: "nat \<Rightarrow> ('p, 's, 'c) drive \<Rightarrow> bool" where
  "arena sz d \<longleftrightarrow> length (dv_memory d) = length (pl_slot_req (dv_pool d))
     \<and> (\<forall>b\<in>set (dv_memory d). length b = sz) \<and> (\<forall>r\<in>set (pl_slot_req (dv_pool d)). req_len r \<le> sz)"

definition client_ok :: "nat \<Rightarrow> 'c client \<Rightarrow> bool" where
  "client_ok sz C \<longleftrightarrow> (\<forall>c named r c'. cl_next C c = (OfferRequest named r, c') \<longrightarrow> req_len r \<le> sz)
     \<and> (\<forall>r x. length (cl_prepare C r x) = length x)"

definition payload_ok :: "('s \<Rightarrow> slot_buffer multiset) \<Rightarrow> nat \<Rightarrow> ('p, 's, 'c) drive \<Rightarrow> bool" where
  "payload_ok bufs sz d \<longleftrightarrow> all_sound (fine bufs (pl_slot_req (dv_pool d))) (dv_pool d) \<and> arena sz d"

text \<open>Slots whose buffer the transport and the pool must leave alone in the next step.\<close>

definition guarded :: "('p, 's, 'c) drive \<Rightarrow> nat \<Rightarrow> bool" where
  "guarded d slot \<longleftrightarrow> slot < length (dv_memory d) \<and> slot \<notin> set (pl_free (dv_pool d))
     \<and> (slot \<in> flying (dv_pool d) \<longrightarrow> req_write (pl_slot_req (dv_pool d) ! slot))"

definition keeps_payload :: "('p, 's, 'c) drive \<Rightarrow> ('p, 's, 'c) drive \<Rightarrow> bool" where
  "keeps_payload d d' \<longleftrightarrow> (\<forall>slot. guarded d slot \<longrightarrow> dv_memory d' ! slot = dv_memory d ! slot)"

lemma keeps_payload_same [simp]: "dv_memory d' = dv_memory d \<Longrightarrow> keeps_payload d d'"
  by (simp add: keeps_payload_def)

lemma payload_ok_sessions:
  assumes "payload_ok bufs sz d" and "keeps_sessions (fine bufs (pl_slot_req (dv_pool d))) (dv_pool d) (dv_pool d')"
    and "dv_memory d' = dv_memory d"
  shows "payload_ok bufs sz d'"
  using assms by (simp add: payload_ok_def keeps_sessions_def arena_def)

lemma path_with_room_lanes: "path_with_room F v p = (q, c) \<Longrightarrow> \<exists>l. q = p\<lparr>pl_lanes := l\<rparr>"
  by (auto simp: path_with_room_def Let_def split: prod.splits option.splits)

lemma sent_sessions:
  "sent F now slot path s' p = Inr q \<Longrightarrow> pl_slot_req q = pl_slot_req p \<and> pl_sessions q = (pl_sessions p)[path := Some s']"
  by (auto simp: sent_def Let_def and_then_eq_Inr)

context buffered_fabric
begin

lemma opened_fine: "fb_open F path now = Inr (s, g) \<Longrightarrow> fine bufs reqs s"
  using open_idle [of path now s g] tags_bufs [of s] by (simp add: fine_def)

lemma fine_tags: "fine bufs reqs s \<Longrightarrow> (tag, buf, len, write) \<in># bufs s \<Longrightarrow> tag \<in># tags s"
  unfolding tags_bufs by (metis fst_conv image_eqI set_image_mset)

lemma begin_pass_payload:
  assumes "begin_pass F now d = Inr d'" and "payload_ok bufs sz d"
  shows "payload_ok bufs sz d' \<and> dv_memory d' = dv_memory d"
proof -
  let ?P = "fine bufs (pl_slot_req (dv_pool d))"
  from assms(1) obtain p q where p: "try_reconnect F now (dv_pool d) = Inr p"
    and q: "tick_paths F now [0..<length (pl_sessions p)] p = Inr q" and d': "d' = d\<lparr>dv_pool := q, dv_phase := Sending\<rparr>"
    by (auto simp: begin_pass_def and_then_eq_Inr)
  have "keeps_sessions ?P (dv_pool d) p" by (rule try_reconnect_sessions [OF opened_fine p])
  moreover have "keeps_sessions ?P p q"
    by (rule tick_paths_sessions [OF _ q upt_below]) (simp add: fine_def tick_bufs)
  ultimately have "keeps_sessions ?P (dv_pool d) q" by (rule keeps_sessions_trans)
  then show ?thesis using payload_ok_sessions [OF assms(2), of d'] d' by simp
qed

text \<open>A slot that is not in flight has no buffer in any session.\<close>

lemma fine_update:
  assumes all: "all_sound (fine bufs reqs) p" and ok: "pool_ok tags sound p hs" and slot: "slot \<notin> flying p"
  shows "all_sound (fine bufs (reqs[slot := r])) p"
  unfolding all_sound_def
proof (intro allI impI)
  fix s assume s: "Some s \<in> set (pl_sessions p)"
  then obtain i where "i < length (pl_sessions p)" "pl_sessions p ! i = Some s" by (auto simp: in_set_conv_nth)
  then have t: "tags s = mset_set (on_path p i)" using ok by (auto simp: pool_ok_def synced_def)
  have f: "fine bufs reqs s" using all s by (simp add: all_sound_def)
  have "tag \<noteq> slot" if "(tag, buf, len, w) \<in># bufs s" for tag buf len w
    using fine_tags [OF f that] t slot by (auto simp: on_path_def)
  then show "fine bufs (reqs[slot := r]) s" using f unfolding fine_def by (fastforce simp: nth_list_update)
qed

lemma fetch_payload:
  assumes d: "drive_ok tags sound d" and ph: "dv_phase d = Sending" and pay: "payload_ok bufs sz d" and C: "client_ok sz C"
  shows "payload_ok bufs sz (fetch C False d) \<and> keeps_payload d (fetch C False d)"
proof (cases "dv_held d = None \<and> pl_retry (dv_pool d) = [] \<and> \<not> dv_exhausted d \<and> pl_free (dv_pool d) \<noteq> []
    \<and> (\<exists>named req c. cl_next C (dv_client d) = (OfferRequest named req, c))")
  case False
  then have "dv_memory (fetch C False d) = dv_memory d \<and> pl_sessions (dv_pool (fetch C False d)) = pl_sessions (dv_pool d)
      \<and> pl_slot_req (dv_pool (fetch C False d)) = pl_slot_req (dv_pool d)"
    by (auto simp: fetch_def Let_def split: prod.splits offer.splits)
  then show ?thesis using pay by (simp add: payload_ok_def arena_def all_sound_def)
next
  case True
  then obtain named req c where offer: "cl_next C (dv_client d) = (OfferRequest named req, c)" by blast
  let ?p = "dv_pool d" and ?slot = "last (pl_free (dv_pool d))"
  have nf: "\<not> failed_run d" using ph by (simp add: failed_run_def)
  have ok: "pool_ok tags sound ?p (held_slots d)" by (rule drive_okD(1) [OF d nf])
  have o: "own (?p\<lparr>pl_free := butlast (pl_free ?p)\<rparr>) (?slot # held_slots d)"
    using own_from_free [of ?p "held_slots d"] ok True by (simp add: pool_ok_def)
  have slot: "?slot \<notin> flying ?p" "?slot < length (pl_slot_inflight ?p)" using own_hand(1,2) [OF o] by simp_all
  have eq: "fetch C False d = d\<lparr>dv_client := c,
      dv_pool := ?p\<lparr>pl_free := butlast (pl_free ?p), pl_slot_req := (pl_slot_req ?p)[?slot := req]\<rparr>,
      dv_memory := prepared C ?slot req (dv_memory d), dv_held := Some (?slot, req)\<rparr>"
    using True offer by (simp add: fetch_def Let_def)
  have len: "req_len req \<le> sz" using C offer by (auto simp: client_ok_def)
  have ar: "arena sz d" using pay by (simp add: payload_ok_def)
  have "?slot < length (dv_memory d)" using ar slot(2) ok by (simp add: arena_def pool_ok_def own_def)
  then have "length (cl_prepare C req (take (req_len req) (dv_memory d ! ?slot)) @ drop (req_len req) (dv_memory d ! ?slot)) = sz"
    using C ar len by (simp add: client_ok_def arena_def)
  then have "arena sz (fetch C False d)"
    using ar len set_update_subset_insert unfolding eq arena_def prepared_def by (auto dest!: subsetD [OF set_update_subset_insert])
  moreover have "all_sound (fine bufs ((pl_slot_req ?p)[?slot := req])) ?p"
    by (rule fine_update [OF _ ok slot(1)]) (use pay in \<open>simp add: payload_ok_def\<close>)
  ultimately have "payload_ok bufs sz (fetch C False d)" by (simp add: payload_ok_def eq)
  moreover have "slot \<noteq> ?slot" if "guarded d slot" for slot
    using that True last_in_set [of "pl_free ?p"] by (auto simp: guarded_def)
  then have "keeps_payload d (fetch C False d)"
    unfolding keeps_payload_def eq prepared_def by (simp add: nth_list_update_neq [OF not_sym])
  ultimately show ?thesis ..
qed

lemma dispatch_payload:
  assumes r: "dispatch F now slot req d = Inr d'" and pay: "payload_ok bufs sz d"
    and req: "pl_slot_req (dv_pool d) ! slot = req"
  shows "payload_ok bufs sz d' \<and> dv_memory d' = dv_memory d"
proof -
  let ?P = "fine bufs (pl_slot_req (dv_pool d))"
  obtain p c where pc: "path_with_room F (req_verify req \<and> \<not> req_write req) (dv_pool d) = (p, c)" by fastforce
  then obtain l where l: "p = (dv_pool d)\<lparr>pl_lanes := l\<rparr>" using path_with_room_lanes by blast
  have same: "payload_ok bufs sz (d\<lparr>dv_phase := ph\<rparr>)" "payload_ok bufs sz (d\<lparr>dv_pool := p, dv_phase := ph\<rparr>)"
    "payload_ok bufs sz (d\<lparr>dv_pool := p\<lparr>pl_lanes := l'\<rparr>, dv_phase := ph\<rparr>)" for ph l'
    using pay by (simp_all add: payload_ok_def arena_def l)
  have moved: "payload_ok bufs sz (d\<lparr>dv_pool := q\<rparr>)" if "keeps_sessions ?P p q" for q
    using pay that by (simp add: payload_ok_def arena_def keeps_sessions_def l)
  note reconnected = moved [OF try_reconnect_sessions [OF opened_fine]]
  note lost = moved [OF disconnect_sessions]
  have sent: "payload_ok bufs sz (d\<lparr>dv_pool := q, dv_held := None\<rparr>)"
    if s: "pl_sessions p ! path = Some s" and io: "io_of req block = Inr io"
      and sub: "tp_submit (fb_transport F) s slot io slot (req_len req) m = Inr s'" and q: "sent F now slot path s' p = Inr q"
    for path s io block m s' q
  proof -
    note qs = sent_sessions [OF q]
    have w: "io_write io = req_write req" using io by (auto simp: io_of_def split: if_splits)
    have all: "all_sound ?P p" using pay by (simp add: payload_ok_def l)
    have "all_sound ?P q"
    proof (cases "path < length (pl_sessions p)")
      case True
      have "?P s" by (rule all_sound_nth [OF all True s])
      then have "?P s'" using submit_bufs [OF sub] req w by (simp add: fine_def)
      then show ?thesis using all_sound_update [OF all, of q path "Some s'"] qs by simp
    next
      case False
      then show ?thesis using all qs by (simp add: all_sound_def list_update_beyond)
    qed
    then show ?thesis using pay qs by (simp add: payload_ok_def arena_def l)
  qed
  show ?thesis
    using r same reconnected lost sent
    unfolding dispatch_def Let_def pc
    by (auto simp: and_then_eq_Inr split: if_splits sum.splits option.splits error.splits prod.splits)
qed

lemma send_step_payload:
  assumes r: "send_step F C False now d = Inr d'" and d: "drive_ok tags sound d" and ph: "dv_phase d = Sending"
    and pay: "payload_ok bufs sz d" and C: "client_ok sz C"
  shows "payload_ok bufs sz d' \<and> keeps_payload d d'"
proof -
  note f = fetch_payload [OF d ph pay C]
  show ?thesis
  proof (cases "dv_held (fetch C False d)")
    case None
    then show ?thesis using f r by (simp add: send_step_def)
  next
    case (Some h)
    obtain slot req where h: "h = (slot, req)" by fastforce
    have "dispatch F now slot req (fetch C False d) = Inr d'" using r Some h by (simp add: send_step_def)
    from dispatch_payload [OF this conjunct1 [OF f]] f drive_okD(2) [OF fetch_ok(1) [OF d ph], of C slot req] Some h
    show ?thesis by (auto simp: keeps_payload_def)
  qed
qed

lemma completion_pool:
  assumes "completion F C False now path dn d = Inr d'"
  shows "pl_sessions (dv_pool d') = pl_sessions (dv_pool d) \<and> pl_slot_req (dv_pool d') = pl_slot_req (dv_pool d)
    \<and> dv_memory d' = dv_memory d"
  using assms unfolding completion_def Let_def
  by (cases "dn_status dn = 0"; cases "dn_unavailable dn"; cases "req_write (pl_slot_req (dv_pool d) ! dn_tag dn)")
    (clarsimp simp: and_then_eq_Inr split: if_split_asm)+

lemma wait_step_payload:
  fixes d d' :: "('p, 's, 'c) drive"
  assumes r: "wait_step F C False now d = Inr d'" and d: "drive_ok tags sound d" and ph: "dv_phase d = Waiting"
    and pay: "payload_ok bufs sz d"
  shows "payload_ok bufs sz d' \<and> keeps_payload d d'"
proof -
  let ?p = "dv_pool d" and ?P = "fine bufs (pl_slot_req (dv_pool d))"
  have nf: "\<not> failed_run d" using ph by (simp add: failed_run_def)
  have ok: "pool_ok tags sound ?p (held_slots d)" by (rule drive_okD(1) [OF d nf])
  have all: "all_sound ?P ?p" and ar: "arena sz d" using pay by (simp_all add: payload_ok_def)
  have same: "payload_ok bufs sz (d\<lparr>dv_phase := x\<rparr>)" for x using pay by (simp add: payload_ok_def arena_def)
  show ?thesis
  proof (cases "pl_in_flight ?p = 0")
    case True
    then show ?thesis using r same unfolding wait_step_def Let_def if_P [OF True] by (auto split: if_splits)
  next
    case False
    with busy_path_Some [OF ok] obtain path s where path: "busy_path F ?p = Some path"
      "path < length (pl_sessions ?p)" "pl_sessions ?p ! path = Some s" by auto
    obtain x m' where x: "tp_poll (fb_transport F) s (dv_memory d) = (x, m')" by fastforce
    have f: "?P s" by (rule all_sound_nth [OF all path(2,3)])
    have t: "tags s = mset_set (on_path ?p path)" using ok path(2,3) by (auto simp: pool_ok_def synced_def)
    have entry: "tag \<in> flying ?p \<and> buf = tag \<and> len = req_len (pl_slot_req ?p ! tag) \<and> w = req_write (pl_slot_req ?p ! tag)"
      if "(tag, buf, len, w) \<in># bufs s" for tag buf len w
      using fine_tags [OF f that] f that unfolding t fine_def by (auto simp: on_path_def)
    have "bufs_fit (snd ` set_mset (bufs s)) (dv_memory d)"
      unfolding bufs_fit_def
    proof (clarsimp)
      fix tag buf len w assume b: "(tag, buf, len, w) \<in># bufs s"
      have "tag < length (pl_slot_req ?p)" using entry [OF b] ok by (auto simp: pool_ok_def own_def flying_def)
      then show "buf < length (dv_memory d) \<and> len \<le> length (dv_memory d ! buf)"
        using entry [OF b] ar by (simp add: arena_def)
    qed
    note ch = poll_memory [OF x this]
    have lens: "map length m' = map length (dv_memory d)" using ch by (simp add: changes_only_def)
    then have "length m' = length (dv_memory d)" using map_eq_imp_length_eq by blast
    moreover have "length ` set m' = length ` set (dv_memory d)" using lens by (metis set_map)
    ultimately have arena: "arena sz d2" if "dv_memory d2 = m'" "pl_slot_req (dv_pool d2) = pl_slot_req ?p" for d2 :: "('p, 's, 'c) drive"
      using ar that unfolding arena_def by (metis (no_types, lifting) image_iff)
    have keep: "keeps_payload d d2" if "dv_memory d2 = m'" for d2 :: "('p, 's, 'c) drive"
      unfolding keeps_payload_def that
    proof (intro allI impI)
      fix slot assume g: "guarded d slot"
      have "(slot, len, False) \<notin> snd ` set_mset (bufs s)" for len
      proof
        assume "(slot, len, False) \<in> snd ` set_mset (bufs s)"
        then obtain tag where b: "(tag, slot, len, False) \<in># bufs s" by auto
        from entry [OF b] g show False by (auto simp: guarded_def)
      qed
      then show "m' ! slot = dv_memory d ! slot" using ch g by (simp add: changes_only_def guarded_def)
    qed
    have eq: "wait_step F C False now d = (case x of
        Inl Panic \<Rightarrow> Inl Panic
      | Inl (Err _) \<Rightarrow> and_then (disconnect now path ?p) (\<lambda>p. Inr (d\<lparr>dv_pool := p, dv_memory := m', dv_phase := Begin\<rparr>))
      | Inr (dn, s) \<Rightarrow> completion F C False now path dn
          (d\<lparr>dv_pool := ?p\<lparr>pl_sessions := (pl_sessions ?p)[path := Some s]\<rparr>, dv_memory := m'\<rparr>))"
      using False by (simp add: wait_step_def Let_def path x split: sum.splits error.splits)
    show ?thesis
    proof (cases x)
      case (Inl e)
      then obtain q where q: "disconnect now path ?p = Inr q"
        and d': "d' = d\<lparr>dv_pool := q, dv_memory := m', dv_phase := Begin\<rparr>"
        using r unfolding eq by (cases e) (auto simp: and_then_eq_Inr)
      have "keeps_sessions ?P ?p q" by (rule disconnect_sessions [OF q])
      then show ?thesis using all arena [of d'] keep [of d'] d' by (simp add: payload_ok_def keeps_sessions_def)
    next
      case (Inr y)
      obtain dn s' where y: "y = (dn, s')" by fastforce
      let ?d = "d\<lparr>dv_pool := ?p\<lparr>pl_sessions := (pl_sessions ?p)[path := Some s']\<rparr>, dv_memory := m'\<rparr>"
      have c: "completion F C False now path dn ?d = Inr d'" using r unfolding eq Inr y by simp
      note cp = completion_pool [OF c]
      have "?P s'" using f poll_bufs [of s "dv_memory d" dn s' m'] x Inr y unfolding fine_def by blast
      then have "all_sound ?P (?p\<lparr>pl_sessions := (pl_sessions ?p)[path := Some s']\<rparr>)" by (rule all_sound_set [OF all])
      then show ?thesis using cp arena [of d'] keep [of d'] by (simp add: payload_ok_def all_sound_def)
    qed
  qed
qed

lemma drive_step_payload:
  assumes "drive_step F C False now d = Inr d'" and "drive_ok tags sound d" and "payload_ok bufs sz d" and "client_ok sz C"
  shows "payload_ok bufs sz d' \<and> keeps_payload d d'"
  using assms begin_pass_payload [of now d d' sz] send_step_payload [of C now d d' sz] wait_step_payload [of C now d d' sz]
  by (cases "dv_phase d") (simp_all add: drive_step_def)

lemma drive_run_payload:
  assumes "opens_sound F sound" and "client_ok sz C"
  shows "drive_run F C False ts d = Inr d' \<Longrightarrow> drive_ok tags sound d \<Longrightarrow> payload_ok bufs sz d \<Longrightarrow>
    drive_ok tags sound d' \<and> payload_ok bufs sz d'"
proof (induction ts arbitrary: d)
  case (Cons now ts)
  then obtain e where e: "drive_step F C False now d = Inr e" "drive_run F C False ts e = Inr d'"
    by (auto simp: and_then_eq_Inr)
  have "drive_ok tags sound e" using drive_step_ok [OF assms(1) Cons.prems(2), of C now] e(1) by auto
  then show ?case using Cons.IH [OF e(2)] drive_step_payload [OF e(1) Cons.prems(2,3) assms(2)] by blast
qed simp

end

section \<open>Over a whole run\<close>

context buffered_fabric
begin

lemma drive_start_payload:
  assumes o: "pool_open F now paths policy seed = Inr p" and "length m = depth" and "\<forall>b\<in>set m. length b = sz"
  shows "payload_ok bufs sz (drive_start (set_race race (reserve t depth p)) m c)"
proof -
  note p = pool_open_Inr [OF o]
  have "all_sound (fine bufs reqs) p" for reqs
    using p(1,9) opened_fine by (fastforce simp: all_sound_def in_set_conv_nth)
  then show ?thesis
    using assms(2,3)
    by (simp add: payload_ok_def arena_def drive_start_def set_race_def reserve_def all_sound_def request_default_def)
qed

end

text \<open>
  C9: The payload of a write is the same from its preparation to its completion. Over any transport that keeps
  its contracts, in every state a streamed run reaches, the next step leaves the buffer of every slot alone
  that is not on the free list and has no read in flight: a write in flight, a write that waits to be sent
  again after a path was lost, and a request in hand keep their bytes, whatever the other slots do.\<close>

theorem pool_keeps_payload:
  assumes "buffered_fabric F tags sound bufs" and "opens_sound F sound" and "client_ok sz C"
    and "pool_open F now paths policy seed = Inr p" and "0 < ge_block_len (pl_geometry p)"
    and "length m = depth" and "\<forall>b\<in>set m. length b = sz"
    and "drive_run F C False ts (drive_start (set_race race (reserve t depth p)) m c) = Inr d"
    and "drive_step F C False t' d = Inr d'"
    and "slot < length (dv_memory d)" and "slot \<notin> set (pl_free (dv_pool d))"
    and "slot \<in> flying (dv_pool d) \<longrightarrow> req_write (pl_slot_req (dv_pool d) ! slot)"
  shows "dv_memory d' ! slot = dv_memory d ! slot \<and> length (dv_memory d' ! slot) = sz"
proof -
  let ?s = "drive_start (set_race race (reserve t depth p)) m c"
  have fc: "fabric_contract F tags sound" using assms(1) by (simp add: buffered_fabric_def)
  have ok: "drive_ok tags sound ?s" by (rule fabric_contract.drive_start_ok [OF fc assms(2,4,5)])
  have pay: "payload_ok bufs sz ?s" by (rule buffered_fabric.drive_start_payload [OF assms(1,4,6,7)])
  note run = buffered_fabric.drive_run_payload [OF assms(1,2,3,8) ok pay]
  have step: "payload_ok bufs sz d'" "keeps_payload d d'"
    using buffered_fabric.drive_step_payload [OF assms(1,9) _ _ assms(3)] run by blast+
  have g: "guarded d slot" using assms(10-12) by (simp add: guarded_def)
  then have "dv_memory d' ! slot = dv_memory d ! slot" using step(2) by (simp add: keeps_payload_def)
  moreover have "length (dv_memory d ! slot) = sz" using run assms(10) by (simp add: payload_ok_def arena_def)
  ultimately show ?thesis by simp
qed

text \<open>
  A path that answers the newest command first and fills a read with sevens, and a client with a write of
  nines followed by a read.
\<close>

definition lifo_transport :: "slot_buffer list transport" where
  "lifo_transport = \<lparr>tp_can_submit = (\<lambda>s. True), tp_inflight = length, tp_tier = (\<lambda>_. None), tp_check = (\<lambda>s io. Inr ()),
     tp_submit = (\<lambda>s tag io buf len m. Inr ((tag, buf, len, io_write io) # s)),
     tp_poll = (\<lambda>s m. case s of [] \<Rightarrow> (Inl (Err ''nothing in flight''), m)
        | (tag, buf, len, write) # s \<Rightarrow>
            (Inr (\<lparr>dn_tag = tag, dn_status = 0, dn_code = 0, dn_unavailable = False, dn_sense = []\<rparr>, s),
             if write then m else m[buf := copy_at 0 (replicate len 7) (m ! buf)])),
     tp_tick = Inr, tp_failure = (\<lambda>s io dn. ''failed''), tp_unavailable = (\<lambda>s dn. ''unavailable'')\<rparr>"

definition lifo_fabric :: "(nat, slot_buffer list) fabric" where
  "lifo_fabric = \<lparr>fb_transport = lifo_transport, fb_label = (\<lambda>_. ''path''),
     fb_open = (\<lambda>path now. Inr ([], \<lparr>ge_block_len = 4, ge_capacity_bytes = 64\<rparr>))\<rparr>"

definition lifo_client :: "nat client" where
  "lifo_client = \<lparr>cl_next = (\<lambda>n. if n = 0 then (OfferRequest 0 (request_default\<lparr>req_len := 4, req_write := True\<rparr>), 1)
        else if n = 1 then (OfferRequest 1 (request_default\<lparr>req_offset := 8, req_len := 4\<rparr>), 2) else (OfferDone, n)),
     cl_prepare = (\<lambda>r buf. replicate (length buf) 9), cl_complete = (\<lambda>slot r m c. c)\<rparr>"

lemma lifo_contract: "buffered_fabric lifo_fabric (\<lambda>s. image_mset fst (mset s)) (\<lambda>_. True) mset"
proof (unfold_locales, goal_cases)
  case (17 s m r m')
  show ?case
  proof (cases "\<exists>tag buf len s0. s = (tag, buf, len, False) # s0")
    case True
    then obtain tag buf len s0 where s: "s = (tag, buf, len, False) # s0" by blast
    then have "changes_only (snd ` set_mset (mset s)) m (m[buf := copy_at 0 (replicate len 7) (m ! buf)])"
      by (intro changes_only_copy [where len = len] 17(2)) auto
    then show ?thesis using 17(1) s by (simp add: lifo_fabric_def lifo_transport_def)
  next
    case False
    then show ?thesis using 17(1) by (auto simp: lifo_fabric_def lifo_transport_def split: list.splits)
  qed
qed (auto simp: lifo_fabric_def lifo_transport_def split: list.splits)

lemma lifo_opens: "opens_sound lifo_fabric (\<lambda>_. True)"
  by (simp add: opens_sound_def lifo_fabric_def)

lemma lifo_client_ok: "client_ok 4 lifo_client"
  by (auto simp: client_ok_def lifo_client_def split: if_splits)

theorem pool_keeps_payload_witness:
  "\<exists>p d d'. pool_open lifo_fabric 0 [0] RoundRobin 1 = Inr p
    \<and> drive_run lifo_fabric lifo_client False [1, 2, 3, 4] (drive_start (set_race False (reserve 0 2 p))
        (replicate 2 (replicate 4 0)) 0) = Inr d
    \<and> drive_step lifo_fabric lifo_client False 5 d = Inr d'
    \<and> dv_memory d = [[9, 9, 9, 9], [0, 0, 0, 0]] \<and> dv_memory d' ! 0 = [9, 9, 9, 9] \<and> dv_memory d' ! 1 = [7, 7, 7, 7]"
proof -
  let ?m = "replicate 2 (replicate 4 0) :: memory"
  let ?start = "\<lambda>p. drive_start (set_race False (reserve 0 2 p)) ?m 0"
  have "case pool_open lifo_fabric 0 [0] RoundRobin 1 of Inl _ \<Rightarrow> False | Inr p \<Rightarrow> 0 < ge_block_len (pl_geometry p) \<and>
      (case drive_run lifo_fabric lifo_client False [1, 2, 3, 4] (?start p) of Inl _ \<Rightarrow> False
       | Inr d \<Rightarrow> dv_memory d = [[9, 9, 9, 9], [0, 0, 0, 0]] \<and> pl_free (dv_pool d) = [] \<and> req_write (pl_slot_req (dv_pool d) ! 0)
          \<and> (case drive_step lifo_fabric lifo_client False 5 d of Inl _ \<Rightarrow> False | Inr d' \<Rightarrow> dv_memory d' ! 1 = [7, 7, 7, 7]))"
    by code_simp
  then obtain p d d' where p: "pool_open lifo_fabric 0 [0] RoundRobin 1 = Inr p" "0 < ge_block_len (pl_geometry p)"
    and d: "drive_run lifo_fabric lifo_client False [1, 2, 3, 4] (?start p) = Inr d"
      "dv_memory d = [[9, 9, 9, 9], [0, 0, 0, 0]]" "pl_free (dv_pool d) = []" "req_write (pl_slot_req (dv_pool d) ! 0)"
    and d': "drive_step lifo_fabric lifo_client False 5 d = Inr d'" "dv_memory d' ! 1 = [7, 7, 7, 7]"
    by (auto split: sum.splits)
  have "dv_memory d' ! 0 = dv_memory d ! 0"
    using pool_keeps_payload [OF lifo_contract lifo_opens lifo_client_ok p _ _ d(1) d'(1), of 0] d(2-4) by simp
  then show ?thesis using p(1) d(1,2) d' by auto
qed

end
