(* ===== verification/Crc32c.thy ===== *)
theory Crc32c
  imports Prelude
begin

text \<open>
  \<open>src/rust/src/iscsi/crc32c.rs\<close>: the CRC32C digest of iSCSI headers and data, with the table the code
  builds at compile time. The lemmas show that the table gives the bitwise remainder, and that a burst of
  errors within four consecutive bytes always changes the digest.
\<close>

unbundle bit_operations_syntax

definition poly :: u32 where
  "poly = 0x82F63B78"

definition crc_bit :: "u32 \<Rightarrow> u32" where
  "crc_bit crc = (if crc AND 1 \<noteq> 0 then drop_bit 1 crc XOR poly else drop_bit 1 crc)"

definition crc_table :: "u32 list" where
  "crc_table = map (\<lambda>i. (crc_bit ^^ 8) (of_nat i)) [0..<256]"

definition crc_byte :: "u8 \<Rightarrow> u32 \<Rightarrow> u32" where
  "crc_byte b crc = crc_table ! unat ((crc XOR ucast b) AND 0xff) XOR drop_bit 8 crc"

definition crc32c :: "u8 list \<Rightarrow> u32" where
  "crc32c data = NOT (fold crc_byte data (NOT 0))"

section \<open>The table is the bitwise remainder\<close>

text \<open>The specification: eight divisions by the polynomial per byte, least significant bit first.\<close>

definition crc_reference :: "u8 list \<Rightarrow> u32" where
  "crc_reference data = NOT (fold (\<lambda>b crc. (crc_bit ^^ 8) (crc XOR ucast b)) data (NOT 0))"

lemma and_1_neq_0: "x AND 1 \<noteq> 0 \<longleftrightarrow> bit x 0" for x :: u32
  by (simp add: and_one_eq odd_iff_mod_2_eq_one bit_0)

lemma crc_bit_eq: "crc_bit x = (if bit x 0 then drop_bit 1 x XOR poly else drop_bit 1 x)"
  unfolding crc_bit_def and_1_neq_0 ..

lemma xor_cancel: "a XOR c = b XOR c \<longleftrightarrow> a = b" for a b c :: u32
  by (metis xor.assoc xor.right_neutral xor_self_eq)

lemma low_byte: "(0xff :: u32) = mask 8"
  by (simp add: mask_eq_exp_minus_1)

lemma crc_bit_xor: "crc_bit (x XOR y) = crc_bit x XOR crc_bit y"
proof -
  have "drop_bit 1 (x XOR y) = drop_bit 1 x XOR drop_bit 1 y" by simp
  moreover have "a XOR poly XOR (b XOR poly) = a XOR b" for a b
    by (metis xor.assoc xor.commute xor.right_neutral xor_self_eq)
  ultimately show ?thesis by (simp add: crc_bit_eq bit_xor_iff ac_simps)
qed

lemma crc_bits_xor: "(crc_bit ^^ n) (x XOR y) = (crc_bit ^^ n) x XOR (crc_bit ^^ n) y"
  by (induction n) (simp_all add: crc_bit_xor)

lemma crc_bits_shift: "\<forall>i < n. \<not> bit x i \<Longrightarrow> (crc_bit ^^ n) x = drop_bit n x"
proof (induction n arbitrary: x)
  case (Suc n)
  have "(crc_bit ^^ Suc n) x = (crc_bit ^^ n) (crc_bit x)" by (simp add: funpow_swap1)
  also have "crc_bit x = drop_bit 1 x" using Suc.prems by (simp add: crc_bit_eq)
  also have "(crc_bit ^^ n) (drop_bit 1 x) = drop_bit n (drop_bit 1 x)"
    using Suc.prems by (intro Suc.IH) (simp add: bit_simps)
  finally show ?case by simp
qed simp

lemma crc_table_nth: "i < 256 \<Longrightarrow> crc_table ! i = (crc_bit ^^ 8) (of_nat i)"
  by (simp add: crc_table_def)

lemma unat_low_byte: "unat (x AND 0xff) < 256" for x :: u32
  using word_and_le1 [of x "0xff"] by (simp add: word_le_nat_alt)

lemma crc_byte_eq: "crc_byte b crc = (crc_bit ^^ 8) (crc XOR ucast b)"
proof -
  let ?x = "crc XOR ucast b"
  have split: "?x = (?x AND 0xff) XOR (?x AND NOT 0xff)"
    by (rule bit_word_eqI) (auto simp: bit_simps)
  have "(crc_bit ^^ 8) ?x = (crc_bit ^^ 8) (?x AND 0xff) XOR (crc_bit ^^ 8) (?x AND NOT 0xff)"
    by (subst split, rule crc_bits_xor)
  also have "(crc_bit ^^ 8) (?x AND 0xff) = crc_table ! unat (?x AND 0xff)"
    using unat_low_byte by (simp add: crc_table_nth)
  also have "(crc_bit ^^ 8) (?x AND NOT 0xff) = drop_bit 8 (?x AND NOT 0xff)"
    by (rule crc_bits_shift) (simp only: low_byte, auto simp: bit_simps)
  also have "drop_bit 8 (?x AND NOT 0xff) = drop_bit 8 crc"
    by (rule bit_word_eqI) (simp only: low_byte, auto simp: bit_simps dest: bit_imp_le_length)
  finally show ?thesis by (simp add: crc_byte_def)
qed

section \<open>Error detection\<close>

lemma crc_bit_inject: "crc_bit x = crc_bit y \<longleftrightarrow> x = y"
proof
  assume eq: "crc_bit x = crc_bit y"
  have top: "bit (crc_bit z) 31 \<longleftrightarrow> bit z 0" for z
    by (auto simp: crc_bit_eq bit_simps poly_def dest: bit_imp_le_length)
  have b0: "bit x 0 \<longleftrightarrow> bit y 0" using top eq by metis
  have "drop_bit 1 x = drop_bit 1 y"
    using eq b0 by (auto simp: crc_bit_eq xor_cancel split: if_splits)
  then have "bit x (Suc n) = bit y (Suc n)" for n
    by (metis bit_drop_bit_eq comp_apply plus_1_eq_Suc)
  then show "x = y" using b0 by (intro bit_word_eqI) (metis not0_implies_Suc)
qed simp

lemma crc_bits_inject: "(crc_bit ^^ n) x = (crc_bit ^^ n) y \<longleftrightarrow> x = y"
  by (induction n) (simp_all add: crc_bit_inject)

lemma fold_crc_inject: "fold crc_byte data x = fold crc_byte data y \<longleftrightarrow> x = y"
  by (induction data arbitrary: x y) (auto simp: crc_byte_eq crc_bits_inject xor_cancel)

text \<open>Up to four bytes enter the remainder as one little-endian word.\<close>

lemma fold_crc_short:
  "length bs \<le> 4 \<Longrightarrow> fold crc_byte bs c = (crc_bit ^^ (8 * length bs)) (c XOR from_le_bytes bs)"
proof (induction bs arbitrary: c)
  case (Cons b bs)
  let ?F = "from_le_bytes bs :: u32"
  have small: "drop_bit 8 (push_bit 8 ?F) = ?F"
    using Cons.prems by (intro bit_word_eqI) (auto simp: bit_simps bit_from_le_bytes)
  have "(crc_bit ^^ 8) (push_bit 8 ?F) = ?F"
    using crc_bits_shift [of 8 "push_bit 8 ?F"] small by (simp add: bit_simps)
  then have "crc_byte b c XOR ?F = (crc_bit ^^ 8) (c XOR ucast b XOR push_bit 8 ?F)"
    by (simp add: crc_byte_eq crc_bits_xor xor.assoc)
  moreover have "ucast b XOR push_bit 8 ?F = (from_le_bytes (b # bs) :: u32)"
    by (rule bit_word_eqI) (auto simp: bit_simps dest: bit_imp_le_length)
  ultimately have "crc_byte b c XOR ?F = (crc_bit ^^ 8) (c XOR from_le_bytes (b # bs))"
    by (simp add: xor.assoc)
  moreover have "crc_bit ^^ (8 * length (b # bs)) = (crc_bit ^^ (8 * length bs)) \<circ> (crc_bit ^^ 8)"
    by (simp only: funpow_add [symmetric] length_Cons mult_Suc_right add.commute)
  ultimately show ?case
    using Cons.IH [of "crc_byte b c"] Cons.prems by (simp del: from_le_bytes.simps)
qed simp

lemma from_le_bytes_inject:
  assumes "length xs = length ys" and "length xs \<le> 4" and "(from_le_bytes xs :: u32) = from_le_bytes ys"
  shows "xs = ys"
proof (rule nth_equalityI)
  fix i assume i: "i < length xs"
  show "xs ! i = ys ! i"
  proof (rule bit_word_eqI)
    fix n assume "n < LENGTH(8)"
    then show "bit (xs ! i) n = bit (ys ! i) n"
      using arg_cong [OF assms(3), of "\<lambda>w. bit w (8 * i + n)"] i assms(1,2) by (simp add: bit_from_le_bytes)
  qed
qed (rule assms(1))

section \<open>Properties\<close>

text \<open>
  C38: the table-driven digest is CRC32C. For every byte string it equals the remainder computed bit by
  bit with the Castagnoli polynomial, initial value and final complement all ones.
\<close>

theorem crc32c_is_reference: "crc32c data = crc_reference data"
  by (simp add: crc32c_def crc_reference_def crc_byte_eq [abs_def])

text \<open>
  C39: a digest detects every burst of errors of up to 32 bits. When two messages of the same length differ
  only within four consecutive bytes, their digests differ.
\<close>

theorem crc32c_detects_bursts:
  assumes "length burst = length burst'" and "length burst \<le> 4" and "burst \<noteq> burst'"
  shows "crc32c (before @ burst @ after) \<noteq> crc32c (before @ burst' @ after)"
proof -
  have "fold crc_byte burst c \<noteq> fold crc_byte burst' c" for c
    using assms from_le_bytes_inject [OF assms(1,2)]
    by (auto simp: fold_crc_short crc_bits_inject xor.commute [of c] xor_cancel)
  then show ?thesis by (simp add: crc32c_def fold_crc_inject)
qed

theorem crc32c_detects_bursts_witness:
  "crc32c ([1, 2] @ [3, 4, 5] @ [6]) \<noteq> crc32c ([1, 2] @ [3, 5, 4] @ [6])"
  by (rule crc32c_detects_bursts) simp_all

end
