(* ===== verification/Pdu.thy ===== *)
theory Pdu
  imports Text
begin

text \<open>
  \<open>src/rust/src/iscsi/pdu.rs\<close>: the 48-byte headers and text segments of iSCSI. A header is a list of 48
  bytes built by the same writes at the same places as in the code; text is a list of characters, one per
  byte. The lemmas show that login text survives encoding and parsing, and that a CDB longer than the
  header is recovered from the header and its extension.
\<close>

unbundle bit_operations_syntax

section \<open>Constants\<close>

definition op_login_request :: u8 where "op_login_request = 0x03"
definition op_login_response :: u8 where "op_login_response = 0x23"
definition op_logout_request :: u8 where "op_logout_request = 0x06"
definition op_logout_response :: u8 where "op_logout_response = 0x26"
definition op_nop_out :: u8 where "op_nop_out = 0x00"
definition op_text_request :: u8 where "op_text_request = 0x04"
definition op_nop_in :: u8 where "op_nop_in = 0x20"
definition op_scsi_command :: u8 where "op_scsi_command = 0x01"
definition op_scsi_response :: u8 where "op_scsi_response = 0x21"
definition op_data_out :: u8 where "op_data_out = 0x05"
definition op_data_in :: u8 where "op_data_in = 0x25"
definition op_r2t :: u8 where "op_r2t = 0x31"
definition op_task_management_request :: u8 where "op_task_management_request = 0x02"
definition op_task_management_response :: u8 where "op_task_management_response = 0x22"
definition op_reject :: u8 where "op_reject = 0x3f"
definition tmf_abort_task :: u8 where "tmf_abort_task = 1"
definition tmf_query_task :: u8 where "tmf_query_task = 9"
definition no_ttt :: u32 where "no_ttt = 0xffffffff"
definition immediate :: u8 where "immediate = 0x40"
definition transit :: u8 where "transit = 0x80"
definition bhs_len :: nat where "bhs_len = 48"

lemmas pdu_consts = op_login_request_def op_login_response_def op_logout_request_def op_logout_response_def
  op_nop_out_def op_text_request_def op_nop_in_def op_scsi_command_def op_scsi_response_def op_data_out_def
  op_data_in_def op_r2t_def op_task_management_request_def op_task_management_response_def op_reject_def
  tmf_abort_task_def tmf_query_task_def no_ttt_def immediate_def transit_def bhs_len_def

definition opcode :: "u8 list \<Rightarrow> u8" where
  "opcode bhs = bhs ! 0 AND 0x3f"

definition empty_bhs :: "u8 list" where
  "empty_bhs = replicate bhs_len 0"

text \<open>The three length bytes of \<open>(len as u32).to_be_bytes()[1..]\<close>.\<close>

definition len24 :: "nat \<Rightarrow> u8 list" where
  "len24 n = drop 1 (to_be_bytes (of_nat n :: u32))"

section \<open>Text\<close>

definition bytes_of :: "string \<Rightarrow> u8 list" where
  "bytes_of s = map of_char s"

definition string_of :: "u8 list \<Rightarrow> string" where
  "string_of bs = map (char_of \<circ> unat) bs"

text \<open>\<open>str::from_utf8\<close> accepts well-formed UTF-8: no overlong form, no surrogate, nothing above U+10FFFF.\<close>

definition continuation :: "u8 \<Rightarrow> bool" where
  "continuation b \<longleftrightarrow> b AND 0xc0 = 0x80"

fun is_utf8 :: "u8 list \<Rightarrow> bool" where
  "is_utf8 [] = True"
| "is_utf8 (a # bs) =
     (if a < 0x80 then is_utf8 bs
      else if 0xc2 \<le> a \<and> a \<le> 0xdf then
        (case bs of b # rest \<Rightarrow> continuation b \<and> is_utf8 rest | _ \<Rightarrow> False)
      else if 0xe0 \<le> a \<and> a \<le> 0xef then
        (case bs of b # c # rest \<Rightarrow> continuation b \<and> continuation c \<and> (a = 0xe0 \<longrightarrow> 0xa0 \<le> b)
             \<and> (a = 0xed \<longrightarrow> b \<le> 0x9f) \<and> is_utf8 rest | _ \<Rightarrow> False)
      else if 0xf0 \<le> a \<and> a \<le> 0xf4 then
        (case bs of b # c # d # rest \<Rightarrow> continuation b \<and> continuation c \<and> continuation d
             \<and> (a = 0xf0 \<longrightarrow> 0x90 \<le> b) \<and> (a = 0xf4 \<longrightarrow> b \<le> 0x8f) \<and> is_utf8 rest | _ \<Rightarrow> False)
      else False)"

text \<open>The bytes of the text pairs, and \<open>parse_text\<close>.\<close>

definition text_bytes :: "(string \<times> string) list \<Rightarrow> u8 list" where
  "text_bytes text = concat (map (\<lambda>(key, value). bytes_of (key @ ''='' @ value) @ [0]) text)"

fun parse_items :: "u8 list list \<Rightarrow> (string \<times> string) list result" where
  "parse_items [] = Inr []"
| "parse_items (item # items) =
     (if \<not> is_utf8 item then Inl (Err ''login text is not UTF-8'')
      else and_then (case split_once (\<lambda>c. c = CHR ''='') (string_of item) of
               Some pair \<Rightarrow> Inr pair
             | None \<Rightarrow> Inl (Err (''login text item has no '' @ [CHR 39, CHR ''='', CHR 39] @ '': '' @ string_of item)))
             (\<lambda>pair. and_then (parse_items items) (\<lambda>pairs. Inr (pair # pairs))))"

definition parse_text :: "u8 list \<Rightarrow> (string \<times> string) list result" where
  "parse_text data = parse_items (filter (\<lambda>item. item \<noteq> []) (split_on (\<lambda>b. b = 0) data))"

section \<open>Login\<close>

datatype stage = Security | Operational | FullFeature

definition stage_code :: "stage \<Rightarrow> u8" where
  "stage_code s = (case s of Security \<Rightarrow> 0 | Operational \<Rightarrow> 1 | FullFeature \<Rightarrow> 3)"

record login_request =
  lq_isid :: "u8 list"
  lq_tsih :: u16
  lq_cid :: u16
  lq_itt :: u32
  lq_cmd_sn :: u32
  lq_exp_stat_sn :: u32
  lq_current :: stage
  lq_next :: stage
  lq_transit :: bool
  lq_text :: "(string \<times> string) list"

definition padded :: "nat \<Rightarrow> nat" where
  "padded len = (len + 3) div 4 * 4"

text \<open>\<open>data.resize(padded, 0)\<close>: zero bytes up to the next multiple of four.\<close>

definition pad4 :: "u8 list \<Rightarrow> u8 list" where
  "pad4 data = data @ replicate (padded (length data) - length data) 0"

definition login_encode :: "login_request \<Rightarrow> u8 list result" where
  "login_encode q =
     (let data = text_bytes (lq_text q); n = length data
      in if 2 ^ 24 \<le> n then Inl (Err ''login text is too large for one PDU'')
         else let bhs = empty_bhs[0 := op_login_request OR immediate,
                        1 := (if lq_transit q then transit else 0) OR push_bit 2 (stage_code (lq_current q))
                             OR stage_code (lq_next q)];
                  bhs = copy_at 5 (len24 n) bhs;
                  bhs = copy_at 8 (lq_isid q) bhs;
                  bhs = copy_at 14 (to_be_bytes (lq_tsih q)) bhs;
                  bhs = copy_at 16 (to_be_bytes (lq_itt q)) bhs;
                  bhs = copy_at 20 (to_be_bytes (lq_cid q)) bhs;
                  bhs = copy_at 24 (to_be_bytes (lq_cmd_sn q)) bhs;
                  bhs = copy_at 28 (to_be_bytes (lq_exp_stat_sn q)) bhs
              in Inr (bhs @ pad4 data))"

record login_response =
  lp_transit :: bool
  lp_current :: u8
  lp_next :: u8
  lp_tsih :: u16
  lp_itt :: u32
  lp_stat_sn :: u32
  lp_status :: "u8 \<times> u8"
  lp_text :: "(string \<times> string) list"

definition data_len :: "u8 list \<Rightarrow> nat" where
  "data_len bhs = unat (from_be_bytes (0 # slice 5 3 bhs) :: u32)"

text \<open>\<open>{:#x}\<close> of a byte: no leading zero.\<close>

definition show_hex :: "u8 \<Rightarrow> string" where
  "show_hex b = ''0x'' @ (if unat b < 16 then [hex_digit (unat b)] else hex_byte b)"

definition login_decode :: "u8 list \<Rightarrow> login_response result" where
  "login_decode pdu =
     (if length pdu < bhs_len then Inl (Err ''login response is shorter than its header'')
      else if opcode pdu \<noteq> op_login_response
      then Inl (Err (''expected a login response, got opcode '' @ show_hex (opcode pdu)))
      else and_then (ok_or (get_slice bhs_len (data_len pdu) pdu) ''login response data is truncated'') (\<lambda>data.
           and_then (parse_text data) (\<lambda>text.
             Inr \<lparr>lp_transit = (pdu ! 1 AND transit \<noteq> 0), lp_current = drop_bit 2 (pdu ! 1) AND 3,
                  lp_next = pdu ! 1 AND 3, lp_tsih = from_be_bytes (slice 14 2 pdu),
                  lp_itt = from_be_bytes (slice 16 4 pdu), lp_stat_sn = from_be_bytes (slice 24 4 pdu),
                  lp_status = (pdu ! 36, pdu ! 37), lp_text = text\<rparr>)))"

section \<open>Full feature phase\<close>

definition logout_request :: "u32 \<Rightarrow> u16 \<Rightarrow> u32 \<Rightarrow> u32 \<Rightarrow> u8 list" where
  "logout_request itt cid cmd_sn exp_stat_sn =
     (let bhs = empty_bhs[0 := op_logout_request OR immediate, 1 := transit];
          bhs = copy_at 16 (to_be_bytes itt) bhs; bhs = copy_at 20 (to_be_bytes cid) bhs;
          bhs = copy_at 24 (to_be_bytes cmd_sn) bhs
      in copy_at 28 (to_be_bytes exp_stat_sn) bhs)"

definition check_logout_response :: "u8 list \<Rightarrow> unit result" where
  "check_logout_response pdu =
     (if length pdu < bhs_len \<or> opcode pdu \<noteq> op_logout_response then Inl (Err ''expected a logout response'')
      else if pdu ! 2 = 0 then Inr ()
      else Inl (Err (''logout refused with response '' @ show_nat (unat (pdu ! 2)))))"

text \<open>The four bytes at \<open>at\<close>, which the callers know to be there.\<close>

definition be32 :: "u8 list \<Rightarrow> nat \<Rightarrow> u32" where
  "be32 b at = from_be_bytes (slice at 4 b)"

record scsi_command =
  sc_lun :: u64
  sc_itt :: u32
  sc_cmd_sn :: u32
  sc_exp_stat_sn :: u32
  sc_cdb :: "u8 list"
  sc_read :: bool
  sc_write :: bool
  sc_expected :: u32

definition max_cdb :: nat where
  "max_cdb = 32"

definition extended_cdb :: "u8 list \<Rightarrow> u8 list" where
  "extended_cdb cdb =
     (if length cdb \<le> 16 then []
      else to_be_bytes (of_nat (length cdb - 15) :: u16) @ [0x01, 0] @ pad4 (drop 16 cdb))"

definition scsi_encode :: "scsi_command \<Rightarrow> u8 list result" where
  "scsi_encode c =
     (if sc_cdb c = [] \<or> max_cdb < length (sc_cdb c)
      then Inl (Err (''CDB must be 1 to '' @ show_nat max_cdb @ '' bytes, not '' @ show_nat (length (sc_cdb c))))
      else let bhs = empty_bhs[0 := op_scsi_command, 4 := of_nat (length (extended_cdb (sc_cdb c)) div 4),
                     1 := transit OR (if sc_read c then 0x40 else 0) OR (if sc_write c then 0x20 else 0)];
               bhs = copy_at 8 (to_be_bytes (sc_lun c)) bhs;
               bhs = copy_at 16 (to_be_bytes (sc_itt c)) bhs;
               bhs = copy_at 20 (to_be_bytes (sc_expected c)) bhs;
               bhs = copy_at 24 (to_be_bytes (sc_cmd_sn c)) bhs;
               bhs = copy_at 28 (to_be_bytes (sc_exp_stat_sn c)) bhs
           in Inr (copy_at 32 (take 16 (sc_cdb c)) bhs))"

definition data_out_header :: "u32 \<Rightarrow> u32 \<Rightarrow> u32 \<Rightarrow> u32 \<Rightarrow> u32 \<Rightarrow> bool \<Rightarrow> nat \<Rightarrow> u8 list" where
  "data_out_header itt ttt exp_stat_sn data_sn offset is_last n =
     (let bhs = empty_bhs[0 := op_data_out, 1 := if is_last then transit else 0];
          bhs = copy_at 5 (len24 n) bhs;
          bhs = copy_at 16 (to_be_bytes itt) bhs; bhs = copy_at 20 (to_be_bytes ttt) bhs;
          bhs = copy_at 28 (to_be_bytes exp_stat_sn) bhs; bhs = copy_at 36 (to_be_bytes data_sn) bhs
      in copy_at 40 (to_be_bytes offset) bhs)"

definition nop_out :: "u64 \<Rightarrow> u32 \<Rightarrow> u32 \<Rightarrow> u32 \<Rightarrow> u32 \<Rightarrow> u8 list" where
  "nop_out lun itt ttt cmd_sn exp_stat_sn =
     (let bhs = empty_bhs[0 := op_nop_out OR 0x40, 1 := transit];
          bhs = copy_at 8 (to_be_bytes lun) bhs; bhs = copy_at 16 (to_be_bytes itt) bhs;
          bhs = copy_at 20 (to_be_bytes ttt) bhs; bhs = copy_at 24 (to_be_bytes cmd_sn) bhs
      in copy_at 28 (to_be_bytes exp_stat_sn) bhs)"

definition set_data_len :: "nat \<Rightarrow> u8 list \<Rightarrow> u8 list" where
  "set_data_len n bhs = copy_at 5 (len24 n) bhs"

definition task_management_request :: "u8 \<Rightarrow> u64 \<Rightarrow> u32 \<Rightarrow> u32 \<Rightarrow> u32 \<Rightarrow> u32 \<Rightarrow> u32 \<Rightarrow> u8 list" where
  "task_management_request function lun itt referenced cmd_sn exp_stat_sn ref_cmd_sn =
     (let bhs = empty_bhs[0 := op_task_management_request OR immediate, 1 := transit OR (function AND 0x7f)];
          bhs = copy_at 8 (to_be_bytes lun) bhs; bhs = copy_at 16 (to_be_bytes itt) bhs;
          bhs = copy_at 20 (to_be_bytes referenced) bhs; bhs = copy_at 24 (to_be_bytes cmd_sn) bhs;
          bhs = copy_at 28 (to_be_bytes exp_stat_sn) bhs
      in copy_at 32 (to_be_bytes ref_cmd_sn) bhs)"

definition text_request :: "u32 \<Rightarrow> u32 \<Rightarrow> u32 \<Rightarrow> u32 \<Rightarrow> nat \<Rightarrow> u8 list" where
  "text_request itt ttt cmd_sn exp_stat_sn n =
     (let bhs = copy_at 5 (len24 n) (empty_bhs[0 := op_text_request, 1 := 0x80]);
          bhs = copy_at 16 (to_be_bytes itt) bhs; bhs = copy_at 20 (to_be_bytes ttt) bhs;
          bhs = copy_at 24 (to_be_bytes cmd_sn) bhs
      in copy_at 28 (to_be_bytes exp_stat_sn) bhs)"

record sequence =
  sq_stat_sn :: u32
  sq_exp_cmd_sn :: u32
  sq_max_cmd_sn :: u32

definition sequence_of :: "u8 list \<Rightarrow> sequence" where
  "sequence_of bhs = \<lparr>sq_stat_sn = be32 bhs 24, sq_exp_cmd_sn = be32 bhs 28, sq_max_cmd_sn = be32 bhs 32\<rparr>"

record r2t =
  rt_itt :: u32
  rt_ttt :: u32
  rt_seq :: sequence
  rt_r2t_sn :: u32
  rt_offset :: u32
  rt_desired :: u32

definition decode_r2t :: "u8 list \<Rightarrow> r2t result" where
  "decode_r2t pdu =
     (if length pdu < bhs_len \<or> opcode pdu \<noteq> op_r2t then Inl (Err ''expected R2T'')
      else Inr \<lparr>rt_itt = be32 pdu 16, rt_ttt = be32 pdu 20, rt_seq = sequence_of pdu, rt_r2t_sn = be32 pdu 36,
             rt_offset = be32 pdu 40, rt_desired = be32 pdu 44\<rparr>)"

record nop_in =
  ni_itt :: u32
  ni_ttt :: u32
  ni_seq :: sequence

definition decode_nop_in :: "u8 list \<Rightarrow> nop_in result" where
  "decode_nop_in pdu =
     (if length pdu < bhs_len \<or> opcode pdu \<noteq> op_nop_in then Inl (Err ''expected NOP-In'')
      else Inr \<lparr>ni_itt = be32 pdu 16, ni_ttt = be32 pdu 20, ni_seq = sequence_of pdu\<rparr>)"

section \<open>Headers\<close>

lemma length_empty_bhs [simp]: "length empty_bhs = 48"
  by (simp add: empty_bhs_def bhs_len_def)

lemma length_len24 [simp]: "length (len24 n) = 3"
  by (simp add: len24_def)

lemma len24_value:
  assumes "n < 2 ^ 24"
  shows "unat (from_be_bytes (0 # len24 n) :: u32) = n"
proof -
  let ?w = "of_nat n :: u32"
  have u: "unat ?w = n" using assms by (simp add: unat_of_nat)
  have "drop_bit 24 ?w = 0"
    using assms u by (intro word_unat_eq_iff [THEN iffD2]) (simp add: drop_bit_eq_div unat_div)
  then have "0 # len24 n = to_be_bytes ?w"
    by (simp add: len24_def to_be_bytes_def upt_rec)
  then show ?thesis using u by (simp add: from_be_bytes_to_be_bytes)
qed

lemma data_len_copy: "length bhs = 48 \<Longrightarrow> n < 2 ^ 24 \<Longrightarrow> data_len (copy_at 5 (len24 n) bhs) = n"
  using len24_value [of n] by (simp add: data_len_def slice_simps)

lemma data_len_other:
  "b + length src \<le> length bhs \<Longrightarrow> 8 \<le> b \<or> b + length src \<le> 5 \<Longrightarrow> data_len (copy_at b src bhs) = data_len bhs"
  by (simp add: data_len_def slice_copy_at_other)

lemma data_len_append: "8 \<le> length bhs \<Longrightarrow> data_len (bhs @ data) = data_len bhs"
  by (simp add: data_len_def slice_append1)

lemma be32_copy:
  "at + 4 \<le> length bhs \<Longrightarrow> be32 (copy_at at (to_be_bytes (w :: u32)) bhs) at = w"
  by (simp add: be32_def slice_copy_at_same from_be_bytes_to_be_bytes)

lemma be32_other:
  "b + length src \<le> length bhs \<Longrightarrow> at + 4 \<le> b \<or> b + length src \<le> at \<Longrightarrow> be32 (copy_at b src bhs) at = be32 bhs at"
  by (simp add: be32_def slice_copy_at_other)

lemma take_slice_copy:
  "a + length src \<le> length xs \<Longrightarrow> k \<le> length src \<Longrightarrow> k \<le> n \<Longrightarrow> take k (slice a n (copy_at a src xs)) = take k src"
  by (simp add: slice_def copy_at_def)

lemmas header_simps = data_len_copy data_len_other data_len_append be32_copy be32_other slice_copy_at_same
  slice_copy_at_other nth_copy_at_other

lemma padded_bounds: "n \<le> padded n" "padded n < n + 4" "4 dvd padded n"
  unfolding padded_def by presburger+

lemma length_pad4 [simp]: "length (pad4 data) = padded (length data)"
  using padded_bounds(1) [of "length data"] by (simp add: pad4_def)

lemma take_pad4: "n \<le> length data \<Longrightarrow> take n (pad4 data) = take n data"
  by (simp add: pad4_def)

section \<open>Text\<close>

lemma unat_of_char [simp]: "unat (of_char c :: u8) = of_char c"
proof -
  have "unat (of_nat (of_char c) :: u8) = of_char c" by (simp add: unat_of_nat)
  then show ?thesis by (simp only: of_nat_of_char)
qed

lemma string_of_bytes_of [simp]: "string_of (bytes_of s) = s"
  by (simp add: string_of_def bytes_of_def map_idI)

text \<open>A pair that the format can carry.\<close>

definition plain_pair :: "string \<times> string \<Rightarrow> bool" where
  "plain_pair pair = (case pair of (key, value) \<Rightarrow> CHR ''='' \<notin> set key
     \<and> CHR 0x00 \<notin> set key \<and> CHR 0x00 \<notin> set value \<and> is_utf8 (bytes_of (key @ ''='' @ value)))"

lemma of_char_eq_0: "(of_char c :: u8) = 0 \<longleftrightarrow> c = CHR 0x00"
proof -
  have "(of_char c :: u8) = 0 \<longleftrightarrow> (of_char c :: nat) = of_char (CHR 0x00)" by (simp add: word_unat_eq_iff)
  then show ?thesis by (simp only: of_char_eq_iff)
qed

lemma text_bytes_Cons:
  "text_bytes ((key, value) # pairs) = bytes_of (key @ ''='' @ value) @ 0 # text_bytes pairs"
  by (simp add: text_bytes_def)

lemma parse_text_bytes:
  "list_all plain_pair pairs \<Longrightarrow> parse_text (text_bytes pairs) = Inr pairs"
proof (induction pairs)
  case Nil
  then show ?case by (simp add: parse_text_def text_bytes_def)
next
  case (Cons pair pairs)
  obtain key val where pair: "pair = (key, val)" by fastforce
  let ?item = "bytes_of (key @ ''='' @ val)"
  have "list_all (\<lambda>b. b \<noteq> 0) ?item"
    using Cons.prems pair by (auto simp: list_all_iff plain_pair_def bytes_of_def of_char_eq_0)
  then have "split_on (\<lambda>b. b = 0) (text_bytes (pair # pairs)) = ?item # split_on (\<lambda>b. b = 0) (text_bytes pairs)"
    unfolding pair text_bytes_Cons by (intro split_on_append) simp_all
  moreover have "?item \<noteq> []" by (simp add: bytes_of_def)
  moreover have "split_once (\<lambda>c. c = CHR ''='') (key @ ''='' @ val) = Some (key, val)"
    using Cons.prems pair split_once_append [of "\<lambda>c. c = CHR ''=''" key "CHR ''=''" val]
    by (auto simp: list_all_iff plain_pair_def)
  ultimately show ?case
    using Cons pair by (simp add: parse_text_def plain_pair_def)
qed

section \<open>Properties\<close>

lemma login_encode_Inr:
  assumes "login_encode q = Inr pdu" and "length (lq_isid q) = 6"
  shows "\<exists>bhs. pdu = bhs @ pad4 (text_bytes (lq_text q)) \<and> length bhs = 48
    \<and> data_len bhs = length (text_bytes (lq_text q)) \<and> be32 bhs 16 = lq_itt q \<and> be32 bhs 24 = lq_cmd_sn q
    \<and> be32 bhs 28 = lq_exp_stat_sn q \<and> opcode bhs = op_login_request"
  using assms
  by (auto simp: login_encode_def Let_def header_simps opcode_def nth_list_update pdu_consts split: if_splits
      intro!: exI)

lemma login_request_text:
  assumes "login_encode q = Inr pdu" and "length (lq_isid q) = 6" and "list_all plain_pair (lq_text q)"
  shows "parse_text (slice 48 (data_len pdu) pdu) = Inr (lq_text q)
    \<and> 4 dvd length pdu \<and> be32 pdu 16 = lq_itt q \<and> opcode pdu = op_login_request"
proof -
  from login_encode_Inr [OF assms(1,2)] obtain bhs where b: "pdu = bhs @ pad4 (text_bytes (lq_text q))" "length bhs = 48"
    "data_len bhs = length (text_bytes (lq_text q))" "be32 bhs 16 = lq_itt q" "opcode bhs = op_login_request" by blast
  have "slice 48 (data_len pdu) pdu = text_bytes (lq_text q)"
    using b by (simp add: data_len_append slice_append2 take_pad4)
  moreover have "4 dvd length pdu" using b padded_bounds(3) by (simp add: dvd_add)
  moreover have "be32 pdu 16 = be32 bhs 16" "opcode pdu = opcode bhs"
    using b(1,2) by (simp_all add: be32_def slice_append1 opcode_def nth_append)
  ultimately show ?thesis using parse_text_bytes [OF assms(3)] b by simp
qed

text \<open>
  a login request carries its text exactly. The PDU is a whole number of words, declares the length of
  its text without the padding, and parsing the declared bytes gives back the key and value pairs, in
  order, for every text the format can carry.
\<close>

theorem login_text_round_trip:
  assumes "login_encode q = Inr pdu" and "length (lq_isid q) = 6" and "list_all plain_pair (lq_text q)"
  shows "parse_text (slice 48 (data_len pdu) pdu) = Inr (lq_text q)
    \<and> 4 dvd length pdu \<and> be32 pdu 16 = lq_itt q \<and> opcode pdu = op_login_request"
  using login_request_text [OF assms] .

definition example_login :: login_request where
  "example_login = \<lparr>lq_isid = [0x40, 0, 0, 1, 2, 3], lq_tsih = 0, lq_cid = 1, lq_itt = 7, lq_cmd_sn = 0,
     lq_exp_stat_sn = 0, lq_current = Security, lq_next = Operational, lq_transit = True,
     lq_text = [(''AuthMethod'', ''CHAP,None''), (''CHAP_N'', ''a=b'')]\<rparr>"

theorem login_text_round_trip_witness:
  "\<exists>pdu. login_encode example_login = Inr pdu
    \<and> parse_text (slice 48 (data_len pdu) pdu) = Inr [(''AuthMethod'', ''CHAP,None''), (''CHAP_N'', ''a=b'')]"
proof -
  obtain pdu where p: "login_encode example_login = Inr pdu"
    by (simp add: login_encode_def example_login_def text_bytes_def bytes_of_def Let_def)
  have "list_all plain_pair (lq_text example_login)" by code_simp
  from login_text_round_trip [OF p _ this] p show ?thesis by (simp add: example_login_def)
qed

text \<open>
  A SCSI command PDU carries its whole CDB. An accepted command's header is 48 bytes with the command's
  numbers in their places; TotalAHSLength counts the words of the extension; and the bytes the target puts
  together from the header and the extension are the CDB, also when it is longer than 16 bytes.
\<close>

theorem scsi_command_carries_cdb:
  assumes "scsi_encode c = Inr bhs"
  shows "length bhs = 48 \<and> be32 bhs 16 = sc_itt c \<and> be32 bhs 20 = sc_expected c \<and> be32 bhs 24 = sc_cmd_sn c
    \<and> 4 * unat (bhs ! 4) = length (extended_cdb (sc_cdb c))
    \<and> take (length (sc_cdb c)) (slice 32 16 bhs @ drop 4 (extended_cdb (sc_cdb c))) = sc_cdb c"
proof -
  let ?cdb = "sc_cdb c"
  have len: "?cdb \<noteq> []" "length ?cdb \<le> 32" using assms by (auto simp: scsi_encode_def max_cdb_def split: if_splits)
  have ext: "length (extended_cdb ?cdb) \<le> 20" "4 dvd length (extended_cdb ?cdb)"
    using len padded_bounds [of "length ?cdb - 16"] by (auto simp: extended_cdb_def) presburger
  have "unat (of_nat (length (extended_cdb ?cdb) div 4) :: u8) = length (extended_cdb ?cdb) div 4"
    using ext by (simp add: unat_of_nat)
  then have ahs: "4 * unat (bhs ! 4) = length (extended_cdb ?cdb)"
    using assms ext(2) by (auto simp: scsi_encode_def Let_def header_simps nth_list_update split: if_splits)
  have bhs: "\<exists>h. length h = 48 \<and> bhs = copy_at 32 (take 16 ?cdb) h"
    using assms by (auto simp: scsi_encode_def Let_def split: if_splits intro!: exI)
  have "take (length ?cdb) (slice 32 16 bhs @ drop 4 (extended_cdb ?cdb)) = ?cdb"
  proof (cases "length ?cdb \<le> 16")
    case True
    then show ?thesis using bhs take_slice_copy [of 32 ?cdb _ "length ?cdb" 16] by auto
  next
    case False
    then have "slice 32 16 bhs = take 16 ?cdb" "drop 4 (extended_cdb ?cdb) = pad4 (drop 16 ?cdb)"
      using bhs by (auto simp: extended_cdb_def slice_copy_at_same)
    then show ?thesis using False by (simp add: take_pad4)
  qed
  moreover have "length bhs = 48" "be32 bhs 16 = sc_itt c" "be32 bhs 20 = sc_expected c" "be32 bhs 24 = sc_cmd_sn c"
    using assms by (auto simp: scsi_encode_def Let_def header_simps split: if_splits)
  ultimately show ?thesis using ahs by blast
qed

theorem scsi_command_carries_cdb_witness:
  "\<exists>bhs. scsi_encode \<lparr>sc_lun = 0, sc_itt = 2, sc_cmd_sn = 0, sc_exp_stat_sn = 1, sc_cdb = 0x7f # replicate 31 1,
       sc_read = True, sc_write = False, sc_expected = 512\<rparr> = Inr bhs \<and> 4 * unat (bhs ! 4) = 20"
proof -
  let ?c = "\<lparr>sc_lun = 0, sc_itt = 2, sc_cmd_sn = 0, sc_exp_stat_sn = 1, sc_cdb = 0x7f # replicate 31 1,
       sc_read = True, sc_write = False, sc_expected = 512\<rparr>"
  obtain bhs where b: "scsi_encode ?c = Inr bhs" by (simp add: scsi_encode_def max_cdb_def Let_def)
  from scsi_command_carries_cdb [OF this] b show ?thesis by (simp add: extended_cdb_def padded_def)
qed

end
