(* ===== verification/Session.thy ===== *)
theory Session
  imports Pool_Drive Crc32c Pdu
begin

text \<open>
  \<open>src/rust/src/iscsi/session.rs\<close>: an established iSCSI session. The TCP stream is the list of bytes that
  will arrive, the bytes sent so far, and how many more the connection takes before it breaks; reading
  past the end or writing past that is the error the code gets from the socket. A command's buffer is an
  index into the caller's memory, as the code keeps a pointer. Every function returns its result and the
  session, also on an error, since a caller may go on using it.
\<close>

unbundle bit_operations_syntax

section \<open>The connection\<close>

record tcp =
  tc_in :: "u8 list"
  tc_out :: "u8 list"
  tc_accepts :: nat
  tc_error :: string

definition read_exact :: "nat \<Rightarrow> tcp \<Rightarrow> u8 list result \<times> tcp" where
  "read_exact n t =
     (if n \<le> length (tc_in t) then (Inr (take n (tc_in t)), t\<lparr>tc_in := drop n (tc_in t)\<rparr>)
      else (Inl (Err (tc_error t)), t\<lparr>tc_in := []\<rparr>))"

definition write_all :: "u8 list \<Rightarrow> tcp \<Rightarrow> unit result \<times> tcp" where
  "write_all data t =
     (if length data \<le> tc_accepts t
      then (Inr (), t\<lparr>tc_out := tc_out t @ data, tc_accepts := tc_accepts t - length data\<rparr>)
      else (Inl (Err (tc_error t)),
            t\<lparr>tc_out := tc_out t @ take (tc_accepts t) data, tc_accepts := 0\<rparr>))"

text \<open>What login agreed on with the target; a session uses the first three.\<close>

record negotiated =
  ng_header_digest :: bool
  ng_data_digest :: bool
  ng_max_recv :: nat
  ng_own_max_recv :: nat
  ng_initial_r2t :: bool
  ng_immediate_data :: bool
  ng_first_burst :: nat
  ng_max_burst :: nat
  ng_error_recovery :: nat
  ng_tsih :: u16
  ng_chap_algorithm :: "u32 option"
  ng_chap_challenge :: "u8 list option"
  ng_target_chap_name :: "string option"
  ng_keys :: "(string \<times> string) list"

definition rx_capacity :: nat where
  "rx_capacity = 262144 + 64"

definition max_inflight :: nat where
  "max_inflight = 128"

definition sense_capacity :: nat where
  "sense_capacity = 64"

record inflight =
  if_itt :: u32
  if_tag :: nat
  if_buf :: nat
  if_len :: nat
  if_received :: nat
  if_write :: bool
  if_status :: "u8 option"
  if_sense :: "u8 list"

record session =
  sn_stream :: tcp
  sn_negotiated :: negotiated
  sn_itt :: u32
  sn_cmd_sn :: u32
  sn_exp_stat_sn :: u32
  sn_max_cmd_sn :: u32
  sn_lun :: u64
  sn_access_tier :: "nat option"
  sn_rx :: "u8 list"
  sn_sense :: "u8 list"
  sn_inflight :: "inflight list"
  sn_last_received :: nat

record outcome =
  oc_status :: u8
  oc_sense :: "u8 list"
  oc_data :: "u8 list"
  oc_received :: nat

datatype task_answer = Response u8 | Rejected u8

definition login_itt :: u32 where
  "login_itt = 1"

definition established :: "tcp \<Rightarrow> negotiated \<Rightarrow> u32 \<Rightarrow> u32 \<Rightarrow> u32 \<Rightarrow> session" where
  "established stream negotiated cmd_sn exp_stat_sn max_cmd_sn =
     \<lparr>sn_stream = stream, sn_negotiated = negotiated, sn_itt = login_itt + 1, sn_cmd_sn = cmd_sn,
      sn_exp_stat_sn = exp_stat_sn, sn_max_cmd_sn = max_cmd_sn, sn_lun = 0, sn_access_tier = None, sn_rx = [],
      sn_sense = [], sn_inflight = [], sn_last_received = 0\<rparr>"

definition next_itt :: "session \<Rightarrow> u32 \<times> session" where
  "next_itt s = (let itt = sn_itt s + 1; itt = (if itt = no_ttt then 1 else itt) in (itt, s\<lparr>sn_itt := itt\<rparr>))"

definition observe :: "sequence \<Rightarrow> session \<Rightarrow> session" where
  "observe seq s = s\<lparr>sn_exp_stat_sn := sq_stat_sn seq + 1, sn_max_cmd_sn := sq_max_cmd_sn seq\<rparr>"

section \<open>PDUs on the wire\<close>

text \<open>A step that may fail, then another with its result.\<close>

definition sthen :: "'a result \<times> 's \<Rightarrow> ('a \<Rightarrow> 's \<Rightarrow> 'b result \<times> 's) \<Rightarrow> 'b result \<times> 's" where
  "sthen r f = (case r of (Inl e, s) \<Rightarrow> (Inl e, s) | (Inr x, s) \<Rightarrow> f x s)"

text \<open>\<open>map_err(|e| format!("...: {e}"))\<close>\<close>

definition map_err :: "string \<Rightarrow> 'a result \<Rightarrow> 'a result" where
  "map_err what r = (case r of Inl (Err e) \<Rightarrow> Inl (Err (what @ e)) | _ \<Rightarrow> r)"

text \<open>The bytes \<open>frame\<close> puts in \<open>tx\<close>.\<close>

definition frame_bytes :: "negotiated \<Rightarrow> u8 list \<Rightarrow> u8 list \<Rightarrow> u8 list" where
  "frame_bytes n header data =
     header @ (if ng_header_digest n then to_le_bytes (crc32c header) else [])
       @ (if data = [] then []
          else pad4 data @ (if ng_data_digest n then to_le_bytes (crc32c (pad4 data)) else []))"

definition frame :: "u8 list \<Rightarrow> u8 list \<Rightarrow> session \<Rightarrow> unit result \<times> session" where
  "frame header data s =
     (let (r, t) = write_all (frame_bytes (sn_negotiated s) header data) (sn_stream s)
      in (map_err ''sending PDU: '' r, s\<lparr>sn_stream := t\<rparr>))"

definition read_from :: "string \<Rightarrow> nat \<Rightarrow> session \<Rightarrow> u8 list result \<times> session" where
  "read_from what n s = (let (r, t) = read_exact n (sn_stream s) in (map_err what r, s\<lparr>sn_stream := t\<rparr>))"

definition check_digest :: "bool \<Rightarrow> string \<Rightarrow> u8 list \<Rightarrow> session \<Rightarrow> unit result \<times> session" where
  "check_digest on kind data s =
     (if on then sthen (read_from (''reading '' @ kind @ '' digest: '') 4 s) (\<lambda>digest s.
        if from_le_bytes digest \<noteq> crc32c data then (Inl (Err (kind @ '' digest mismatch'')), s) else (Inr (), s))
      else (Inr (), s))"

definition recv :: "session \<Rightarrow> u8 list result \<times> session" where
  "recv s =
     sthen (read_from ''reading PDU header: '' bhs_len s) (\<lambda>bhs s.
     sthen (check_digest (ng_header_digest (sn_negotiated s)) ''header'' bhs s) (\<lambda>_ s.
       let len = data_len bhs; n = padded len
       in if rx_capacity < n
          then (Inl (Err (''target sent a '' @ show_nat len @ ''-byte data segment; this initiator accepts ''
                  @ show_nat rx_capacity)), s)
          else if n = 0 then (Inr bhs, s\<lparr>sn_rx := []\<rparr>)
          else sthen (read_from ''reading PDU data: '' n s) (\<lambda>rx s.
               sthen (check_digest (ng_data_digest (sn_negotiated s)) ''data'' rx s) (\<lambda>_ s.
                 (Inr bhs, s\<lparr>sn_rx := take len rx\<rparr>)))))"

section \<open>Commands\<close>

definition can_submit :: "session \<Rightarrow> bool" where
  "can_submit s \<longleftrightarrow> length (sn_inflight s) < max_inflight \<and> 0 \<le> sint (sn_max_cmd_sn s - sn_cmd_sn s)"

definition inflight_count :: "session \<Rightarrow> nat" where
  "inflight_count s = length (sn_inflight s)"

definition submit :: "u8 list \<Rightarrow> nat \<Rightarrow> nat \<Rightarrow> nat \<Rightarrow> bool \<Rightarrow> session \<Rightarrow> unit result \<times> session" where
  "submit cdb tag buf len write s =
     (if \<not> can_submit s then (Inl (Err ''target's command window is closed''), s)
      else
        let (itt, s) = next_itt s;
            command = \<lparr>sc_lun = sn_lun s, sc_itt = itt, sc_cmd_sn = sn_cmd_sn s, sc_exp_stat_sn = sn_exp_stat_sn s,
              sc_cdb = cdb, sc_read = (\<not> write \<and> 0 < len), sc_write = write, sc_expected = of_nat len\<rparr>;
            s = s\<lparr>sn_cmd_sn := sn_cmd_sn s + 1\<rparr>
        in sthen (scsi_encode command, s) (\<lambda>header s.
           sthen (frame (header @ extended_cdb cdb) [] s) (\<lambda>_ s.
             (Inr (), s\<lparr>sn_inflight := sn_inflight s
                 @ [\<lparr>if_itt = itt, if_tag = tag, if_buf = buf, if_len = len, if_received = 0, if_write = write,
                     if_status = None, if_sense = []\<rparr>]\<rparr>))))"

text \<open>
  The loop of \<open>send_write\<close>. Each round sends at least a header, so it ends when the connection takes no
  more, also when the target declared that it receives no data at all.
\<close>

lemma data_out_header_length [simp]: "length (data_out_header itt ttt ess dsn off l n) = 48"
  by (simp add: data_out_header_def Let_def)

lemma data_out_header_not_Nil [simp]: "data_out_header itt ttt ess dsn off l n \<noteq> []"
  using data_out_header_length by (metis list.size(3) zero_neq_numeral)

lemma frame_Inr:
  "frame header data s = (Inr u, s') \<longleftrightarrow> length (frame_bytes (sn_negotiated s) header data) \<le> tc_accepts (sn_stream s)
    \<and> s' = s\<lparr>sn_stream := (sn_stream s)\<lparr>tc_out := tc_out (sn_stream s) @ frame_bytes (sn_negotiated s) header data,
        tc_accepts := tc_accepts (sn_stream s) - length (frame_bytes (sn_negotiated s) header data)\<rparr>\<rparr>"
  by (auto simp: frame_def write_all_def map_err_def Let_def split: if_splits)

lemma length_frame_bytes: "length header \<le> length (frame_bytes n header data)"
  by (simp add: frame_bytes_def)

lemma frame_accepts:
  assumes "(Inr u, s') = frame header data s" and "0 < length header"
  shows "tc_accepts (sn_stream s') < tc_accepts (sn_stream s)"
proof -
  let ?n = "length (frame_bytes (sn_negotiated s) header data)"
  have "?n \<le> tc_accepts (sn_stream s)" "tc_accepts (sn_stream s') = tc_accepts (sn_stream s) - ?n"
    using assms(1) [symmetric] by (simp_all add: frame_Inr)
  then show ?thesis using assms(2) length_frame_bytes [of header "sn_negotiated s" data] by linarith
qed

function send_loop :: "u8 list \<Rightarrow> r2t \<Rightarrow> nat \<Rightarrow> nat \<Rightarrow> u32 \<Rightarrow> session \<Rightarrow> unit result \<times> session" where
  "send_loop data r stop offset data_sn s =
     (if stop \<le> offset then (Inr (), s)
      else let n = min (stop - offset) (ng_max_recv (sn_negotiated s));
               header = data_out_header (rt_itt r) (rt_ttt r) (sn_exp_stat_sn s) data_sn (of_nat offset)
                 (offset + n = stop) n
           in case frame header (slice offset n data) s of
                (Inl e, s) \<Rightarrow> (Inl e, s)
              | (Inr _, s) \<Rightarrow> send_loop data r stop (offset + n) (data_sn + 1) s)"
  by pat_completeness auto

termination
  by (relation "measure (\<lambda>(data, r, stop, offset, data_sn, s). tc_accepts (sn_stream s))") (auto intro!: frame_accepts)

definition send_write :: "u8 list \<Rightarrow> nat \<Rightarrow> r2t \<Rightarrow> session \<Rightarrow> unit result \<times> session" where
  "send_write data len r s =
     (let start = unat (rt_offset r); stop = start + unat (rt_desired r)
      in if len < stop
         then (Inl (Err (''target asked for bytes '' @ show_nat start @ ''..+'' @ show_nat (unat (rt_desired r))
                @ '' of a '' @ show_nat len @ ''-byte write'')), s)
         else send_loop data r stop start 0 s)"

text \<open>
  One PDU of \<open>poll\<close>: \<open>Some\<close> result when the loop returns, None when it goes on. \<open>seg\<close> is the data segment
  \<open>recv\<close> left in \<open>rx\<close>.
\<close>

type_synonym poll_step = "finished result option \<times> session \<times> memory"

definition find_task :: "u32 \<Rightarrow> session \<Rightarrow> nat result" where
  "find_task itt s = ok_or (position_of (\<lambda>i. if_itt i = itt) (sn_inflight s))
     (''PDU for task '' @ show_nat (unat itt) @ '', which is not in flight'')"

definition poll_data_in :: "u8 list \<Rightarrow> session \<Rightarrow> memory \<Rightarrow> poll_step" where
  "poll_data_in bhs s m =
     (case find_task (be32 bhs 16) s of
        Inl e \<Rightarrow> (Some (Inl e), s, m)
      | Inr idx \<Rightarrow>
          let offset = unat (be32 bhs 40); len = length (sn_rx s);
              with_status = bhs ! 1 AND 0x01 \<noteq> 0;
              s = (if with_status then observe (sequence_of bhs) s else s);
              i = sn_inflight s ! idx
          in if if_write i then (Some (Inl (Err ''Data-In for a write'')), s, m)
             else if offset \<noteq> if_received i \<or> if_len i < offset + len
             then (Some (Inl (Err (''Data-In at '' @ show_nat offset @ '' for '' @ show_nat (if_received i)
                     @ '' of '' @ show_nat (if_len i) @ '' bytes''))), s, m)
             else let m = m[if_buf i := copy_at offset (sn_rx s) (m ! if_buf i)];
                      i = i\<lparr>if_received := if_received i + len,
                            if_status := if with_status then Some (bhs ! 3) else if_status i\<rparr>;
                      s = s\<lparr>sn_inflight := (sn_inflight s)[idx := i]\<rparr>
                  in if bhs ! 1 AND 0x80 \<noteq> 0 \<and> if_status i \<noteq> None
                     then (Some (Inr \<lparr>dn_tag = if_tag i, dn_status = the (if_status i), dn_code = 0,
                             dn_unavailable = False, dn_sense = []\<rparr>),
                           s\<lparr>sn_last_received := if_received i, sn_inflight := swap_remove idx (sn_inflight s)\<rparr>, m)
                     else (None, s, m))"

text \<open>The sense bytes of a response: a 16-bit length, then at most that many, and at most 64.\<close>

definition response_sense :: "u8 list \<Rightarrow> u8 list \<Rightarrow> u8 list" where
  "response_sense rx before =
     (if 2 \<le> length rx
      then take (min (unat (from_be_bytes (take 2 rx) :: u16)) sense_capacity) (drop 2 rx) else before)"

definition alua_unavailable :: "u8 list \<Rightarrow> bool" where
  "alua_unavailable sense \<longleftrightarrow>
     14 \<le> length sense \<and> sense ! 12 = 0x04 \<and> 0x0a \<le> sense ! 13 \<and> sense ! 13 \<le> 0x0c"

definition poll_response :: "u8 list \<Rightarrow> session \<Rightarrow> memory \<Rightarrow> poll_step" where
  "poll_response bhs s m =
     (case find_task (be32 bhs 16) s of
        Inl e \<Rightarrow> (Some (Inl e), s, m)
      | Inr idx \<Rightarrow>
          if bhs ! 2 \<noteq> 0
          then (Some (Inl (Err (''target could not complete the command (response '' @ show_hex (bhs ! 2) @ '')''))), s, m)
          else let s = observe (sequence_of bhs) s; i = sn_inflight s ! idx;
                   sense = response_sense (sn_rx s) (if_sense i)
               in (Some (Inr \<lparr>dn_tag = if_tag i, dn_status = bhs ! 3, dn_code = 0,
                     dn_unavailable = alua_unavailable sense, dn_sense = sense\<rparr>),
                   s\<lparr>sn_inflight := swap_remove idx (sn_inflight s), sn_last_received := if_received i\<rparr>, m))"

definition poll_r2t :: "u8 list \<Rightarrow> session \<Rightarrow> memory \<Rightarrow> poll_step" where
  "poll_r2t bhs s m =
     (case find_task (be32 bhs 16) s of
        Inl e \<Rightarrow> (Some (Inl e), s, m)
      | Inr idx \<Rightarrow>
          (case decode_r2t bhs of
             Inl e \<Rightarrow> (Some (Inl e), s, m)
           | Inr r \<Rightarrow>
               let s = observe (rt_seq r) s; i = sn_inflight s ! idx
               in if \<not> if_write i
                  then (Some (Inl (Err ''target asked for write data for a read command'')), s, m)
                  else (case send_write (m ! if_buf i) (if_len i) r s of
                          (Inl e, s) \<Rightarrow> (Some (Inl e), s, m)
                        | (Inr _, s) \<Rightarrow> (None, s, m))))"

definition answer_nop :: "u8 list \<Rightarrow> session \<Rightarrow> unit result \<times> session" where
  "answer_nop bhs s =
     (case decode_nop_in bhs of
        Inl e \<Rightarrow> (Inl e, s)
      | Inr n \<Rightarrow>
          let s = observe (ni_seq n) s
          in if ni_ttt n \<noteq> no_ttt
             then frame (nop_out 0 no_ttt (ni_ttt n) (sn_cmd_sn s) (sn_exp_stat_sn s)) [] s else (Inr (), s))"

definition rejected :: string where
  "rejected = ''target rejected the PDU, reason''"

text \<open>The rejected PDU's task tag is read from the data segment: a shorter one panics.\<close>

definition poll_reject :: "u8 list \<Rightarrow> session \<Rightarrow> finished result \<times> session" where
  "poll_reject bhs s =
     (let s = observe (sequence_of bhs) s
      in if length (sn_rx s) < 20 then (Inl Panic, s)
         else (Inl (Err (rejected @ '' 0x'' @ hex_byte (bhs ! 2))),
               s\<lparr>sn_inflight := filter (\<lambda>i. if_itt i \<noteq> be32 (sn_rx s) 16) (sn_inflight s)\<rparr>))"

definition poll_pdu :: "u8 list \<Rightarrow> session \<Rightarrow> memory \<Rightarrow> poll_step" where
  "poll_pdu bhs s m =
     (if opcode bhs = op_data_in then poll_data_in bhs s m
      else if opcode bhs = op_scsi_response then poll_response bhs s m
      else if opcode bhs = op_r2t then poll_r2t bhs s m
      else if opcode bhs = op_nop_in then
        (case answer_nop bhs s of (Inl e, s) \<Rightarrow> (Some (Inl e), s, m) | (Inr _, s) \<Rightarrow> (None, s, m))
      else if opcode bhs = op_reject then (case poll_reject bhs s of (r, s) \<Rightarrow> (Some r, s, m))
      else (Some (Inl (Err (''unexpected PDU opcode '' @ show_hex (opcode bhs)))), s, m))"

declare send_loop.simps [simp del]

section \<open>Waiting for a command\<close>

text \<open>Sending keeps what was received and what is in flight.\<close>

definition same_input :: "session \<Rightarrow> session \<Rightarrow> bool" where
  "same_input s s' \<longleftrightarrow> tc_in (sn_stream s') = tc_in (sn_stream s) \<and> sn_negotiated s' = sn_negotiated s"

definition same_tasks :: "session \<Rightarrow> session \<Rightarrow> bool" where
  "same_tasks s s' \<longleftrightarrow> same_input s s' \<and> sn_inflight s' = sn_inflight s \<and> sn_rx s' = sn_rx s"

lemma same_tasks_refl [simp]: "same_tasks s s"
  by (simp add: same_tasks_def same_input_def)

lemma same_tasks_trans: "same_tasks s t \<Longrightarrow> same_tasks t u \<Longrightarrow> same_tasks s u"
  by (simp add: same_tasks_def same_input_def)

lemma same_input_trans: "same_input s t \<Longrightarrow> same_input t u \<Longrightarrow> same_input s u"
  by (simp add: same_input_def)

lemma observe_tasks [simp]: "same_tasks s (observe q s)"
  by (simp add: same_tasks_def same_input_def observe_def)

lemma frame_tasks: "frame header data s = (r, s') \<Longrightarrow> same_tasks s s'"
  by (auto simp: frame_def write_all_def same_tasks_def same_input_def Let_def split: if_splits)

lemma send_loop_tasks: "send_loop data r stop offset data_sn s = (x, s') \<Longrightarrow> same_tasks s s'"
proof (induction data r stop offset data_sn s rule: send_loop.induct)
  case (1 data r stop offset data_sn s)
  define n where "n = min (stop - offset) (ng_max_recv (sn_negotiated s))"
  define header where "header = data_out_header (rt_itt r) (rt_ttt r) (sn_exp_stat_sn s) data_sn (of_nat offset)
                 (offset + n = stop) n"
  obtain y t where f: "frame header (slice offset n data) s = (y, t)" by fastforce
  show ?case
  proof (cases "stop \<le> offset")
    case True
    then show ?thesis using 1(2) by (simp add: send_loop.simps)
  next
    case False
    then show ?thesis
      using 1(1) [OF False n_def header_def f [symmetric]] 1(2) f frame_tasks [OF f] same_tasks_trans
      by (cases y) (auto simp: send_loop.simps [of data r stop offset] Let_def n_def [symmetric] header_def [symmetric])
  qed
qed

lemma answer_nop_tasks: "answer_nop bhs s = (x, s') \<Longrightarrow> same_tasks s s'"
  by (auto simp: answer_nop_def Let_def dest!: frame_tasks intro: same_tasks_trans [OF observe_tasks]
      split: sum.splits if_splits)

definition tags_of :: "session \<Rightarrow> nat multiset" where
  "tags_of s = image_mset if_tag (mset (sn_inflight s))"

text \<open>What one PDU does to the commands in flight.\<close>

definition step_tags :: "finished result option \<Rightarrow> session \<Rightarrow> session \<Rightarrow> bool" where
  "step_tags r s s' = (case r of None \<Rightarrow> tags_of s' = tags_of s
     | Some (Inr dn) \<Rightarrow> tags_of s = add_mset (dn_tag dn) (tags_of s') | Some (Inl e) \<Rightarrow> True)"

lemma find_task_Inr: "find_task itt s = Inr idx \<Longrightarrow> idx < length (sn_inflight s) \<and> if_itt (sn_inflight s ! idx) = itt"
  using position_of_Some by (fastforce simp: find_task_def)

lemma find_task_Inl: "find_task itt s \<noteq> Inl Panic"
  by (simp add: find_task_def ok_or_def split: option.splits)

lemma same_tasks_simps:
  "same_tasks s s' \<Longrightarrow> sn_inflight s' = sn_inflight s" "same_tasks s s' \<Longrightarrow> sn_rx s' = sn_rx s"
  "same_tasks s s' \<Longrightarrow> same_input s s'" "same_tasks s s' \<Longrightarrow> tags_of s' = tags_of s"
  by (simp_all add: same_tasks_def tags_of_def)

lemma tags_swap_remove:
  "idx < length is \<Longrightarrow> image_mset if_tag (mset is) = add_mset (if_tag (is ! idx)) (image_mset if_tag (mset (swap_remove idx is)))"
  using mset_swap_remove [of idx "is"] by simp

lemma tags_update:
  "idx < length is \<Longrightarrow> if_tag i = if_tag (is ! idx) \<Longrightarrow> image_mset if_tag (mset (is[idx := i])) = image_mset if_tag (mset is)"
  by (metis list_update_id map_update mset_map)

lemma poll_response_step:
  "poll_response bhs s m = (r, s', m') \<Longrightarrow> same_input s s' \<and> step_tags r s s' \<and> m' = m \<and> r \<noteq> Some (Inl Panic) \<and> r \<noteq> None"
  using find_task_Inl [of "be32 bhs 16" s] find_task_Inr [of "be32 bhs 16" s] tags_swap_remove [of _ "sn_inflight s"]
  by (auto simp: poll_response_def Let_def step_tags_def tags_of_def same_input_def observe_def
      split: sum.splits if_splits)

lemma poll_data_in_step:
  assumes "poll_data_in bhs s m = (r, s', m')"
  shows "same_input s s' \<and> step_tags r s s' \<and> r \<noteq> Some (Inl Panic)"
proof (cases "find_task (be32 bhs 16) s")
  case (Inl e)
  then show ?thesis
    using assms find_task_Inl [of "be32 bhs 16" s] by (auto simp: poll_data_in_def same_input_def step_tags_def)
next
  case (Inr idx)
  define u where "u = (if bhs ! 1 AND 0x01 \<noteq> 0 then observe (sequence_of bhs) s else s)"
  have u: "same_tasks s u" by (simp add: u_def)
  have idx: "idx < length (sn_inflight u)" using find_task_Inr [OF Inr] same_tasks_simps(1) [OF u] by simp
  note upd = tags_update [OF idx] and rem = tags_swap_remove [of idx "(sn_inflight u)[idx := _]"]
  have "same_input u s' \<and> step_tags r u s' \<and> r \<noteq> Some (Inl Panic)"
    using assms idx upd rem unfolding poll_data_in_def Inr u_def [symmetric] Let_def
    by (auto simp: same_input_def step_tags_def tags_of_def split: if_splits)
  then show ?thesis using same_tasks_simps [OF u] by (auto simp: same_input_def step_tags_def split: option.splits sum.splits)
qed

lemma frame_no_panic: "frame header data s \<noteq> (Inl Panic, s')"
  by (auto simp: frame_def write_all_def map_err_def Let_def split: if_splits)

lemma send_loop_no_panic: "send_loop data r stop offset data_sn s \<noteq> (Inl Panic, s')"
proof (induction data r stop offset data_sn s rule: send_loop.induct)
  case (1 data r stop offset data_sn s)
  define n where "n = min (stop - offset) (ng_max_recv (sn_negotiated s))"
  define header where "header = data_out_header (rt_itt r) (rt_ttt r) (sn_exp_stat_sn s) data_sn (of_nat offset)
                 (offset + n = stop) n"
  obtain y t where f: "frame header (slice offset n data) s = (y, t)" by fastforce
  show ?case
    using 1 [OF _ n_def header_def f [symmetric]] frame_no_panic [of header "slice offset n data" s t] f
    by (cases y) (auto simp: send_loop.simps [of data r stop offset] Let_def n_def [symmetric] header_def [symmetric])
qed

lemma send_write_tasks: "send_write data len r s = (x, s') \<Longrightarrow> same_tasks s s' \<and> x \<noteq> Inl Panic"
  using send_loop_tasks send_loop_no_panic by (fastforce simp: send_write_def Let_def split: if_splits)

lemma poll_r2t_step:
  assumes "poll_r2t bhs s m = (r, s', m')"
  shows "same_input s s' \<and> step_tags r s s' \<and> m' = m \<and> r \<noteq> Some (Inl Panic)"
proof -
  have "same_tasks s s' \<and> m' = m \<and> (r = None \<or> (\<exists>e. r = Some (Inl e) \<and> e \<noteq> Panic))"
    using assms find_task_Inl [of "be32 bhs 16" s]
    by (auto simp: poll_r2t_def Let_def decode_r2t_def dest!: send_write_tasks
        intro: same_tasks_trans [OF observe_tasks] split: sum.splits if_splits prod.splits)
  then show ?thesis by (auto simp: step_tags_def same_tasks_simps)
qed

text \<open>One PDU: the input is untouched, the tags move as they should, and only a short Reject panics.\<close>

lemma poll_pdu_step:
  assumes "poll_pdu bhs s m = (r, s', m')"
  shows "same_input s s'" "step_tags r s s'" "r = Some (Inl Panic) \<Longrightarrow> opcode bhs = op_reject \<and> length (sn_rx s) < 20"
proof -
  have nop: "same_tasks s t \<and> x \<noteq> Inl Panic" if "answer_nop bhs s = (x, t)" for x t
    using that answer_nop_tasks [OF that] frame_no_panic
    by (fastforce simp: answer_nop_def decode_nop_in_def Let_def split: sum.splits if_splits)
  have rej: "same_input s t \<and> (\<exists>e. x = Inl e) \<and> (x = Inl Panic \<longrightarrow> length (sn_rx s) < 20)"
    if "poll_reject bhs s = (x, t)" for x t
    using that by (auto simp: poll_reject_def Let_def same_input_def observe_def split: if_splits)
  consider "opcode bhs = op_data_in" | "opcode bhs \<noteq> op_data_in" "opcode bhs = op_scsi_response"
    | "opcode bhs \<noteq> op_data_in" "opcode bhs \<noteq> op_scsi_response" "opcode bhs = op_r2t"
    | "opcode bhs \<noteq> op_data_in" "opcode bhs \<noteq> op_scsi_response" "opcode bhs \<noteq> op_r2t" by blast
  then have "same_input s s' \<and> step_tags r s s' \<and> (r = Some (Inl Panic) \<longrightarrow> opcode bhs = op_reject \<and> length (sn_rx s) < 20)"
  proof cases
    case 1
    then show ?thesis using assms poll_data_in_step [of bhs s m] by (auto simp: poll_pdu_def)
  next
    case 2
    then show ?thesis using assms poll_response_step [of bhs s m] by (auto simp: poll_pdu_def)
  next
    case 3
    then show ?thesis using assms poll_r2t_step [of bhs s m] by (auto simp: poll_pdu_def)
  next
    case 4
    then show ?thesis
      using assms by (auto simp: poll_pdu_def step_tags_def same_tasks_def same_input_def tags_of_def
          dest!: nop rej split: if_splits prod.splits sum.splits)
  qed
  then show "same_input s s'" "step_tags r s s'" "r = Some (Inl Panic) \<Longrightarrow> opcode bhs = op_reject \<and> length (sn_rx s) < 20"
    by blast+
qed

text \<open>\<open>recv\<close> consumes at least a header and touches nothing else.\<close>

lemma read_from_Inr:
  "read_from what n s = (Inr bs, s') \<longleftrightarrow> n \<le> length (tc_in (sn_stream s)) \<and> bs = take n (tc_in (sn_stream s))
     \<and> s' = s\<lparr>sn_stream := (sn_stream s)\<lparr>tc_in := drop n (tc_in (sn_stream s))\<rparr>\<rparr>"
  by (auto simp: read_from_def read_exact_def map_err_def Let_def split: if_splits)

lemma read_from_no_panic: "read_from what n s \<noteq> (Inl Panic, s')"
  by (auto simp: read_from_def read_exact_def map_err_def Let_def split: if_splits)

lemma sthen_eq_Inr: "sthen r f = (Inr y, s') \<longleftrightarrow> (\<exists>x s. r = (Inr x, s) \<and> f x s = (Inr y, s'))"
  by (cases r; cases "fst r") (auto simp: sthen_def)

lemma sthen_eq_Panic:
  "sthen r f = (Inl Panic, s') \<longleftrightarrow> r = (Inl Panic, s') \<or> (\<exists>x s. r = (Inr x, s) \<and> f x s = (Inl Panic, s'))"
  by (cases r; cases "fst r") (auto simp: sthen_def)

lemma check_digest_Inr:
  "check_digest on kind data s = (Inr u, s') \<longleftrightarrow>
     (if on then 4 \<le> length (tc_in (sn_stream s)) \<and> from_le_bytes (take 4 (tc_in (sn_stream s))) = crc32c data
        \<and> s' = s\<lparr>sn_stream := (sn_stream s)\<lparr>tc_in := drop 4 (tc_in (sn_stream s))\<rparr>\<rparr> else s' = s)"
  by (auto simp: check_digest_def sthen_eq_Inr read_from_Inr split: if_splits)

lemma check_digest_no_panic: "check_digest on kind data s \<noteq> (Inl Panic, s')"
  using read_from_no_panic by (fastforce simp: check_digest_def sthen_eq_Panic split: if_splits)

lemma recv_no_panic: "recv s \<noteq> (Inl Panic, s')"
  using read_from_no_panic check_digest_no_panic
  by (fastforce simp: recv_def sthen_eq_Panic Let_def split: if_splits)

definition same_state :: "session \<Rightarrow> session \<Rightarrow> bool" where
  "same_state s s' \<longleftrightarrow> sn_negotiated s' = sn_negotiated s \<and> sn_itt s' = sn_itt s \<and> sn_cmd_sn s' = sn_cmd_sn s
     \<and> sn_inflight s' = sn_inflight s \<and> sn_lun s' = sn_lun s \<and> sn_access_tier s' = sn_access_tier s
     \<and> tc_out (sn_stream s') = tc_out (sn_stream s) \<and> tc_accepts (sn_stream s') = tc_accepts (sn_stream s)"

lemma recv_InrE:
  assumes "recv s = (Inr bhs, s')"
  obtains (empty) s1 s2 where "read_from ''reading PDU header: '' bhs_len s = (Inr bhs, s1)"
      "check_digest (ng_header_digest (sn_negotiated s1)) ''header'' bhs s1 = (Inr (), s2)"
      "padded (data_len bhs) = 0" "s' = s2\<lparr>sn_rx := []\<rparr>"
    | (data) s1 s2 rx s3 s4 where "read_from ''reading PDU header: '' bhs_len s = (Inr bhs, s1)"
      "check_digest (ng_header_digest (sn_negotiated s1)) ''header'' bhs s1 = (Inr (), s2)"
      "0 < padded (data_len bhs)" "padded (data_len bhs) \<le> rx_capacity"
      "read_from ''reading PDU data: '' (padded (data_len bhs)) s2 = (Inr rx, s3)"
      "check_digest (ng_data_digest (sn_negotiated s3)) ''data'' rx s3 = (Inr (), s4)"
      "s' = s4\<lparr>sn_rx := take (data_len bhs) rx\<rparr>"
proof -
  from assms obtain b s1 s2 where r: "read_from ''reading PDU header: '' bhs_len s = (Inr b, s1)"
    "check_digest (ng_header_digest (sn_negotiated s1)) ''header'' b s1 = (Inr (), s2)"
    and d: "(let len = data_len b; n = padded len
       in if rx_capacity < n
          then (Inl (Err (''target sent a '' @ show_nat len @ ''-byte data segment; this initiator accepts ''
                  @ show_nat rx_capacity)), s2)
          else if n = 0 then (Inr b, s2\<lparr>sn_rx := []\<rparr>)
          else sthen (read_from ''reading PDU data: '' n s2) (\<lambda>rx s.
               sthen (check_digest (ng_data_digest (sn_negotiated s)) ''data'' rx s) (\<lambda>_ s.
                 (Inr b, s\<lparr>sn_rx := take len rx\<rparr>)))) = (Inr bhs, s')"
    unfolding recv_def sthen_eq_Inr by auto
  show thesis
  proof (cases "padded (data_len b) = 0")
    case True
    then show ?thesis using d r empty by (simp add: Let_def rx_capacity_def)
  next
    case False
    then show ?thesis using d r data by (auto simp: Let_def sthen_eq_Inr split: if_splits)
  qed
qed

lemma recv_Inr:
  assumes "recv s = (Inr bhs, s')"
  shows "length bhs = 48" "length (tc_in (sn_stream s')) + 48 \<le> length (tc_in (sn_stream s))" "same_state s s'"
proof -
  have "length bhs = 48 \<and> length (tc_in (sn_stream s')) + 48 \<le> length (tc_in (sn_stream s)) \<and> same_state s s'"
    using assms
    by (cases rule: recv_InrE)
      (auto simp: read_from_Inr check_digest_Inr bhs_len_def same_state_def split: if_splits)
  then show "length bhs = 48" "length (tc_in (sn_stream s')) + 48 \<le> length (tc_in (sn_stream s))" "same_state s s'"
    by blast+
qed

section \<open>poll and the commands built on it\<close>

lemma poll_input_shrinks:
  assumes "(Inr bhs, t) = recv s" and "(r, u, m') = poll_pdu bhs t m"
  shows "length (tc_in (sn_stream u)) < length (tc_in (sn_stream s))"
  using recv_Inr(2) [OF assms(1) [symmetric]] poll_pdu_step(1) [OF assms(2) [symmetric]] by (simp add: same_input_def)

function poll :: "session \<Rightarrow> memory \<Rightarrow> finished result \<times> session \<times> memory" where
  "poll s m =
     (case recv s of
        (Inl e, s) \<Rightarrow> (Inl e, s, m)
      | (Inr bhs, s) \<Rightarrow>
          (case poll_pdu bhs s m of
             (Some r, s, m) \<Rightarrow> (r, s, m)
           | (None, s, m) \<Rightarrow> poll s m))"
  by pat_completeness auto

termination
  by (relation "measure (\<lambda>(s, m). length (tc_in (sn_stream s)))") (auto intro: poll_input_shrinks)

declare poll.simps [simp del]

lemma poll_unfold:
  "recv s = (Inl e, s') \<Longrightarrow> poll s m = (Inl e, s', m)"
  "recv s = (Inr bhs, s') \<Longrightarrow> poll_pdu bhs s' m = (Some r, s'', m') \<Longrightarrow> poll s m = (r, s'', m')"
  "recv s = (Inr bhs, s') \<Longrightarrow> poll_pdu bhs s' m = (None, s'', m') \<Longrightarrow> poll s m = poll s'' m'"
  by (simp_all add: poll.simps [of s m])

text \<open>Induction along the PDUs that a poll reads.\<close>

lemma poll_induct [consumes 1, case_names failed ended step]:
  assumes "poll s m = (x, s', m')"
    and failed: "\<And>s m e s'. recv s = (Inl e, s') \<Longrightarrow> P s m (Inl e) s' m"
    and ended: "\<And>s m bhs t r s' m'. recv s = (Inr bhs, t) \<Longrightarrow> poll_pdu bhs t m = (Some r, s', m') \<Longrightarrow> P s m r s' m'"
    and step: "\<And>s m bhs t u m1 x s' m'. recv s = (Inr bhs, t) \<Longrightarrow> poll_pdu bhs t m = (None, u, m1) \<Longrightarrow>
      poll u m1 = (x, s', m') \<Longrightarrow> P u m1 x s' m' \<Longrightarrow> P s m x s' m'"
  shows "P s m x s' m'"
  using assms(1)
proof (induction s m rule: poll.induct)
  case (1 s m)
  obtain y t where r: "recv s = (y, t)" by fastforce
  show ?case
  proof (cases y)
    case (Inl e)
    then show ?thesis using 1(2) r failed [of s e t m] poll_unfold(1) [of s e t m] by simp
  next
    case (Inr bhs)
    obtain z u m1 where z: "poll_pdu bhs t m = (z, u, m1)" by (metis prod_cases3)
    show ?thesis
    proof (cases z)
      case None
      note p = poll_unfold(3) [OF r [unfolded Inr] z [unfolded None]]
      have "P u m1 x s' m'"
        using 1(1) [OF r [symmetric] Inr z [symmetric] None refl] 1(2) p by simp
      then show ?thesis using step [OF r [unfolded Inr] z [unfolded None]] 1(2) p by simp
    next
      case (Some v)
      then show ?thesis
        using ended [OF r [unfolded Inr] z [unfolded Some]] poll_unfold(2) [OF r [unfolded Inr] z [unfolded Some]] 1(2) by simp
    qed
  qed
qed

lemma poll_tags: "poll s m = (Inr dn, s', m') \<Longrightarrow> tags_of s = add_mset (dn_tag dn) (tags_of s')"
proof -
  have "tags_of s = add_mset (dn_tag dn) (tags_of s')" if "poll s m = (x, s', m')" "x = Inr dn" for x
    using that
  proof (induction rule: poll_induct)
    case (ended s m bhs t r s' m')
    then show ?case using recv_Inr(3) [of s bhs t] poll_pdu_step(2) [of bhs t m "Some r"]
      by (simp add: step_tags_def tags_of_def same_state_def)
  next
    case (step s m bhs t u m1 x s' m')
    then show ?case using recv_Inr(3) [of s bhs t] poll_pdu_step(2) [of bhs t m None u m1]
      by (simp add: step_tags_def tags_of_def same_state_def)
  qed simp
  then show "poll s m = (Inr dn, s', m') \<Longrightarrow> ?thesis" by blast
qed

section \<open>Targets that follow the protocol\<close>

text \<open>The next PDU of a byte stream: header, data segment and the rest.\<close>

definition after_digest :: "bool \<Rightarrow> u8 list \<Rightarrow> u8 list \<Rightarrow> u8 list option" where
  "after_digest on data bs =
     (if \<not> on then Some bs
      else if 4 \<le> length bs \<and> from_le_bytes (take 4 bs) = crc32c data then Some (drop 4 bs) else None)"

definition next_pdu :: "negotiated \<Rightarrow> u8 list \<Rightarrow> (u8 list \<times> u8 list \<times> u8 list) option" where
  "next_pdu n bs =
     (if length bs < 48 then None
      else case after_digest (ng_header_digest n) (take 48 bs) (drop 48 bs) of
        None \<Rightarrow> None
      | Some rest \<Rightarrow>
          let len = data_len (take 48 bs); k = padded len
          in if rx_capacity < k \<or> length rest < k then None
             else if k = 0 then Some (take 48 bs, [], rest)
             else map_option (\<lambda>r. (take 48 bs, take len rest, r))
                    (after_digest (ng_data_digest n) (take k rest) (drop k rest)))"

lemma next_pdu_shrinks: "next_pdu n bs = Some (bhs, rx, rest) \<Longrightarrow> length rest < length bs"
  by (auto simp: next_pdu_def after_digest_def Let_def split: if_splits option.splits)

lemma check_digest_after:
  "check_digest on kind data s = (Inr u, s') \<Longrightarrow>
     after_digest on data (tc_in (sn_stream s)) = Some (tc_in (sn_stream s')) \<and> sn_negotiated s' = sn_negotiated s"
  by (auto simp: check_digest_Inr after_digest_def split: if_splits)

lemma recv_next_pdu:
  assumes "recv s = (Inr bhs, s')"
  shows "next_pdu (sn_negotiated s) (tc_in (sn_stream s)) = Some (bhs, sn_rx s', tc_in (sn_stream s'))"
proof -
  have head: "48 \<le> length (tc_in (sn_stream s)) \<and> bhs = take 48 (tc_in (sn_stream s))
      \<and> tc_in (sn_stream s1) = drop 48 (tc_in (sn_stream s)) \<and> sn_negotiated s1 = sn_negotiated s"
    if "read_from ''reading PDU header: '' bhs_len s = (Inr bhs, s1)" for s1
    using that by (simp add: read_from_Inr bhs_len_def)
  show ?thesis using assms
  proof (cases rule: recv_InrE)
    case (empty s1 s2)
    then show ?thesis using head [OF empty(1)] check_digest_after [OF empty(2)]
      by (simp add: next_pdu_def Let_def rx_capacity_def)
  next
    case (data s1 s2 rx s3 s4)
    have "padded (data_len bhs) \<le> length (tc_in (sn_stream s2))" "rx = take (padded (data_len bhs)) (tc_in (sn_stream s2))"
      "tc_in (sn_stream s3) = drop (padded (data_len bhs)) (tc_in (sn_stream s2))" "sn_negotiated s3 = sn_negotiated s2"
      using data(5) by (simp_all add: read_from_Inr)
    then show ?thesis
      using head [OF data(1)] check_digest_after [OF data(2)] check_digest_after [OF data(6)] data(3,4,7)
      by (simp add: next_pdu_def Let_def min_absorb1 padded_bounds(1))
  qed
qed

text \<open>RFC 7143 11.17: a Reject carries the header of the PDU it refuses.\<close>

function sound_input :: "negotiated \<Rightarrow> u8 list \<Rightarrow> bool" where
  "sound_input n bs =
     (case next_pdu n bs of
        None \<Rightarrow> True
      | Some (bhs, rx, rest) \<Rightarrow> (opcode bhs = op_reject \<longrightarrow> 20 \<le> length rx) \<and> sound_input n rest)"
  by pat_completeness auto

termination
  by (relation "measure (\<lambda>(n, bs). length bs)") (auto dest: next_pdu_shrinks)

declare sound_input.simps [simp del]

definition sound :: "session \<Rightarrow> bool" where
  "sound s \<longleftrightarrow> sound_input (sn_negotiated s) (tc_in (sn_stream s))"

lemma sound_recv:
  assumes "sound s" and "recv s = (Inr bhs, t)"
  shows "sound t" "opcode bhs = op_reject \<Longrightarrow> 20 \<le> length (sn_rx t)"
  using assms(1) recv_next_pdu [OF assms(2)] recv_Inr(3) [OF assms(2)]
    sound_input.simps [of "sn_negotiated s" "tc_in (sn_stream s)"]
  by (simp_all add: sound_def same_state_def)

lemma sound_same_input: "same_input s t \<Longrightarrow> sound t = sound s"
  by (simp add: sound_def same_input_def)

lemma poll_sound: "poll s m = (x, s', m') \<Longrightarrow> sound s \<Longrightarrow> x \<noteq> Inl Panic \<and> (\<forall>dn. x = Inr dn \<longrightarrow> sound s')"
proof (induction rule: poll_induct)
  case (failed s m e s')
  then show ?case using recv_no_panic [of s s'] by auto
next
  case (ended s m bhs t r s' m')
  then show ?case
    using sound_recv [of s bhs t] poll_pdu_step(1,3) [of bhs t m "Some r" s' m'] sound_same_input [of t s'] by fastforce
next
  case (step s m bhs t u m1 x s' m')
  then show ?case
    using sound_recv(1) [of s bhs t] poll_pdu_step(1) [of bhs t m None u m1] sound_same_input [of t u] by blast
qed

section \<open>Commands that wait\<close>

lemma poll_input:
  "poll s m = (x, s', m') \<Longrightarrow> x = Inr dn \<Longrightarrow> length (tc_in (sn_stream s')) < length (tc_in (sn_stream s))"
proof (induction rule: poll_induct)
  case (ended s m bhs t r s' m')
  then show ?case using poll_input_shrinks [of bhs t s "Some r" s' m' m] by auto
next
  case (step s m bhs t u m1 x s' m')
  then show ?case using poll_input_shrinks [of bhs t s None u m1 m] by fastforce
qed simp

lemma poll_finished_shrinks:
  "(Inr dn, s', m') = poll s m \<Longrightarrow> length (tc_in (sn_stream s')) < length (tc_in (sn_stream s))"
  using poll_input [of s m "Inr dn" s' m' dn] by simp

text \<open>The loop of \<open>command_into\<close>: it waits for the tag 0 it sent with.\<close>

function await_tag :: "session \<Rightarrow> memory \<Rightarrow> u8 result \<times> session \<times> memory" where
  "await_tag s m =
     (case poll s m of
        (Inl e, s, m) \<Rightarrow> (Inl e, s, m)
      | (Inr dn, s, m) \<Rightarrow>
          if dn_tag dn = 0 then (Inr (dn_status dn), s\<lparr>sn_sense := dn_sense dn\<rparr>, m) else await_tag s m)"
  by pat_completeness auto

termination
  by (relation "measure (\<lambda>(s, m). length (tc_in (sn_stream s)))") (auto intro: poll_finished_shrinks)

declare await_tag.simps [simp del]

text \<open>The caller's buffer is the whole memory: the data to write, or where the data read lands.\<close>

definition command_into :: "u8 list \<Rightarrow> u8 list \<Rightarrow> u8 list option \<Rightarrow> session \<Rightarrow> u8 result \<times> session \<times> u8 list" where
  "command_into cdb read write s =
     (if sn_inflight s \<noteq> [] then (Inl (Err ''a command is already in flight on this session''), s, read)
      else let buf = (case write of Some data \<Rightarrow> data | None \<Rightarrow> read);
               (result, s, m) =
                 (case submit cdb 0 0 (length buf) (write \<noteq> None) s of
                    (Inl e, s) \<Rightarrow> (Inl e, s, [buf])
                  | (Inr _, s) \<Rightarrow> await_tag s [buf]);
               s = (if is_ok result then s else s\<lparr>sn_inflight := []\<rparr>)
           in (result, s, if write = None then m ! 0 else read))"

definition command :: "u8 list \<Rightarrow> nat \<Rightarrow> u8 list option \<Rightarrow> session \<Rightarrow> outcome result \<times> session" where
  "command cdb read write s =
     (case command_into cdb (replicate read 0) write s of
        (Inl e, s, _) \<Rightarrow> (Inl e, s)
      | (Inr status, s, data) \<Rightarrow>
          (Inr \<lparr>oc_status = status, oc_sense = sn_sense s, oc_data = data, oc_received = sn_last_received s\<rparr>, s))"

text \<open>The waiting loops of \<open>task_management\<close> and \<open>ping\<close>.\<close>

lemma nop_input_shrinks:
  assumes "(Inr bhs, t) = recv s" and "(y, u) = answer_nop bhs t"
  shows "length (tc_in (sn_stream u)) < length (tc_in (sn_stream s))"
  using recv_Inr(2) [OF assms(1) [symmetric]] answer_nop_tasks [OF assms(2) [symmetric]]
  by (simp add: same_tasks_def same_input_def)

function await_task_answer :: "u32 \<Rightarrow> session \<Rightarrow> task_answer result \<times> session" where
  "await_task_answer itt s =
     (case recv s of
        (Inl e, s) \<Rightarrow> (Inl e, s)
      | (Inr bhs, s) \<Rightarrow>
          if opcode bhs = op_task_management_response \<and> be32 bhs 16 = itt
          then (Inr (Response (bhs ! 2)), observe (sequence_of bhs) s)
          else if opcode bhs = op_reject then (Inr (Rejected (bhs ! 2)), s)
          else if opcode bhs = op_nop_in then
            (case answer_nop bhs s of (Inl e, s) \<Rightarrow> (Inl e, s) | (Inr _, s) \<Rightarrow> await_task_answer itt s)
          else (Inl (Err (''unexpected PDU opcode '' @ show_hex (opcode bhs))), s))"
  by pat_completeness auto

termination
  by (relation "measure (\<lambda>(itt, s). length (tc_in (sn_stream s)))") (auto intro: nop_input_shrinks)

definition task_management :: "u8 \<Rightarrow> u32 \<Rightarrow> u32 \<Rightarrow> session \<Rightarrow> task_answer result \<times> session" where
  "task_management function referenced ref_cmd_sn s =
     (if sn_inflight s \<noteq> [] then (Inl (Err ''a command is in flight on this session''), s)
      else let (itt, s) = next_itt s;
               rtt = (if function = tmf_abort_task \<or> function = tmf_query_task then referenced else no_ttt);
               header = task_management_request function (sn_lun s) itt rtt (sn_cmd_sn s) (sn_exp_stat_sn s) ref_cmd_sn
           in sthen (frame header [] s) (\<lambda>_ s. await_task_answer itt s))"

function await_ping :: "u32 \<Rightarrow> session \<Rightarrow> u8 list result \<times> session" where
  "await_ping itt s =
     (case recv s of
        (Inl e, s) \<Rightarrow> (Inl e, s)
      | (Inr bhs, s) \<Rightarrow>
          if opcode bhs \<noteq> op_nop_in then (Inl (Err (''unexpected PDU opcode '' @ show_hex (opcode bhs))), s)
          else if be32 bhs 16 = itt then (Inr (sn_rx s), observe (sequence_of bhs) s)
          else (case answer_nop bhs s of (Inl e, s) \<Rightarrow> (Inl e, s) | (Inr _, s) \<Rightarrow> await_ping itt s))"
  by pat_completeness auto

termination
  by (relation "measure (\<lambda>(itt, s). length (tc_in (sn_stream s)))") (auto intro: nop_input_shrinks)

declare await_task_answer.simps [simp del] and await_ping.simps [simp del]

definition ping :: "u8 list \<Rightarrow> session \<Rightarrow> u8 list result \<times> session" where
  "ping data s =
     (if sn_inflight s \<noteq> [] then (Inl (Err ''a command is in flight on this session''), s)
      else let (itt, s) = next_itt s;
               header = set_data_len (length data) (nop_out 0 itt no_ttt (sn_cmd_sn s) (sn_exp_stat_sn s))
           in sthen (frame header data s) (\<lambda>_ s. await_ping itt s))"

definition logout :: "session \<Rightarrow> unit result" where
  "logout s =
     (let (itt, s) = next_itt s;
          header = logout_request itt 0 (sn_cmd_sn s) (sn_exp_stat_sn s)
      in case frame header [] s of
           (Inl e, s) \<Rightarrow> Inl e
         | (Inr _, s) \<Rightarrow> (case recv s of (Inl e, s) \<Rightarrow> Inl e | (Inr response, s) \<Rightarrow> check_logout_response response))"

section \<open>What a waiting command leaves behind\<close>

lemma next_itt_same:
  assumes "next_itt s = (itt, t)"
  shows "sn_inflight t = sn_inflight s" "same_input s t"
  using assms by (auto simp: next_itt_def Let_def same_input_def)

lemma submit_Inr:
  assumes "submit cdb tag buf len write s = (Inr u, s')"
  shows "tags_of s' = add_mset tag (tags_of s)" "same_input s s'"
proof -
  obtain itt t where t: "next_itt s = (itt, t)" by fastforce
  define c where "c = \<lparr>sc_lun = sn_lun t, sc_itt = itt, sc_cmd_sn = sn_cmd_sn t, sc_exp_stat_sn = sn_exp_stat_sn t,
              sc_cdb = cdb, sc_read = (\<not> write \<and> 0 < len), sc_write = write, sc_expected = of_nat len\<rparr>"
  from assms obtain header v where
    f: "frame (header @ extended_cdb cdb) [] (t\<lparr>sn_cmd_sn := sn_cmd_sn t + 1\<rparr>) = (Inr (), v)"
    "s' = v\<lparr>sn_inflight := sn_inflight v @ [\<lparr>if_itt = itt, if_tag = tag, if_buf = buf, if_len = len, if_received = 0,
        if_write = write, if_status = None, if_sense = []\<rparr>]\<rparr>"
    by (auto simp: submit_def t c_def [symmetric] sthen_eq_Inr split: if_splits)
  show "tags_of s' = add_mset tag (tags_of s)" "same_input s s'"
    using frame_tasks [OF f(1)] next_itt_same [OF t] f(2) by (auto simp: tags_of_def same_tasks_def same_input_def)
qed

lemma submit_no_panic: "submit cdb tag buf len write s \<noteq> (Inl Panic, s')"
  using frame_no_panic by (fastforce simp: submit_def scsi_encode_def Let_def sthen_eq_Panic split: if_splits prod.splits)

lemma await_tag_sound:
  "await_tag s m = (x, s', m') \<Longrightarrow> sound s \<Longrightarrow> x \<noteq> Inl Panic \<and> (\<forall>st. x = Inr st \<longrightarrow> sound s')"
proof (induction s m rule: await_tag.induct)
  case (1 s m)
  obtain y t m1 where p: "poll s m = (y, t, m1)" by (metis prod_cases3)
  note ps = poll_sound [OF p 1(3)]
  show ?case
  proof (cases y)
    case (Inl e)
    then show ?thesis using 1(2) p ps by (auto simp: await_tag.simps [of s m])
  next
    case (Inr dn)
    then show ?thesis
      using 1(1) [OF p [symmetric] Inr refl] 1(2) p ps
      by (auto simp: await_tag.simps [of s m] sound_def split: if_splits)
  qed
qed

text \<open>With one command of tag 0 in flight, the wait ends with none.\<close>

lemma await_tag_idle:
  assumes "tags_of s = {#0#}" and "await_tag s m = (Inr st, s', m')"
  shows "sn_inflight s' = []"
proof -
  obtain y t m1 where p: "poll s m = (y, t, m1)" by (metis prod_cases3)
  then obtain dn where dn: "y = Inr dn" using assms(2) by (cases y) (auto simp: await_tag.simps [of s m])
  have "dn_tag dn = 0 \<and> tags_of t = {#}" using poll_tags p dn assms(1) by (simp add: single_is_union add_mset_eq_single)
  then show ?thesis using assms(2) p dn by (auto simp: await_tag.simps [of s m] tags_of_def)
qed

end
