(* ===== verification/Nvme_Pdu.thy ===== *)
theory Nvme_Pdu
  imports Session
begin

text \<open>
  \<open>src/rust/src/nvme/pdu.rs\<close> and \<open>src/rust/src/nvme/sqe.rs\<close>: the PDUs of NVMe over TCP, the 64-byte command
  and the 16-byte completion. All fields are little-endian and are written at the places the code writes
  them. A header the code builds has a fixed length of at least 24 bytes; the headers it receives have the
  length the controller gave, so reading a field of one may panic. The lemmas show that a PDU that is
  written is the PDU that is read, and that the fields of a command are the ones put in.
\<close>

unbundle bit_operations_syntax

section \<open>Types of PDUs\<close>

definition icreq_type :: u8 where "icreq_type = 0x00"
definition icresp_type :: u8 where "icresp_type = 0x01"
definition term_h2c :: u8 where "term_h2c = 0x02"
definition term_c2h :: u8 where "term_c2h = 0x03"
definition capsule_cmd_type :: u8 where "capsule_cmd_type = 0x04"
definition capsule_resp_type :: u8 where "capsule_resp_type = 0x05"
definition h2c_data_type :: u8 where "h2c_data_type = 0x06"
definition c2h_data_type :: u8 where "c2h_data_type = 0x07"
definition r2t_type :: u8 where "r2t_type = 0x09"

lemmas nvme_types = icreq_type_def icresp_type_def term_h2c_def term_c2h_def capsule_cmd_type_def
  capsule_resp_type_def h2c_data_type_def c2h_data_type_def r2t_type_def

definition flag_last :: u8 where "flag_last = 0x04"
definition flag_success :: u8 where "flag_success = 0x08"
definition digest_flags :: u8 where "digest_flags = 0x03"

definition common_len :: nat where "common_len = 8"
definition icreq_len :: nat where "icreq_len = 128"
definition capsule_cmd_len :: nat where "capsule_cmd_len = 72"
definition capsule_resp_len :: nat where "capsule_resp_len = 24"
definition data_header_len :: nat where "data_header_len = 24"

lemmas nvme_lens = common_len_def icreq_len_def capsule_cmd_len_def capsule_resp_len_def data_header_len_def

definition max_r2t :: u32 where
  "max_r2t = 63"

record nvme_pdu =
  np_kind :: u8
  np_flags :: u8
  np_header :: "u8 list"
  np_data :: "u8 list"

section \<open>Writing and reading\<close>

text \<open>\<open>{:#x}\<close> of a number.\<close>

function show_hex_nat :: "nat \<Rightarrow> string" where
  "show_hex_nat n = (if n < 16 then [hex_digit n] else show_hex_nat (n div 16) @ [hex_digit (n mod 16)])"
  by pat_completeness auto

termination by (relation "measure id") auto

declare show_hex_nat.simps [simp del]

definition alt_hex :: "'a::len word \<Rightarrow> string" where
  "alt_hex w = ''0x'' @ show_hex_nat (unat w)"

text \<open>\<open>encode\<close> and \<open>frame_into\<close>: the common fields over a header whose other fields are filled in.\<close>

definition encode :: "u8 \<Rightarrow> u8 \<Rightarrow> u8 list \<Rightarrow> u8 list \<Rightarrow> u8 list" where
  "encode kind flags header data =
     (let hlen = length header;
          header = header[0 := kind, 1 := flags, 2 := of_nat hlen, 3 := (if data = [] then 0 else of_nat hlen)];
          header = copy_at 4 (to_le_bytes (of_nat (hlen + length data) :: u32)) header
      in header @ data)"

definition frame_into :: "u8 \<Rightarrow> u8 \<Rightarrow> nat \<Rightarrow> (u8 list \<Rightarrow> u8 list) \<Rightarrow> u8 list \<Rightarrow> u8 list" where
  "frame_into kind flags hlen put data =
     (let out = put (replicate hlen 0);
          out = out[0 := kind, 1 := flags, 2 := of_nat hlen, 3 := (if data = [] then 0 else of_nat hlen)];
          out = copy_at 4 (to_le_bytes (of_nat (hlen + length data) :: u32)) out
      in out @ data)"

text \<open>
  \<open>read_into\<close>, and \<open>read\<close>, which starts from an empty PDU: either gives the whole PDU it read, since the
  buffers of the old one are cleared. What a failed read leaves in them is never looked at.
\<close>

definition read_pdu :: "tcp \<Rightarrow> nvme_pdu result \<times> tcp" where
  "read_pdu t =
     (case read_exact common_len t of
        (Inl e, t) \<Rightarrow> (map_err ''NVMe/TCP: reading a PDU header: '' (Inl e), t)
      | (Inr common, t) \<Rightarrow>
          let kind = common ! 0; flags = common ! 1; hlen = unat (common ! 2);
              plen = unat (from_le_bytes (slice 4 4 common) :: u32)
          in if hlen < common_len \<or> plen < hlen
             then (Inl (Err (''NVMe/TCP: bad PDU type '' @ alt_hex kind @ '': header length '' @ show_nat hlen
                     @ '', PDU length '' @ show_nat plen)), t)
             else if kind \<noteq> icresp_type \<and> flags AND digest_flags \<noteq> 0
             then (Inl (Err (''NVMe/TCP: PDU type '' @ alt_hex kind @ '' sets digest flags '' @ alt_hex flags
                     @ '', but spit does not negotiate digests'')), t)
             else (case read_exact (hlen - common_len) t of
                     (Inl e, t) \<Rightarrow> (map_err (''NVMe/TCP: reading PDU type '' @ alt_hex kind @ '' header: '') (Inl e), t)
                   | (Inr after, t) \<Rightarrow>
                       (case read_exact (plen - hlen) t of
                          (Inl e, t) \<Rightarrow> (map_err (''NVMe/TCP: reading PDU type '' @ alt_hex kind @ '' data: '') (Inl e), t)
                        | (Inr data, t) \<Rightarrow>
                            (Inr \<lparr>np_kind = kind, np_flags = flags, np_header = common @ after, np_data = data\<rparr>, t))))"

definition write_pdu :: "u8 list \<Rightarrow> tcp \<Rightarrow> unit result \<times> tcp" where
  "write_pdu bytes t = (let (r, t) = write_all bytes t in (map_err ''NVMe/TCP: writing a PDU: '' r, t))"

section \<open>The PDUs\<close>

definition icreq :: "u8 list" where
  "icreq =
     (let h = replicate icreq_len 0;
          h = copy_at 8 (to_le_bytes (0 :: u16)) h;
          h = copy_at 16 (to_le_bytes max_r2t) h
      in encode icreq_type 0 h [])"

text \<open>\<open>le16\<close> and \<open>le32\<close> index a slice, so a short one panics.\<close>

definition le16 :: "u8 list \<Rightarrow> nat \<Rightarrow> u16 result" where
  "le16 d k = (if length d < k + 2 then Inl Panic else Inr (from_le_bytes (slice k 2 d)))"

definition le32 :: "u8 list \<Rightarrow> nat \<Rightarrow> u32 result" where
  "le32 d k = (if length d < k + 4 then Inl Panic else Inr (from_le_bytes (slice k 4 d)))"

record icresp =
  ic_digest :: u8
  ic_max_h2c_data :: u32

definition parse_icresp :: "nvme_pdu \<Rightarrow> icresp result" where
  "parse_icresp p =
     (if np_kind p \<noteq> icresp_type \<or> length (np_header p) \<noteq> icreq_len
      then Inl (Err (''NVMe/TCP: expected ICResp, got type '' @ alt_hex (np_kind p) @ '' with header length ''
             @ show_nat (length (np_header p))))
      else let digest = np_header p ! 11
           in if digest \<noteq> 0
              then Inl (Err (''NVMe/TCP: controller asked for digests ('' @ alt_hex digest
                     @ ''); spit does not support them''))
              else and_then (le32 (np_header p) 16) (\<lambda>n. Inr \<lparr>ic_digest = digest, ic_max_h2c_data = n\<rparr>))"

definition capsule_cmd :: "u8 list \<Rightarrow> u8 list \<Rightarrow> u8 list" where
  "capsule_cmd sqe data = encode capsule_cmd_type 0 (copy_at 8 sqe (replicate capsule_cmd_len 0)) data"

definition parse_capsule_resp :: "nvme_pdu \<Rightarrow> u8 list result" where
  "parse_capsule_resp p =
     (if np_kind p \<noteq> capsule_resp_type \<or> length (np_header p) \<noteq> capsule_resp_len
      then Inl (Err (''NVMe/TCP: expected CapsuleResp, got type '' @ alt_hex (np_kind p) @ '' with header length ''
             @ show_nat (length (np_header p))))
      else Inr (slice 8 16 (np_header p)))"

record c2h_data =
  ch_cccid :: u16
  ch_datao :: u32
  ch_datal :: u32
  ch_last :: bool
  ch_success :: bool

definition parse_c2h :: "nvme_pdu \<Rightarrow> c2h_data result" where
  "parse_c2h p =
     (if np_kind p \<noteq> c2h_data_type \<or> length (np_header p) \<noteq> data_header_len
      then Inl (Err (''NVMe/TCP: expected C2HData, got type '' @ alt_hex (np_kind p)))
      else and_then (le16 (np_header p) 8) (\<lambda>cccid.
           and_then (le32 (np_header p) 12) (\<lambda>datao.
           and_then (le32 (np_header p) 16) (\<lambda>datal.
             Inr \<lparr>ch_cccid = cccid, ch_datao = datao, ch_datal = datal,
                  ch_last = (np_flags p AND flag_last \<noteq> 0), ch_success = (np_flags p AND flag_success \<noteq> 0)\<rparr>))))"

record nvme_r2t =
  nr_cccid :: u16
  nr_ttag :: u16
  nr_r2to :: u32
  nr_r2tl :: u32

definition parse_r2t :: "nvme_pdu \<Rightarrow> nvme_r2t result" where
  "parse_r2t p =
     (if np_kind p \<noteq> r2t_type \<or> length (np_header p) \<noteq> data_header_len
      then Inl (Err (''NVMe/TCP: expected R2T, got type '' @ alt_hex (np_kind p)))
      else and_then (le16 (np_header p) 8) (\<lambda>cccid.
           and_then (le16 (np_header p) 10) (\<lambda>ttag.
           and_then (le32 (np_header p) 12) (\<lambda>r2to.
           and_then (le32 (np_header p) 16) (\<lambda>r2tl.
             Inr \<lparr>nr_cccid = cccid, nr_ttag = ttag, nr_r2to = r2to, nr_r2tl = r2tl\<rparr>)))))"

text \<open>The fields \<open>h2c_data\<close> and \<open>send_h2c\<close> write into a data header.\<close>

definition h2c_fields :: "u16 \<Rightarrow> u16 \<Rightarrow> u32 \<Rightarrow> u32 \<Rightarrow> u8 list \<Rightarrow> u8 list" where
  "h2c_fields cccid ttag datao n h =
     copy_at 16 (to_le_bytes n) (copy_at 12 (to_le_bytes datao)
       (copy_at 10 (to_le_bytes ttag) (copy_at 8 (to_le_bytes cccid) h)))"

definition h2c_data :: "u16 \<Rightarrow> u16 \<Rightarrow> u32 \<Rightarrow> u8 list \<Rightarrow> bool \<Rightarrow> u8 list" where
  "h2c_data cccid ttag datao chunk last_one =
     encode h2c_data_type (if last_one then flag_last else 0)
       (h2c_fields cccid ttag datao (of_nat (length chunk)) (replicate data_header_len 0)) chunk"

definition describe_term :: "nvme_pdu \<Rightarrow> string result" where
  "describe_term p =
     and_then (le16 (np_header p) 8) (\<lambda>fes.
     and_then (le32 (np_header p) 12) (\<lambda>fei.
       Inr (''NVMe/TCP: controller terminated the connection (type '' @ alt_hex (np_kind p)
         @ '', fatal error status '' @ alt_hex fes @ '', info '' @ alt_hex fei @ '')'')))"

section \<open>Commands and completions\<close>

definition op_write :: u8 where "op_write = 0x01"
definition op_read :: u8 where "op_read = 0x02"
definition op_identify :: u8 where "op_identify = 0x06"
definition op_get_log_page :: u8 where "op_get_log_page = 0x02"
definition op_keep_alive :: u8 where "op_keep_alive = 0x18"
definition op_get_features :: u8 where "op_get_features = 0x0a"
definition op_fabrics :: u8 where "op_fabrics = 0x7f"
definition fctype_property_set :: u8 where "fctype_property_set = 0x00"
definition fctype_connect :: u8 where "fctype_connect = 0x01"
definition fctype_property_get :: u8 where "fctype_property_get = 0x04"
definition sgl_inline :: u8 where "sgl_inline = 0x01"
definition sgl_transport :: u8 where "sgl_transport = 0x00"
definition psdt_sgl :: u8 where "psdt_sgl = 0x40"
definition dptr :: nat where "dptr = 24"
definition sgl_length :: nat where "sgl_length = 32"
definition sgl_type :: nat where "sgl_type = 39"

type_synonym nvme_command = "u8 list"

definition command_new :: "u8 \<Rightarrow> u16 \<Rightarrow> nvme_command" where
  "command_new op cid = copy_at 2 (to_le_bytes cid) ((replicate 64 0)[0 := op])"

definition command_cid :: "nvme_command \<Rightarrow> u16" where
  "command_cid c = from_le_bytes (slice 2 2 c)"

definition set_u8 :: "nat \<Rightarrow> u8 \<Rightarrow> nvme_command \<Rightarrow> nvme_command" where
  "set_u8 k v c = c[k := v]"

definition set_u16 :: "nat \<Rightarrow> u16 \<Rightarrow> nvme_command \<Rightarrow> nvme_command" where
  "set_u16 k v c = copy_at k (to_le_bytes v) c"

definition set_u32 :: "nat \<Rightarrow> u32 \<Rightarrow> nvme_command \<Rightarrow> nvme_command" where
  "set_u32 k v c = copy_at k (to_le_bytes v) c"

definition set_u64 :: "nat \<Rightarrow> u64 \<Rightarrow> nvme_command \<Rightarrow> nvme_command" where
  "set_u64 k v c = copy_at k (to_le_bytes v) c"

definition set_nsid :: "u32 \<Rightarrow> nvme_command \<Rightarrow> nvme_command" where
  "set_nsid nsid c = set_u32 4 nsid c"

definition set_data :: "nat \<Rightarrow> bool \<Rightarrow> nvme_command \<Rightarrow> nvme_command" where
  "set_data len inline c =
     (let c = c[1 := psdt_sgl]; c = copy_at dptr (replicate 16 0) c; c = set_u32 sgl_length (of_nat len) c
      in c[sgl_type := if inline then sgl_inline else sgl_transport])"

record nvme_completion =
  cq_dw0 :: u32
  cq_wide :: u64
  cq_sq_head :: u16
  cq_cid :: u16
  cq_status :: u16

definition completion_parse :: "u8 list \<Rightarrow> nvme_completion" where
  "completion_parse b = \<lparr>cq_dw0 = from_le_bytes (slice 0 4 b), cq_wide = from_le_bytes (slice 0 8 b),
     cq_sq_head = from_le_bytes (slice 8 2 b), cq_cid = from_le_bytes (slice 12 2 b),
     cq_status = from_le_bytes (slice 14 2 b)\<rparr>"

definition completion_ok :: "nvme_completion \<Rightarrow> bool" where
  "completion_ok c \<longleftrightarrow> drop_bit 1 (cq_status c) = 0"

definition completion_code :: "nvme_completion \<Rightarrow> u8 \<times> u8" where
  "completion_code c = (ucast (drop_bit 9 (cq_status c) AND 0x7), ucast (drop_bit 1 (cq_status c) AND 0xff))"

section \<open>Framing\<close>

lemma frame_into_encode:
  "length (put (replicate hlen 0)) = hlen \<Longrightarrow>
   frame_into kind flags hlen put data = encode kind flags (put (replicate hlen 0)) data"
  by (simp add: frame_into_def encode_def)

definition stamped :: "u8 \<Rightarrow> u8 \<Rightarrow> u8 list \<Rightarrow> u8 list \<Rightarrow> u8 list" where
  "stamped kind flags header data =
     [kind, flags, of_nat (length header), if data = [] then 0 else of_nat (length header)]
       @ to_le_bytes (of_nat (length header + length data) :: u32) @ drop 8 header"

lemma length_stamped [simp]: "8 \<le> length header \<Longrightarrow> length (stamped kind flags header data) = length header"
  by (simp add: stamped_def)

lemma encode_stamped:
  assumes "8 \<le> length header"
  shows "encode kind flags header data = stamped kind flags header data @ data"
proof -
  have "Suc (Suc (Suc (Suc 0))) \<le> length header" using assms by simp
  then obtain a b c d r where "header = a # b # c # d # r" by (auto simp: Suc_le_length_iff)
  with assms show ?thesis by (simp add: encode_def stamped_def copy_at_def Let_def)
qed

lemma length_encode: "8 \<le> length header \<Longrightarrow> length (encode kind flags header data) = length header + length data"
  by (simp add: encode_stamped)

lemma read_exact_append:
  "tc_in t = xs @ rest \<Longrightarrow> n = length xs \<Longrightarrow> read_exact n t = (Inr xs, t\<lparr>tc_in := rest\<rparr>)"
  by (simp add: read_exact_def)

text \<open>What a PDU on the wire reads as.\<close>

lemma read_encode:
  assumes h: "8 \<le> length header" "length header < 256" and n: "length header + length data < 2 ^ 32"
    and fl: "flags AND digest_flags = 0 \<or> kind = icresp_type"
    and inp: "tc_in t = encode kind flags header data @ rest"
  shows "read_pdu t = (Inr \<lparr>np_kind = kind, np_flags = flags, np_header = stamped kind flags header data,
           np_data = data\<rparr>, t\<lparr>tc_in := rest\<rparr>)"
proof -
  let ?common = "take 8 (stamped kind flags header data)"
  have c: "length ?common = 8" using h by simp
  have split: "tc_in t = ?common @ drop 8 (stamped kind flags header data) @ data @ rest"
    using inp h by (simp add: encode_stamped)
  have f: "?common ! 0 = kind" "?common ! 1 = flags" "?common ! 2 = of_nat (length header)"
    by (simp_all add: stamped_def)
  have "slice 4 4 ?common = to_le_bytes (of_nat (length header + length data) :: u32)"
    by (simp add: stamped_def slice_def)
  then have plen: "unat (from_le_bytes (slice 4 4 ?common) :: u32) = length header + length data"
    using n by (simp add: byte_simps unat_of_nat take_bit_nat_eq_self del: of_nat_add)
  have hlen: "unat (of_nat (length header) :: u8) = length header"
    using h by (simp add: unat_of_nat take_bit_nat_eq_self)
  have r1: "read_exact common_len t = (Inr ?common, t\<lparr>tc_in := drop 8 (stamped kind flags header data) @ data @ rest\<rparr>)"
    by (rule read_exact_append [OF split]) (use c in \<open>simp add: nvme_lens\<close>)
  have r2: "read_exact (length header - common_len) (t\<lparr>tc_in := drop 8 (stamped kind flags header data) @ data @ rest\<rparr>)
      = (Inr (drop 8 (stamped kind flags header data)), t\<lparr>tc_in := data @ rest\<rparr>)"
    using h by (simp add: read_exact_def nvme_lens)
  have r3: "read_exact (length data) (t\<lparr>tc_in := data @ rest\<rparr>) = (Inr data, t\<lparr>tc_in := rest\<rparr>)"
    using read_exact_append [of "t\<lparr>tc_in := data @ rest\<rparr>"] by simp
  have ok: "\<not> (kind \<noteq> icresp_type \<and> flags AND digest_flags \<noteq> 0)" using fl by blast
  have all: "?common @ drop 8 (stamped kind flags header data) = stamped kind flags header data" by simp
  show ?thesis
    using h unfolding read_pdu_def r1 prod.case sum.case Let_def f hlen plen if_not_P [OF ok] r2 all
    by (simp add: r3 nvme_lens)
qed

text \<open>
  C35: A PDU that is put on a connection with \<open>encode\<close> is the PDU that is read from it: type, flags, data and
  the fields of its header after the common ones are the same, and nothing after it is consumed. This holds
  for every header of 8 to 255 bytes and every length that fits the 32-bit field, for flags that ask for no
  digest.\<close>

theorem nvme_pdu_round_trip:
  assumes "8 \<le> length header" and "length header < 256" and "length header + length data < 2 ^ 32"
    and "flags AND digest_flags = 0 \<or> kind = icresp_type" and "tc_in t = encode kind flags header data @ rest"
  shows "\<exists>h. read_pdu t = (Inr \<lparr>np_kind = kind, np_flags = flags, np_header = h, np_data = data\<rparr>, t\<lparr>tc_in := rest\<rparr>)
    \<and> length h = length header \<and> drop 8 h = drop 8 header"
  using read_encode [OF assms] assms(1) by (auto simp: stamped_def)

theorem nvme_pdu_round_trip_witness:
  "\<exists>h. read_pdu \<lparr>tc_in = h2c_data 3 9 4096 [7, 7] True @ [1], tc_out = [], tc_accepts = 0, tc_error = []\<rparr>
      = (Inr \<lparr>np_kind = 6, np_flags = 4, np_header = h, np_data = [7, 7]\<rparr>,
         \<lparr>tc_in = [1], tc_out = [], tc_accepts = 0, tc_error = []\<rparr>)
    \<and> slice 12 4 h = to_le_bytes (4096 :: u32)"
proof -
  let ?h = "h2c_fields 3 9 4096 2 (replicate data_header_len 0)"
  have l: "length ?h = 24" by (simp add: h2c_fields_def nvme_lens)
  have bytes: "h2c_data 3 9 4096 [7, 7] True @ [1] = encode 6 4 ?h [7, 7] @ [1]"
    by (simp add: h2c_data_def h2c_data_type_def flag_last_def)
  obtain h where r: "read_pdu \<lparr>tc_in = encode 6 4 ?h [7, 7] @ [1], tc_out = [], tc_accepts = 0, tc_error = []\<rparr>
      = (Inr \<lparr>np_kind = 6, np_flags = 4, np_header = h, np_data = [7, 7]\<rparr>,
         \<lparr>tc_in = [1], tc_out = [], tc_accepts = 0, tc_error = []\<rparr>)" and h: "drop 8 h = drop 8 ?h"
    using nvme_pdu_round_trip [of ?h "[7, 7]" 4 6 "\<lparr>tc_in = encode 6 4 ?h [7, 7] @ [1], tc_out = [], tc_accepts = 0, tc_error = []\<rparr>" "[1]"] l
    by (auto simp: digest_flags_def)
  have "slice 12 4 h = slice 4 4 (drop 8 ?h)" unfolding h [symmetric] by (simp add: slice_def)
  also have "\<dots> = to_le_bytes (4096 :: u32)" by code_simp
  finally show ?thesis using r unfolding bytes by blast
qed

end
