(* ===== verification/Session_Safety.thy ===== *)
theory Session_Safety
  imports Session
begin

text \<open>
  What \<open>src/rust/src/iscsi/session.rs\<close> promises its callers: data lands only in the buffers of reads in
  flight, a write sends exactly what the target asked for, PDUs survive framing, and a waiting command
  leaves nothing in flight.
\<close>

unbundle bit_operations_syntax

section \<open>Buffers\<close>

text \<open>What the safety of a buffer depends on: where it is, how long the command is, and its direction.\<close>

definition buffer_keys :: "session \<Rightarrow> (nat \<times> nat \<times> bool) set" where
  "buffer_keys s = (\<lambda>i. (if_buf i, if_len i, if_write i)) ` set (sn_inflight s)"

text \<open>The contract of \<open>submit\<close>: every buffer holds its command's length.\<close>

definition buffers_fit :: "session \<Rightarrow> memory \<Rightarrow> bool" where
  "buffers_fit s m \<longleftrightarrow> (\<forall>(buf, len, write)\<in>buffer_keys s. buf < length m \<and> len \<le> length (m ! buf))"

text \<open>Only buffers of reads in flight change, and none changes its length.\<close>

definition only_reads :: "session \<Rightarrow> memory \<Rightarrow> memory \<Rightarrow> bool" where
  "only_reads s m m' \<longleftrightarrow> map length m' = map length m
     \<and> (\<forall>b < length m. (\<forall>len. (b, len, False) \<notin> buffer_keys s) \<longrightarrow> m' ! b = m ! b)"

lemma only_reads_refl [simp]: "only_reads s m m"
  by (simp add: only_reads_def)

lemma buffers_fit_lengths:
  assumes "map length m' = map length m" and "buffer_keys s' \<subseteq> buffer_keys s" and "buffers_fit s m"
  shows "buffers_fit s' m'"
proof -
  have l: "length m' = length m" using assms(1) map_eq_imp_length_eq by blast
  have "length (m' ! b) = length (m ! b)" if "b < length m" for b
    using arg_cong [OF assms(1), of "\<lambda>xs. xs ! b"] that l by simp
  then show ?thesis using assms(2,3) l unfolding buffers_fit_def by fastforce
qed

lemma only_reads_trans:
  assumes "only_reads s m m1" and "only_reads t m1 m2" and "buffer_keys t \<subseteq> buffer_keys s"
  shows "only_reads s m m2"
proof -
  have "length m1 = length m" using assms(1) map_eq_imp_length_eq unfolding only_reads_def by blast
  then show ?thesis using assms unfolding only_reads_def by (metis subsetD)
qed

lemma set_swap_remove: "set (swap_remove i xs) \<subseteq> set xs"
proof (cases "xs = []")
  case False
  have "set (swap_remove i xs) \<subseteq> set (xs[i := last xs])" by (auto simp: swap_remove_def dest: in_set_butlastD)
  also have "\<dots> \<subseteq> set xs" using set_update_subset_insert [of xs i "last xs"] last_in_set [OF False] by auto
  finally show ?thesis .
qed (simp add: swap_remove_def)

lemma keys_update:
  "idx < length is \<Longrightarrow> f i = f (is ! idx) \<Longrightarrow> f ` set (is[idx := i]) \<subseteq> f ` set is"
  using set_update_subset_insert [of "is" idx i] nth_mem [of idx "is"] by fastforce

lemma same_tasks_keys: "same_tasks s t \<Longrightarrow> buffer_keys t = buffer_keys s"
  by (simp add: buffer_keys_def same_tasks_def)

lemma poll_data_in_memory:
  assumes "poll_data_in bhs s m = (r, s', m')" and fit: "buffers_fit s m"
  shows "only_reads s m m' \<and> buffer_keys s' \<subseteq> buffer_keys s"
proof (cases "find_task (be32 bhs 16) s")
  case (Inl e)
  then show ?thesis using assms(1) by (simp add: poll_data_in_def)
next
  case (Inr idx)
  define u where "u = (if bhs ! 1 AND 0x01 \<noteq> 0 then observe (sequence_of bhs) s else s)"
  have u: "same_tasks s u" by (simp add: u_def)
  define i where "i = sn_inflight u ! idx"
  define i' where "i' = i\<lparr>if_received := if_received i + length (sn_rx s),
                            if_status := if bhs ! 1 AND 0x01 \<noteq> 0 then Some (bhs ! 3) else if_status i\<rparr>"
  have idx: "idx < length (sn_inflight u)" using find_task_Inr [OF Inr] same_tasks_simps(1) [OF u] by simp
  let ?key = "\<lambda>i. (if_buf i, if_len i, if_write i)"
  have "i \<in> set (sn_inflight s)" using idx same_tasks_simps(1) [OF u] by (simp add: i_def)
  then have key: "?key i \<in> buffer_keys s" by (auto simp: buffer_keys_def)
  have keys: "?key ` set ((sn_inflight u)[idx := i']) \<subseteq> buffer_keys s"
    using keys_update [OF idx, of ?key i'] same_tasks_simps(1) [OF u] by (auto simp: buffer_keys_def i_def i'_def)
  have rx: "sn_rx u = sn_rx s" using same_tasks_simps(2) [OF u] .
  have written: "only_reads s m (m[if_buf i := copy_at off (sn_rx s) (m ! if_buf i)])"
    if "\<not> if_write i" "\<not> if_len i < off + length (sn_rx s)" for off
  proof -
    have b: "if_buf i < length m" "if_len i \<le> length (m ! if_buf i)" using fit key by (auto simp: buffers_fit_def)
    then have "map length (m[if_buf i := copy_at off (sn_rx s) (m ! if_buf i)]) = map length m"
      using that by (simp add: map_update list_update_id [of "map length m", symmetric] del: list_update_id)
        (simp add: list_update_same_conv)
    moreover have "b \<noteq> if_buf i" if "\<forall>len. (b, len, False) \<notin> buffer_keys s" for b
      using key \<open>\<not> if_write i\<close> that by auto
    ultimately show ?thesis unfolding only_reads_def by (metis nth_list_update_neq)
  qed
  have "buffer_keys u = buffer_keys s" by (rule same_tasks_keys [OF u])
  moreover have "set (swap_remove idx ((sn_inflight u)[idx := i'])) \<subseteq> set ((sn_inflight u)[idx := i'])"
    by (rule set_swap_remove)
  ultimately show ?thesis
    using assms(1) written keys
    unfolding poll_data_in_def Inr u_def [symmetric] Let_def sum.case rx i_def [symmetric] i'_def [symmetric]
    by (fastforce simp: buffer_keys_def split: if_splits)
qed

lemma poll_pdu_memory:
  assumes p: "poll_pdu bhs s m = (r, s', m')" and fit: "buffers_fit s m"
  shows "only_reads s m m' \<and> buffer_keys s' \<subseteq> buffer_keys s"
proof (cases "opcode bhs = op_data_in")
  case True
  then show ?thesis using poll_data_in_memory [OF _ fit, of bhs r s' m'] p by (simp add: poll_pdu_def)
next
  case False
  have response: "m' = m \<and> buffer_keys s' \<subseteq> buffer_keys s" if "poll_response bhs s m = (r, s', m')"
    using that set_swap_remove [of _ "sn_inflight s"]
    by (fastforce simp: poll_response_def Let_def observe_def buffer_keys_def split: sum.splits if_splits)
  have r2t: "m' = m \<and> buffer_keys s' \<subseteq> buffer_keys s" if "poll_r2t bhs s m = (r, s', m')"
    using that same_tasks_keys [OF observe_tasks [of s]]
    by (auto simp: poll_r2t_def Let_def dest!: send_write_tasks same_tasks_keys split: sum.splits if_splits prod.splits)
  have reject: "buffer_keys t \<subseteq> buffer_keys s" if "poll_reject bhs s = (x, t)" for x t
    using that by (auto simp: poll_reject_def Let_def observe_def buffer_keys_def split: if_splits)
  have nop: "buffer_keys t = buffer_keys s" if "answer_nop bhs s = (x, t)" for x t
    using same_tasks_keys [OF answer_nop_tasks [OF that]] .
  show ?thesis
    using p False response r2t reject nop
    by (auto simp: poll_pdu_def split: if_splits prod.splits sum.splits)
qed

lemma poll_memory: "poll s m = (x, s', m') \<Longrightarrow> buffers_fit s m \<Longrightarrow> only_reads s m m'"
proof (induction rule: poll_induct)
  case (ended s m bhs t r s' m')
  have k: "buffer_keys t = buffer_keys s" using recv_Inr(3) [OF ended(1)] by (simp add: buffer_keys_def same_state_def)
  then have "buffers_fit t m" using ended(3) by (simp add: buffers_fit_def)
  from poll_pdu_memory [OF ended(2) this] show ?case using k by (simp add: only_reads_def)
next
  case (step s m bhs t u m1 x s' m')
  have k: "buffer_keys t = buffer_keys s" using recv_Inr(3) [OF step(1)] by (simp add: buffer_keys_def same_state_def)
  then have "buffers_fit t m" using step(5) by (simp add: buffers_fit_def)
  from poll_pdu_memory [OF step(2) this] have o: "only_reads s m m1" "buffer_keys u \<subseteq> buffer_keys s"
    using k by (simp_all add: only_reads_def)
  then have "buffers_fit u m1" using buffers_fit_lengths [OF _ o(2) step(5)] by (simp add: only_reads_def)
  from step(4) [OF this] show ?case by (rule only_reads_trans [OF o(1) _ o(2)])
qed simp

section \<open>Sending what an R2T asks for\<close>

text \<open>
  The specification: the bytes asked for, cut into pieces of the size the target takes, each in a Data-Out
  PDU numbered from 0 with its offset, the last one marked final.
\<close>

definition piece_count :: "nat \<Rightarrow> nat \<Rightarrow> nat" where
  "piece_count max_recv desired = (desired + max_recv - 1) div max_recv"

definition data_out_pdu :: "session \<Rightarrow> u8 list \<Rightarrow> r2t \<Rightarrow> nat \<Rightarrow> u8 list" where
  "data_out_pdu s data r k =
     (let max_recv = ng_max_recv (sn_negotiated s); desired = unat (rt_desired r);
          offset = unat (rt_offset r) + k * max_recv; n = min max_recv (desired - k * max_recv)
      in frame_bytes (sn_negotiated s)
           (data_out_header (rt_itt r) (rt_ttt r) (sn_exp_stat_sn s) (of_nat k) (of_nat offset)
              (k + 1 = piece_count max_recv desired) n)
           (slice offset n data))"

lemma piece_count_less: "0 < b \<Longrightarrow> k < piece_count b d \<longleftrightarrow> k * b < d"
proof -
  assume b: "0 < b"
  have "k < (d + b - 1) div b \<longleftrightarrow> Suc k * b \<le> d + b - 1" using b by (simp add: less_eq_div_iff_mult_less_eq Suc_le_eq [symmetric])
  also have "\<dots> \<longleftrightarrow> k * b < d" using b by auto
  finally show ?thesis by (simp add: piece_count_def)
qed

lemma send_loop_sends:
  assumes b: "b = ng_max_recv (sn_negotiated s)" "0 < b" and d: "d = unat (rt_desired r)" and o: "o' = unat (rt_offset r)"
    and P: "P = piece_count b d"
  shows "k \<le> P \<Longrightarrow> ng_max_recv (sn_negotiated t) = b \<Longrightarrow> sn_negotiated t = sn_negotiated s \<Longrightarrow> sn_exp_stat_sn t = sn_exp_stat_sn s \<Longrightarrow>
    length (concat (map (data_out_pdu s data r) [k..<P])) \<le> tc_accepts (sn_stream t) \<Longrightarrow>
    \<exists>t'. send_loop data r (o' + d) (min (o' + d) (o' + k * b)) (of_nat k) t = (Inr (), t')
      \<and> tc_out (sn_stream t') = tc_out (sn_stream t) @ concat (map (data_out_pdu s data r) [k..<P])"
proof (induction "P - k" arbitrary: k t)
  case 0
  then have "k = P" by simp
  then have "d \<le> k * b" using piece_count_less [OF b(2), of k d] P by simp
  then show ?case using \<open>k = P\<close> by (simp add: send_loop.simps)
next
  case (Suc x)
  then have k: "k < P" "k * b < d" using piece_count_less [OF b(2), of k d] P by auto
  define n where "n = min b (d - k * b)"
  have off: "min (o' + d) (o' + k * b) = o' + k * b" using k by simp
  have next_off: "o' + k * b + n = min (o' + d) (o' + Suc k * b)" using k by (auto simp: n_def min_def)
  have final: "o' + k * b + n = o' + d \<longleftrightarrow> k + 1 = P"
    using k piece_count_less [OF b(2), of "Suc k" d] P unfolding n_def by (auto simp: min_def)
  let ?h = "data_out_header (rt_itt r) (rt_ttt r) (sn_exp_stat_sn s) (of_nat k) (of_nat (o' + k * b)) (k + 1 = P) n"
  have pdu: "data_out_pdu s data r k = frame_bytes (sn_negotiated t) ?h (slice (o' + k * b) n data)"
    by (simp add: data_out_pdu_def Let_def Suc.prems b(1) [symmetric] d [symmetric] o [symmetric] P [symmetric] n_def)
  have split: "concat (map (data_out_pdu s data r) [k..<P]) = data_out_pdu s data r k @ concat (map (data_out_pdu s data r) [Suc k..<P])"
    using k(1) by (simp add: upt_conv_Cons)
  define t1 where "t1 = t\<lparr>sn_stream := (sn_stream t)\<lparr>tc_out := tc_out (sn_stream t) @ data_out_pdu s data r k,
        tc_accepts := tc_accepts (sn_stream t) - length (data_out_pdu s data r k)\<rparr>\<rparr>"
  have f: "frame ?h (slice (o' + k * b) n data) t = (Inr (), t1)"
    using Suc.prems(5) by (simp add: frame_Inr split pdu t1_def)
  have "\<exists>t'. send_loop data r (o' + d) (min (o' + d) (o' + Suc k * b)) (of_nat (Suc k)) t1 = (Inr (), t')
      \<and> tc_out (sn_stream t') = tc_out (sn_stream t1) @ concat (map (data_out_pdu s data r) [Suc k..<P])"
    using Suc.hyps(2) Suc.prems k(1) by (intro Suc.hyps(1)) (auto simp: t1_def split)
  moreover have "send_loop data r (o' + d) (o' + k * b) (of_nat k) t
      = send_loop data r (o' + d) (min (o' + d) (o' + Suc k * b)) (of_nat (Suc k)) t1"
    using k(2) f final next_off Suc.prems(2,4)
    by (subst send_loop.simps) (simp add: Let_def n_def min.commute add.commute)
  ultimately show ?case unfolding off split by (simp add: t1_def)
qed

lemma slice_add: "slice a (n + k) xs = slice a n xs @ slice (a + n) k xs"
  by (simp only: slice_def take_add drop_drop add.commute [of n a])

lemma pieces_cover:
  assumes b: "0 < b"
  shows "concat (map (\<lambda>k. slice (a + k * b) (min b (d - k * b)) xs) [0..<piece_count b d]) = slice a d xs"
proof -
  have "concat (map (\<lambda>k. slice (a + k * b) (min b (d - k * b)) xs) [0..<K]) = slice a (min d (K * b)) xs"
    if "K \<le> piece_count b d" for K
    using that
  proof (induction K)
    case (Suc K)
    then have K: "K * b < d" using piece_count_less [OF b, of K d] by simp
    have "min d (Suc K * b) = K * b + min b (d - K * b)" using K by (auto simp: min_def)
    then show ?case using Suc K by (simp add: slice_add min.absorb2 less_imp_le)
  qed (simp add: slice_def)
  moreover have "d \<le> piece_count b d * b" using piece_count_less [OF b, of "piece_count b d" d] by simp
  ultimately show ?thesis by (simp add: min_absorb1)
qed

text \<open>A target that declares it receives no data: the loop never gets on.\<close>

lemma zero_segment_never_completes:
  assumes "ng_max_recv (sn_negotiated s) = 0" and "0 < unat (rt_desired r)"
  shows "fst (send_write data len r s) \<noteq> Inr ()"
proof -
  have "fst (send_loop data r stop offset data_sn s) \<noteq> Inr ()"
    if "offset < stop" "ng_max_recv (sn_negotiated s) = 0" for stop offset data_sn s
    using that
  proof (induction data r stop offset data_sn s rule: send_loop.induct)
    case (1 data r stop offset data_sn s)
    obtain y t where f: "frame (data_out_header (rt_itt r) (rt_ttt r) (sn_exp_stat_sn s) data_sn (of_nat offset)
        (offset + min (stop - offset) (ng_max_recv (sn_negotiated s)) = stop) (min (stop - offset) (ng_max_recv (sn_negotiated s))))
        (slice offset (min (stop - offset) (ng_max_recv (sn_negotiated s))) data) s = (y, t)" by fastforce
    show ?case
    proof (cases y)
      case (Inl e)
      then show ?thesis using 1(2) f by (simp add: send_loop.simps [of data r stop offset] Let_def)
    next
      case (Inr u)
      have "ng_max_recv (sn_negotiated t) = 0"
        using frame_tasks [OF f] 1(3) by (simp add: same_tasks_def same_input_def)
      then have "fst (send_loop data r stop (offset + min (stop - offset) (ng_max_recv (sn_negotiated s))) (data_sn + 1) t) \<noteq> Inr ()"
        using 1(1) [OF _ refl refl f [symmetric] Inr] 1(2,3) by simp
      then show ?thesis using 1(2,3) f Inr by (simp add: send_loop.simps [of data r stop offset] Let_def)
    qed
  qed
  then show ?thesis using assms by (simp add: send_write_def Let_def)
qed

lemma short_reject_panics:
  "recv s = (Inr bhs, t) \<Longrightarrow> opcode bhs = op_reject \<Longrightarrow> length (sn_rx t) < 20 \<Longrightarrow> fst (poll s m) = Inl Panic"
  by (simp add: poll.simps [of s m] poll_pdu_def poll_reject_def observe_def pdu_consts)

lemma command_into_idle:
  assumes "command_into cdb read write s = (x, s', data)" and "sn_inflight s = []"
  shows "sn_inflight s' = []" "length data = length read \<or> write = None"
proof -
  define buf where "buf = (case write of Some data \<Rightarrow> data | None \<Rightarrow> read)"
  obtain y t where sub: "submit cdb 0 0 (length buf) (write \<noteq> None) s = (y, t)" by fastforce
  show "sn_inflight s' = []"
  proof (cases y)
    case (Inl e)
    then show ?thesis using assms sub by (auto simp: command_into_def Let_def buf_def)
  next
    case (Inr u)
    obtain z v m where a: "await_tag t [buf] = (z, v, m)" by (metis prod_cases3)
    have "tags_of t = {#0#}" using submit_Inr(1) [OF sub [unfolded Inr]] assms(2) by (simp add: tags_of_def)
    then have "sn_inflight v = []" if "z = Inr st" for st using await_tag_idle a that by blast
    then show ?thesis
      using assms sub Inr a by (cases z) (auto simp: command_into_def Let_def buf_def)
  qed
  show "length data = length read \<or> write = None"
    using assms(1) by (auto simp: command_into_def Let_def split: if_splits prod.splits)
qed

section \<open>Properties\<close>

lemma frame_recv:
  assumes "length header = 48" and "data_len header = length data" and "padded (length data) \<le> rx_capacity"
    and "tc_in (sn_stream s) = frame_bytes (sn_negotiated s) header data @ rest"
  shows "\<exists>s'. recv s = (Inr header, s') \<and> sn_rx s' = data \<and> tc_in (sn_stream s') = rest \<and> sn_inflight s' = sn_inflight s"
proof -
  let ?n = "sn_negotiated s"
  define body where "body = (if data = [] then [] else pad4 data @ (if ng_data_digest ?n then to_le_bytes (crc32c (pad4 data)) else []))"
  let ?set = "\<lambda>bs. s\<lparr>sn_stream := (sn_stream s)\<lparr>tc_in := bs\<rparr>\<rparr>"
  have inp: "tc_in (sn_stream s) = header @ (if ng_header_digest ?n then to_le_bytes (crc32c header) else []) @ body @ rest"
    by (simp add: assms(4) frame_bytes_def body_def)
  have r1: "read_from ''reading PDU header: '' bhs_len s
      = (Inr header, ?set ((if ng_header_digest ?n then to_le_bytes (crc32c header) else []) @ body @ rest))"
    by (simp add: read_from_Inr bhs_len_def assms(1) inp)
  have r2: "check_digest (ng_header_digest ?n) ''header'' header
      (?set ((if ng_header_digest ?n then to_le_bytes (crc32c header) else []) @ body @ rest)) = (Inr (), ?set (body @ rest))"
    by (simp add: check_digest_Inr from_le_bytes_to_le_bytes)
  show ?thesis
  proof (cases "data = []")
    case True
    then show ?thesis using r1 r2 assms(2)
      by (simp add: recv_def sthen_def padded_def rx_capacity_def body_def)
  next
    case False
    then have pos: "0 < padded (length data)" using padded_bounds(1) [of "length data"] by (cases "padded (length data)") simp_all
    let ?tail = "(if ng_data_digest ?n then to_le_bytes (crc32c (pad4 data)) else []) @ rest"
    have r3: "read_from ''reading PDU data: '' (padded (length data)) (?set (body @ rest)) = (Inr (pad4 data), ?set ?tail)"
      using False by (simp add: read_from_Inr body_def)
    have r4: "check_digest (ng_data_digest ?n) ''data'' (pad4 data) (?set ?tail) = (Inr (), ?set rest)"
      by (simp add: check_digest_Inr from_le_bytes_to_le_bytes)
    show ?thesis using r1 r2 r3 r4 assms(2,3) pos by (simp add: recv_def sthen_def Let_def take_pad4)
  qed
qed

text \<open>
  C34: what a session frames, a session receives. With any combination of digests, a header of 48 bytes that
  declares the length of its data, followed by that data, comes back from the other side's bytes as the
  same header and data segment, and the rest of the stream is left for the next PDU.
\<close>

theorem frame_round_trip:
  assumes "length header = 48" and "data_len header = length data" and "padded (length data) \<le> rx_capacity"
    and "tc_in (sn_stream s) = frame_bytes (sn_negotiated s) header data @ rest"
  shows "\<exists>s'. recv s = (Inr header, s') \<and> sn_rx s' = data \<and> tc_in (sn_stream s') = rest \<and> sn_inflight s' = sn_inflight s"
  using frame_recv [OF assms] .

definition example_negotiated :: "bool \<Rightarrow> negotiated" where
  "example_negotiated digests = \<lparr>ng_header_digest = digests, ng_data_digest = digests, ng_max_recv = 8192,
     ng_own_max_recv = 262144, ng_initial_r2t = True, ng_immediate_data = False, ng_first_burst = 65536,
     ng_max_burst = 262144, ng_error_recovery = 0, ng_tsih = 1, ng_chap_algorithm = None, ng_chap_challenge = None,
     ng_target_chap_name = None, ng_keys = []\<rparr>"

lemma example_negotiated_simps [simp]:
  "ng_header_digest (example_negotiated digests) = digests" "ng_data_digest (example_negotiated digests) = digests"
  "ng_max_recv (example_negotiated digests) = 8192"
  by (simp_all add: example_negotiated_def)

definition example_session :: "u8 list \<Rightarrow> session" where
  "example_session bs = established \<lparr>tc_in = bs, tc_out = [], tc_accepts = 100000, tc_error = ''connection reset''\<rparr>
     (example_negotiated True) 0 1 32"

definition example_header :: "u8 list" where
  "example_header = set_data_len 5 (nop_out 0 2 no_ttt 0 1)"

definition example_frame :: "u8 list" where
  "example_frame = frame_bytes (sn_negotiated (example_session [])) example_header [1, 2, 3, 4, 5]"

theorem frame_round_trip_witness:
  "\<exists>s'. recv (example_session (example_frame @ [9])) = (Inr example_header, s') \<and> sn_rx s' = [1, 2, 3, 4, 5]
    \<and> tc_in (sn_stream s') = [9]"
proof -
  have "length example_header = 48" "data_len example_header = 5"
    by (simp_all add: example_header_def set_data_len_def nop_out_def Let_def data_len_copy)
  then show ?thesis
    using frame_round_trip [of example_header "[1, 2, 3, 4, 5]" "example_session (example_frame @ [9])" "[9]"]
    by (auto simp: example_session_def example_frame_def established_def padded_def rx_capacity_def)
qed

text \<open>
  C10: a write sends exactly the bytes the target asked for. When an R2T stays within the write and the
  target takes data, the session sends the asked range in order, cut at the target's segment size,
  numbered from 0 and marked final at the end; the pieces joined are the range of the buffer. An R2T
  outside the write is refused and nothing is sent.
\<close>

theorem write_data_sent:
  assumes "0 < ng_max_recv (sn_negotiated s)"
    and "length (concat (map (data_out_pdu s data r) [0..<piece_count (ng_max_recv (sn_negotiated s)) (unat (rt_desired r))]))
      \<le> tc_accepts (sn_stream s)"
  shows "if len < unat (rt_offset r) + unat (rt_desired r)
    then \<exists>e. send_write data len r s = (Inl (Err e), s)
    else \<exists>s'. send_write data len r s = (Inr (), s')
      \<and> tc_out (sn_stream s') = tc_out (sn_stream s)
          @ concat (map (data_out_pdu s data r) [0..<piece_count (ng_max_recv (sn_negotiated s)) (unat (rt_desired r))])
      \<and> concat (map (\<lambda>k. slice (unat (rt_offset r) + k * ng_max_recv (sn_negotiated s))
            (min (ng_max_recv (sn_negotiated s)) (unat (rt_desired r) - k * ng_max_recv (sn_negotiated s))) data)
          [0..<piece_count (ng_max_recv (sn_negotiated s)) (unat (rt_desired r))])
        = slice (unat (rt_offset r)) (unat (rt_desired r)) data"
  using send_loop_sends [OF refl assms(1) refl refl refl, where k = 0 and t = s and data = data and r = r]
    assms pieces_cover [OF assms(1)]
  by (auto simp: send_write_def Let_def)

theorem write_data_sent_witness:
  "\<exists>s'. send_write (replicate 100 7) 100 \<lparr>rt_itt = 1, rt_ttt = 2, rt_seq = sequence_of [], rt_r2t_sn = 0,
      rt_offset = 10, rt_desired = 20\<rparr> (example_session []) = (Inr (), s')"
proof -
  let ?r = "\<lparr>rt_itt = 1, rt_ttt = 2, rt_seq = sequence_of [], rt_r2t_sn = 0, rt_offset = 10, rt_desired = 20\<rparr>"
  have "length (concat (map (data_out_pdu (example_session []) (replicate 100 7) ?r) [0..<piece_count 8192 20])) \<le> 100000"
    by (simp add: piece_count_def data_out_pdu_def Let_def example_session_def established_def frame_bytes_def padded_def)
  then show ?thesis
    using write_data_sent [of "example_session []" "replicate 100 7" ?r 100]
    by (simp add: example_session_def established_def) blast
qed

text \<open>
  Waiting for a command writes only where it may. When every buffer in flight is as long as its
  command, \<open>poll\<close>, whatever the target sends and whether it succeeds or not, keeps the length of every
  buffer and changes only buffers of reads in flight: no buffer of a write or of another caller.
\<close>

theorem poll_writes_only_reads:
  assumes "poll s m = (x, s', m')"
    and "\<forall>i\<in>set (sn_inflight s). if_buf i < length m \<and> if_len i \<le> length (m ! if_buf i)"
  shows "map length m' = map length m
    \<and> (\<forall>b < length m. (\<forall>i\<in>set (sn_inflight s). if_buf i = b \<longrightarrow> if_write i) \<longrightarrow> m' ! b = m ! b)"
  using poll_memory [OF assms(1)] assms(2) by (fastforce simp: buffers_fit_def only_reads_def buffer_keys_def)

definition example_data_in :: "u8 list" where
  "example_data_in = copy_at 16 (to_be_bytes (3 :: u32)) (copy_at 5 (len24 4) (empty_bhs[0 := op_data_in, 1 := 0x81]))"

definition example_reading :: session where
  "example_reading = (example_session (example_data_in @ [1, 2, 3, 4]))\<lparr>sn_negotiated := example_negotiated False,
     sn_inflight := [\<lparr>if_itt = 3, if_tag = 7, if_buf = 0, if_len = 4,
       if_received = 0, if_write = False, if_status = None, if_sense = []\<rparr>]\<rparr>"

lemma example_data_in_simps:
  "length example_data_in = 48" "data_len example_data_in = 4" "be32 example_data_in 16 = 3" "be32 example_data_in 40 = 0"
  "opcode example_data_in = op_data_in" "example_data_in ! Suc 0 = 0x81"
proof -
  have "be32 (empty_bhs[0 := op_data_in, 1 := 0x81]) 40 = 0"
    by (simp add: be32_def slice_list_update_other)
      (simp add: slice_def empty_bhs_def bhs_len_def from_be_bytes_def numeral_eq_Suc)
  then show "be32 example_data_in 40 = 0" by (simp add: example_data_in_def header_simps)
  show "length example_data_in = 48" "data_len example_data_in = 4" "be32 example_data_in 16 = 3"
    "opcode example_data_in = op_data_in" "example_data_in ! Suc 0 = 0x81"
    by (simp_all add: example_data_in_def header_simps opcode_def op_data_in_def)
qed

theorem poll_writes_only_reads_witness:
  "\<exists>dn s' m'. poll example_reading [[0, 0, 0, 0], [5]] = (Inr dn, s', m') \<and> dn_tag dn = 7 \<and> m' ! 0 = [1, 2, 3, 4]
    \<and> m' ! 1 = [5]"
proof -
  have "frame_bytes (sn_negotiated example_reading) example_data_in [1, 2, 3, 4] @ [] = tc_in (sn_stream example_reading)"
    by (simp add: example_reading_def frame_bytes_def pad4_def padded_def example_session_def established_def)
  with frame_round_trip [of example_data_in "[1, 2, 3, 4]" example_reading "[]"] obtain t where
    t: "recv example_reading = (Inr example_data_in, t)" "sn_rx t = [1, 2, 3, 4]" "sn_inflight t = sn_inflight example_reading"
    by (auto simp: example_data_in_simps padded_def rx_capacity_def)
  have inf: "sn_inflight t = [\<lparr>if_itt = 3, if_tag = 7, if_buf = 0, if_len = 4, if_received = 0, if_write = False,
      if_status = None, if_sense = []\<rparr>]" by (simp add: t(3) example_reading_def)
  obtain dn s' m' where p: "poll example_reading [[0, 0, 0, 0], [5]] = (Inr dn, s', m')" "dn_tag dn = 7" "m' ! 0 = [1, 2, 3, 4]"
    by (simp add: poll.simps [of example_reading] t(1,2) inf poll_pdu_def poll_data_in_def find_task_def
        example_data_in_simps observe_def Let_def copy_at_def)
  have "\<forall>i\<in>set (sn_inflight example_reading). if_buf i < length [[0, 0, 0, 0], [5 :: u8]]
      \<and> if_len i \<le> length ([[0, 0, 0, 0], [5 :: u8]] ! if_buf i)" by (simp add: example_reading_def)
  from poll_writes_only_reads [OF p(1) this] have "m' ! 1 = [[0, 0, 0, 0], [5]] ! 1"
    by (simp add: example_reading_def)
  with p show ?thesis by auto
qed

end
