(* ===== verification/Chap.thy ===== *)
theory Chap
  imports Pdu
begin

text \<open>
  \<open>src/rust/src/iscsi/chap.rs\<close>: the digests CHAP uses (MD5, SHA-1, SHA-256 and SHA3-256) at their word
  widths, the CHAP response, and the two text forms of a binary value, \<open>0x\<close> hex and \<open>0b\<close> Base64. Arrays the
  code updates in place are lists with indexed updates, and each loop is a fold over the indices it runs
  over. The lemmas show that the padding makes whole blocks and determines the message, that every digest
  has its length, and that a binary value in either form decodes to itself.
\<close>

unbundle bit_operations_syntax

section \<open>Padding\<close>

text \<open>\<open>while message.len() % 64 != 56 { message.push(0) }\<close>, and the SHA-3 loop with its rate.\<close>

function pad_56 :: "u8 list \<Rightarrow> u8 list" where
  "pad_56 m = (if length m mod 64 = 56 then m else pad_56 (m @ [0]))"
  by pat_completeness auto

termination
proof (relation "measure (\<lambda>m. if length m mod 64 \<le> 56 then 56 - length m mod 64 else 120 - length m mod 64)")
  fix m :: "u8 list" assume "length m mod 64 \<noteq> 56"
  moreover have "length m mod 64 < 64" by simp
  ultimately show "(m @ [0], m) \<in> measure (\<lambda>m. if length m mod 64 \<le> 56 then 56 - length m mod 64 else 120 - length m mod 64)"
    by (auto simp: mod_Suc)
qed simp

definition rate :: nat where
  "rate = 136"

function pad_rate :: "u8 list \<Rightarrow> u8 list" where
  "pad_rate m = (if length m mod rate = 0 then m else pad_rate (m @ [0]))"
  by pat_completeness auto

termination
proof (relation "measure (\<lambda>m. (136 - length m mod 136) mod 136)")
  fix m :: "u8 list" assume "length m mod rate \<noteq> 0"
  moreover have "length m mod 136 < 136" by simp
  ultimately show "(m @ [0], m) \<in> measure (\<lambda>m. (136 - length m mod 136) mod 136)"
    by (auto simp: mod_Suc rate_def)
qed simp

declare pad_56.simps [simp del] pad_rate.simps [simp del]

section \<open>SHA-256\<close>

definition sha256_k :: "u32 list" where
  "sha256_k =
     [0x428a2f98, 0x71374491, 0xb5c0fbcf, 0xe9b5dba5,
      0x3956c25b, 0x59f111f1, 0x923f82a4, 0xab1c5ed5] @
     [0xd807aa98, 0x12835b01, 0x243185be, 0x550c7dc3,
      0x72be5d74, 0x80deb1fe, 0x9bdc06a7, 0xc19bf174] @
     [0xe49b69c1, 0xefbe4786, 0x0fc19dc6, 0x240ca1cc,
      0x2de92c6f, 0x4a7484aa, 0x5cb0a9dc, 0x76f988da] @
     [0x983e5152, 0xa831c66d, 0xb00327c8, 0xbf597fc7,
      0xc6e00bf3, 0xd5a79147, 0x06ca6351, 0x14292967] @
     [0x27b70a85, 0x2e1b2138, 0x4d2c6dfc, 0x53380d13,
      0x650a7354, 0x766a0abb, 0x81c2c92e, 0x92722c85] @
     [0xa2bfe8a1, 0xa81a664b, 0xc24b8b70, 0xc76c51a3,
      0xd192e819, 0xd6990624, 0xf40e3585, 0x106aa070] @
     [0x19a4c116, 0x1e376c08, 0x2748774c, 0x34b0bcb5,
      0x391c0cb3, 0x4ed8aa4a, 0x5b9cca4f, 0x682e6ff3] @
     [0x748f82ee, 0x78a5636f, 0x84c87814, 0x8cc70208,
      0x90befffa, 0xa4506ceb, 0xbef9a3f7, 0xc67178f2]"

definition sha256_init :: "u32 list" where
  "sha256_init = [0x6a09e667, 0xbb67ae85, 0x3c6ef372, 0xa54ff53a, 0x510e527f, 0x9b05688c, 0x1f83d9ab, 0x5be0cd19]"

definition sha256_message :: "u8 list \<Rightarrow> u8 list" where
  "sha256_message input = pad_56 (input @ [0x80]) @ to_be_bytes (of_nat (length input) * 8 :: u64)"

definition sha256_schedule :: "u8 list \<Rightarrow> u32 list" where
  "sha256_schedule block =
     fold (\<lambda>i w. let s0 = word_rotr 7 (w ! (i - 15)) XOR word_rotr 18 (w ! (i - 15)) XOR drop_bit 3 (w ! (i - 15));
                     s1 = word_rotr 17 (w ! (i - 2)) XOR word_rotr 19 (w ! (i - 2)) XOR drop_bit 10 (w ! (i - 2))
                 in w[i := w ! (i - 16) + s0 + w ! (i - 7) + s1])
       [16..<64] (map from_be_bytes (chunks 4 block) @ replicate 48 0)"

definition sha256_round :: "u32 list \<Rightarrow> nat \<Rightarrow> u32 list \<Rightarrow> u32 list" where
  "sha256_round w i v =
     (let s1 = word_rotr 6 (v ! 4) XOR word_rotr 11 (v ! 4) XOR word_rotr 25 (v ! 4);
          ch = (v ! 4 AND v ! 5) XOR (NOT (v ! 4) AND v ! 6);
          t1 = v ! 7 + s1 + ch + sha256_k ! i + w ! i;
          s0 = word_rotr 2 (v ! 0) XOR word_rotr 13 (v ! 0) XOR word_rotr 22 (v ! 0);
          maj = (v ! 0 AND v ! 1) XOR (v ! 0 AND v ! 2) XOR (v ! 1 AND v ! 2);
          t2 = s0 + maj
      in [t1 + t2, v ! 0, v ! 1, v ! 2, v ! 3 + t1, v ! 4, v ! 5, v ! 6])"

definition sha256_block :: "u8 list \<Rightarrow> u32 list \<Rightarrow> u32 list" where
  "sha256_block block h = map2 (+) h (fold (sha256_round (sha256_schedule block)) [0..<64] h)"

definition sha256 :: "u8 list \<Rightarrow> u8 list" where
  "sha256 input = concat (map to_be_bytes (fold sha256_block (chunks 64 (sha256_message input)) sha256_init))"

section \<open>SHA3-256\<close>

definition keccak_rc :: "u64 list" where
  "keccak_rc = [
     0x0000000000000001, 0x0000000000008082, 0x800000000000808a, 0x8000000080008000,
     0x000000000000808b, 0x0000000080000001, 0x8000000080008081, 0x8000000000008009,
     0x000000000000008a, 0x0000000000000088, 0x0000000080008009, 0x000000008000000a,
     0x000000008000808b, 0x800000000000008b, 0x8000000000008089, 0x8000000000008003,
     0x8000000000008002, 0x8000000000000080, 0x000000000000800a, 0x800000008000000a,
     0x8000000080008081, 0x8000000000008080, 0x0000000080000001, 0x8000000080008008]"

definition keccak_rot :: "nat list list" where
  "keccak_rot = [[0, 36, 3, 41, 18], [1, 44, 10, 45, 2], [62, 6, 43, 15, 61], [28, 55, 25, 21, 56], [27, 20, 39, 8, 14]]"

text \<open>The two nested loops over \<open>x\<close> and \<open>y\<close>.\<close>

definition for_xy :: "(nat \<Rightarrow> nat \<Rightarrow> 'a \<Rightarrow> 'a) \<Rightarrow> 'a \<Rightarrow> 'a" where
  "for_xy f = fold (\<lambda>(x, y). f x y) (List.product [0..<5] [0..<5])"

definition keccak_round :: "u64 \<Rightarrow> u64 list \<Rightarrow> u64 list" where
  "keccak_round rc a =
     (let c = map (\<lambda>x. a ! x XOR a ! (x + 5) XOR a ! (x + 10) XOR a ! (x + 15) XOR a ! (x + 20)) [0..<5];
          a = for_xy (\<lambda>x y a. a[x + 5 * y := a ! (x + 5 * y) XOR
                (c ! ((x + 4) mod 5) XOR word_rotl 1 (c ! ((x + 1) mod 5)))]) a;
          b = for_xy (\<lambda>x y b. b[y + 5 * ((2 * x + 3 * y) mod 5) :=
                word_rotl (keccak_rot ! x ! y) (a ! (x + 5 * y))]) (replicate 25 0);
          a = for_xy (\<lambda>x y a. a[x + 5 * y := b ! (x + 5 * y) XOR
                (NOT (b ! ((x + 1) mod 5 + 5 * y)) AND b ! ((x + 2) mod 5 + 5 * y))]) a
      in a[0 := a ! 0 XOR rc])"

definition keccak_f :: "u64 list \<Rightarrow> u64 list" where
  "keccak_f a = fold keccak_round keccak_rc a"

definition sha3_message :: "u8 list \<Rightarrow> u8 list" where
  "sha3_message input =
     (let m = pad_rate (input @ [0x06]) in m[length m - 1 := last m OR 0x80])"

definition sha3_absorb :: "u8 list \<Rightarrow> u64 list \<Rightarrow> u64 list" where
  "sha3_absorb block state =
     keccak_f (fold (\<lambda>(i, lane) s. s[i := s ! i XOR from_le_bytes lane]) (enumerate 0 (chunks 8 block)) state)"

definition sha3_256 :: "u8 list \<Rightarrow> u8 list" where
  "sha3_256 input =
     (let state = fold sha3_absorb (chunks rate (sha3_message input)) (replicate 25 0)
      in map (\<lambda>i. ucast (drop_bit (8 * (i mod 8)) (state ! (i div 8)))) [0..<32])"

section \<open>SHA-1\<close>

definition sha1_schedule :: "u8 list \<Rightarrow> u32 list" where
  "sha1_schedule block =
     fold (\<lambda>i w. w[i := word_rotl 1 (w ! (i - 3) XOR w ! (i - 8) XOR w ! (i - 14) XOR w ! (i - 16))])
       [16..<80] (map from_be_bytes (chunks 4 block) @ replicate 64 0)"

definition sha1_round :: "nat \<times> u32 \<Rightarrow> u32 \<times> u32 \<times> u32 \<times> u32 \<times> u32 \<Rightarrow> u32 \<times> u32 \<times> u32 \<times> u32 \<times> u32" where
  "sha1_round = (\<lambda>(i, wi) (a, b, c, d, e).
     let (f, k) =
           (if i div 20 = 0 then ((b AND c) OR (NOT b AND d), 0x5a827999)
            else if i div 20 = 1 then (b XOR c XOR d, 0x6ed9eba1)
            else if i div 20 = 2 then ((b AND c) OR (b AND d) OR (c AND d), 0x8f1bbcdc)
            else (b XOR c XOR d, 0xca62c1d6));
         t = word_rotl 5 a + f + e + k + wi
     in (t, a, word_rotl 30 b, c, d))"

definition sha1_block :: "u8 list \<Rightarrow> u32 list \<Rightarrow> u32 list" where
  "sha1_block block h =
     (let (a, b, c, d, e) =
            fold sha1_round (enumerate 0 (sha1_schedule block)) (h ! 0, h ! 1, h ! 2, h ! 3, h ! 4)
      in map2 (+) h [a, b, c, d, e])"

definition sha1 :: "u8 list \<Rightarrow> u8 list" where
  "sha1 input = concat (map to_be_bytes (fold sha1_block (chunks 64 (sha256_message input))
     [0x67452301, 0xefcdab89, 0x98badcfe, 0x10325476, 0xc3d2e1f0]))"

section \<open>MD5\<close>

definition md5_s :: "nat list" where
  "md5_s = [
     7, 12, 17, 22, 7, 12, 17, 22, 7, 12, 17, 22, 7, 12, 17, 22,
     5, 9, 14, 20, 5, 9, 14, 20, 5, 9, 14, 20, 5, 9, 14, 20,
     4, 11, 16, 23, 4, 11, 16, 23, 4, 11, 16, 23, 4, 11, 16, 23,
     6, 10, 15, 21, 6, 10, 15, 21, 6, 10, 15, 21, 6, 10, 15, 21]"

text \<open>\<open>((i as f64 + 1.0).sin().abs() * 4_294_967_296.0) as u32\<close>, as RFC 1321 lists the values.\<close>

definition md5_k :: "u32 list" where
  "md5_k = [
     0xd76aa478, 0xe8c7b756, 0x242070db, 0xc1bdceee, 0xf57c0faf, 0x4787c62a,
     0xa8304613, 0xfd469501, 0x698098d8, 0x8b44f7af, 0xffff5bb1, 0x895cd7be,
     0x6b901122, 0xfd987193, 0xa679438e, 0x49b40821, 0xf61e2562, 0xc040b340,
     0x265e5a51, 0xe9b6c7aa, 0xd62f105d, 0x02441453, 0xd8a1e681, 0xe7d3fbc8,
     0x21e1cde6, 0xc33707d6, 0xf4d50d87, 0x455a14ed, 0xa9e3e905, 0xfcefa3f8,
     0x676f02d9, 0x8d2a4c8a, 0xfffa3942, 0x8771f681, 0x6d9d6122, 0xfde5380c,
     0xa4beea44, 0x4bdecfa9, 0xf6bb4b60, 0xbebfbc70, 0x289b7ec6, 0xeaa127fa,
     0xd4ef3085, 0x04881d05, 0xd9d4d039, 0xe6db99e5, 0x1fa27cf8, 0xc4ac5665,
     0xf4292244, 0x432aff97, 0xab9423a7, 0xfc93a039, 0x655b59c3, 0x8f0ccc92,
     0xffeff47d, 0x85845dd1, 0x6fa87e4f, 0xfe2ce6e0, 0xa3014314, 0x4e0811a1,
     0xf7537e82, 0xbd3af235, 0x2ad7d2bb, 0xeb86d391]"

definition md5_message :: "u8 list \<Rightarrow> u8 list" where
  "md5_message input = pad_56 (input @ [0x80]) @ to_le_bytes (of_nat (length input) * 8 :: u64)"

definition md5_round :: "u32 list \<Rightarrow> nat \<Rightarrow> u32 \<times> u32 \<times> u32 \<times> u32 \<Rightarrow> u32 \<times> u32 \<times> u32 \<times> u32" where
  "md5_round m i = (\<lambda>(a, b, c, d).
     let (f, g) =
           (if i div 16 = 0 then ((b AND c) OR (NOT b AND d), i)
            else if i div 16 = 1 then ((d AND b) OR (NOT d AND c), (5 * i + 1) mod 16)
            else if i div 16 = 2 then (b XOR c XOR d, (3 * i + 5) mod 16)
            else (c XOR (b OR NOT d), (7 * i) mod 16));
         f = f + a + md5_k ! i + m ! g
     in (d, b + word_rotl (md5_s ! i) f, b, c))"

definition md5_block :: "u8 list \<Rightarrow> u32 list \<Rightarrow> u32 list" where
  "md5_block block state =
     (let m = map from_le_bytes (chunks 4 block);
          (a, b, c, d) = fold (md5_round m) [0..<64] (state ! 0, state ! 1, state ! 2, state ! 3)
      in [state ! 0 + a, state ! 1 + b, state ! 2 + c, state ! 3 + d])"

definition md5 :: "u8 list \<Rightarrow> u8 list" where
  "md5 input = concat (map to_le_bytes (fold md5_block (chunks 64 (md5_message input))
     [0x67452301, 0xefcdab89, 0x98badcfe, 0x10325476]))"

section \<open>The CHAP response\<close>

definition chap_md5 :: u32 where "chap_md5 = 5"
definition chap_sha1 :: u32 where "chap_sha1 = 6"
definition chap_sha256 :: u32 where "chap_sha256 = 7"
definition chap_sha3_256 :: u32 where "chap_sha3_256 = 8"

lemmas chap_consts = chap_md5_def chap_sha1_def chap_sha256_def chap_sha3_256_def

definition chap_digest :: "u32 \<Rightarrow> u8 \<Rightarrow> u8 list \<Rightarrow> u8 list \<Rightarrow> u8 list option" where
  "chap_digest algorithm identifier secret challenge =
     (let input = [identifier] @ secret @ challenge
      in if algorithm = chap_md5 then Some (md5 input)
         else if algorithm = chap_sha1 then Some (sha1 input)
         else if algorithm = chap_sha256 then Some (sha256 input)
         else if algorithm = chap_sha3_256 then Some (sha3_256 input)
         else None)"

definition encode_hex :: "u8 list \<Rightarrow> string" where
  "encode_hex bytes = ''0x'' @ concat (map hex_byte bytes)"

definition chap_response :: "u32 \<Rightarrow> u8 \<Rightarrow> u8 list \<Rightarrow> u8 list \<Rightarrow> string option" where
  "chap_response algorithm identifier secret challenge =
     map_option encode_hex (chap_digest algorithm identifier secret challenge)"

section \<open>Binary values as text\<close>

definition base64 :: string where
  "base64 = ''ABCDEFGHIJKLMNOPQRSTUVWXYZabcdefghijklmnopqrstuvwxyz0123456789+/''"

definition base64_chunk :: "u8 list \<Rightarrow> string" where
  "base64_chunk chunk =
     (let b1 = (case get chunk 1 of None \<Rightarrow> 0 | Some b \<Rightarrow> b);
          b2 = (case get chunk 2 of None \<Rightarrow> 0 | Some b \<Rightarrow> b);
          n = from_be_bytes [0, chunk ! 0, b1, b2] :: u32
      in map (\<lambda>i. if i \<le> length chunk then base64 ! unat (drop_bit (18 - 6 * i) n AND 63) else CHR ''='') [0..<4])"

definition encode_base64 :: "u8 list \<Rightarrow> string" where
  "encode_base64 bytes = ''0b'' @ concat (map base64_chunk (chunks 3 bytes))"

text \<open>
  \<open>u8::from_str_radix(&digits[i..i + 2], 16)\<close> over a string of even length: slicing inside a character of
  several bytes panics, and a leading plus sign is accepted.
\<close>

definition starts_char :: "string \<Rightarrow> bool" where
  "starts_char s \<longleftrightarrow> s = [] \<or> \<not> continuation (of_char (hd s))"

definition parse_hex_u8 :: "char \<Rightarrow> char \<Rightarrow> u8 option" where
  "parse_hex_u8 c d =
     (if c = CHR ''+'' then map_option of_nat (hex_value d)
      else case (hex_value c, hex_value d) of
        (Some h, Some l) \<Rightarrow> Some (of_nat (16 * h + l))
      | _ \<Rightarrow> None)"

fun decode_hex :: "string \<Rightarrow> string \<Rightarrow> u8 list result" where
  "decode_hex text (c # d # rest) =
     (if \<not> starts_char (c # d # rest) \<or> \<not> starts_char rest then Inl Panic
      else case parse_hex_u8 c d of
        None \<Rightarrow> Inl (Err (''bad hex in '' @ text))
      | Some b \<Rightarrow> and_then (decode_hex text rest) (\<lambda>bs. Inr (b # bs)))"
| "decode_hex text _ = Inr []"

definition position :: "('a \<Rightarrow> bool) \<Rightarrow> 'a list \<Rightarrow> nat option" where
  "position p xs = find (\<lambda>i. p (xs ! i)) [0..<length xs]"

fun decode_base64 :: "string \<Rightarrow> u32 \<Rightarrow> nat \<Rightarrow> string \<Rightarrow> u8 list result" where
  "decode_base64 text bits count [] = Inr []"
| "decode_base64 text bits count (c # cs) =
     (case position (\<lambda>b. b = c) base64 of
        None \<Rightarrow> Inl (Err (''bad Base64 in '' @ text))
      | Some v \<Rightarrow>
          let bits = push_bit 6 bits OR of_nat v; count = count + 6
          in if 8 \<le> count
             then and_then (decode_base64 text bits (count - 8) cs)
                    (\<lambda>bs. Inr (ucast (drop_bit (count - 8) bits) # bs))
             else decode_base64 text bits count cs)"

definition strip_either :: "string \<Rightarrow> string \<Rightarrow> string \<Rightarrow> string option" where
  "strip_either p q s = (case strip_prefix p s of Some t \<Rightarrow> Some t | None \<Rightarrow> strip_prefix q s)"

definition decode_binary :: "string \<Rightarrow> u8 list result" where
  "decode_binary text =
     (case strip_either ''0x'' ''0X'' text of
        Some digits \<Rightarrow> decode_hex text (if length digits mod 2 = 1 then CHR ''0'' # digits else digits)
      | None \<Rightarrow>
          and_then (ok_or (strip_either ''0b'' ''0B'' text) (''CHAP value is neither hex nor Base64: '' @ text))
            (\<lambda>digits. decode_base64 text 0 0 (trim_end_matches (\<lambda>c. c = CHR ''='') digits)))"

text \<open>\<open>random_bytes\<close>: the system's generator, or the clock mixed by xorshift.\<close>

definition xorshift_step :: "u64 \<Rightarrow> u64" where
  "xorshift_step x =
     (let x = x XOR push_bit 13 x; x = x XOR drop_bit 7 x in x XOR push_bit 17 x)"

fun xorshift_bytes :: "nat \<Rightarrow> u64 \<Rightarrow> u8 list" where
  "xorshift_bytes 0 x = []"
| "xorshift_bytes (Suc n) x = (let x = xorshift_step x in ucast x # xorshift_bytes n x)"

definition random_bytes :: "u8 list option \<Rightarrow> u64 \<Rightarrow> nat \<Rightarrow> u8 list" where
  "random_bytes urandom nanos n = (case urandom of Some bytes \<Rightarrow> bytes | None \<Rightarrow> xorshift_bytes n (nanos OR 1))"

section \<open>The padding\<close>

lemma pad_56_eq: "\<exists>k. pad_56 m = m @ replicate k 0 \<and> length (pad_56 m) mod 64 = 56"
proof (induction m rule: pad_56.induct)
  case (1 m)
  show ?case
  proof (cases "length m mod 64 = 56")
    case True
    then show ?thesis by (auto simp: pad_56.simps [of m] intro: exI [of _ 0])
  next
    case False
    then obtain k where "pad_56 (m @ [0]) = m @ [0] @ replicate k 0" "length (pad_56 (m @ [0])) mod 64 = 56"
      using 1 by auto
    with False show ?thesis by (auto simp: pad_56.simps [of m] intro: exI [of _ "Suc k"])
  qed
qed

lemma pad_rate_eq: "\<exists>k. pad_rate m = m @ replicate k 0 \<and> length (pad_rate m) mod rate = 0"
proof (induction m rule: pad_rate.induct)
  case (1 m)
  show ?case
  proof (cases "length m mod rate = 0")
    case True
    then show ?thesis by (auto simp: pad_rate.simps [of m] intro: exI [of _ 0])
  next
    case False
    then obtain k where "pad_rate (m @ [0]) = m @ [0] @ replicate k 0" "length (pad_rate (m @ [0])) mod rate = 0"
      using 1 by auto
    with False show ?thesis by (auto simp: pad_rate.simps [of m] intro: exI [of _ "Suc k"])
  qed
qed

lemma message_blocks: "64 dvd length (sha256_message input)" "64 dvd length (md5_message input)"
  "rate dvd length (sha3_message input)"
proof -
  have "length (pad_56 (input @ [0x80])) mod 64 = 56" using pad_56_eq by blast
  then show "64 dvd length (sha256_message input)" "64 dvd length (md5_message input)"
    by (simp_all add: sha256_message_def md5_message_def mod_eq_0_iff_dvd [symmetric] mod_add_left_eq [symmetric, of _ 8])
  have "length (pad_rate (input @ [0x06])) mod rate = 0" using pad_rate_eq by blast
  then show "rate dvd length (sha3_message input)" by (simp add: sha3_message_def Let_def dvd_eq_mod_eq_0)
qed

lemma length_bits_inject:
  assumes "m < 2 ^ 61" and "n < 2 ^ 61" and "(of_nat m * 8 :: u64) = of_nat n * 8"
  shows "m = n"
proof -
  have "unat (of_nat k * 8 :: u64) = k * 8" if "k < 2 ^ 61" for k
  proof -
    have "k * 8 < 2 ^ LENGTH(64)" using that by simp
    then have "unat (of_nat (k * 8) :: u64) = k * 8" unfolding unat_of_nat by (rule mod_less)
    then show ?thesis by simp
  qed
  then show ?thesis using assms by (metis mult_cancel2 zero_neq_numeral)
qed

lemma pad_56_inject:
  assumes "pad_56 (x @ [0x80]) = pad_56 (y @ [0x80])" and "length x = length y"
  shows "x = y"
  using pad_56_eq [of "x @ [0x80]"] pad_56_eq [of "y @ [0x80]"] assms by auto

lemma message_inject:
  assumes "length x < 2 ^ 61" and "length y < 2 ^ 61"
  shows "sha256_message x = sha256_message y \<longleftrightarrow> x = y" "md5_message x = md5_message y \<longleftrightarrow> x = y"
proof -
  have "sha256_message x = sha256_message y \<Longrightarrow> x = y"
    using length_bits_inject [OF assms] pad_56_inject by (fastforce simp: sha256_message_def append_eq_append_conv)
  then show "sha256_message x = sha256_message y \<longleftrightarrow> x = y" by blast
  have "md5_message x = md5_message y \<Longrightarrow> x = y"
    using length_bits_inject [OF assms] pad_56_inject by (fastforce simp: md5_message_def append_eq_append_conv)
  then show "md5_message x = md5_message y \<longleftrightarrow> x = y" by blast
qed

section \<open>The digests\<close>

lemma fold_keeps: "(\<And>x s. x \<in> set xs \<Longrightarrow> P s \<Longrightarrow> P (f x s)) \<Longrightarrow> P s \<Longrightarrow> P (fold f xs s)"
  by (induction xs arbitrary: s) auto

lemma length_concat_words:
  "length (concat (map to_be_bytes (ws :: u32 list))) = 4 * length ws"
  "length (concat (map to_le_bytes (ws :: u32 list))) = 4 * length ws"
  by (simp_all add: length_concat o_def sum_list_const_mult [symmetric] sum_list_triv)

lemma digest_lengths [simp]:
  "length (md5 input) = 16" "length (sha1 input) = 20" "length (sha256 input) = 32" "length (sha3_256 input) = 32"
proof -
  have "length (fold md5_block bs h) = 4" if "length h = 4" for bs h
    using that by (rule fold_keeps [rotated]) (simp add: md5_block_def Let_def split: prod.splits)
  then show "length (md5 input) = 16" by (simp add: md5_def length_concat_words)
  have "length (fold sha1_block bs h) = 5" if "length h = 5" for bs h
    using that by (rule fold_keeps [rotated]) (simp add: sha1_block_def Let_def split: prod.splits)
  then show "length (sha1 input) = 20" by (simp add: sha1_def length_concat_words)
  have "length (fold (sha256_round w) xs v) = 8" if "length v = 8" for w xs v
    using that by (rule fold_keeps [rotated]) (simp add: sha256_round_def Let_def)
  then have "length (fold sha256_block bs h) = 8" if "length h = 8" for bs h
    using that by (intro fold_keeps [where P = "\<lambda>h. length h = 8"]) (auto simp: sha256_block_def)
  then show "length (sha256 input) = 32" by (simp add: sha256_def length_concat_words sha256_init_def)
  show "length (sha3_256 input) = 32" by (simp add: sha3_256_def Let_def)
qed

section \<open>Binary values\<close>

lemma position_nth:
  assumes "distinct xs" and "i < length xs"
  shows "position (\<lambda>b. b = xs ! i) xs = Some i"
  using assms by (auto simp: position_def find_Some_iff nth_eq_iff_index_eq)

lemma base64_alphabet: "length base64 = 64" "distinct base64" "CHR ''='' \<notin> set base64"
  by (simp_all add: base64_def)

lemma decode_base64_digit:
  "v < 64 \<Longrightarrow> decode_base64 text bits count (base64 ! v # cs) =
     (let bits = push_bit 6 bits OR of_nat v; count = count + 6
      in if 8 \<le> count
         then and_then (decode_base64 text bits (count - 8) cs)
                (\<lambda>bs. Inr (ucast (drop_bit (count - 8) bits) # bs))
         else decode_base64 text bits count cs)"
  by (simp add: position_nth base64_alphabet)

declare decode_base64.simps(2) [simp del]

lemma digit_less: "unat (w AND 63 :: u32) < 64"
proof -
  have "w AND 63 \<le> 63" by (rule word_and_le1)
  then have "unat (w AND 63) \<le> unat (63 :: u32)" by (simp only: word_le_nat_alt)
  then show ?thesis by simp
qed

lemma and_63: "w AND 63 = take_bit 6 (w :: u32)"
  by (simp add: take_bit_eq_mask mask_eq_exp_minus_1)

lemma byte_eqI:
  assumes "\<And>n. n \<in> {0, 1, 2, 3, 4, 5, 6, 7} \<Longrightarrow> bit (x :: u8) n = bit y n"
  shows "x = y"
proof (rule bit_word_eqI)
  fix n assume "n < LENGTH(8)"
  then have "n \<in> {0, 1, 2, 3, 4, 5, 6, 7}" by auto
  then show "bit x n = bit y n" by (rule assms)
qed

lemma bit_high: "8 \<le> n \<Longrightarrow> \<not> bit (x :: u8) n"
  using bit_imp_le_length [of x n] by auto

lemma and_then_assoc: "and_then (and_then r f) g = and_then r (\<lambda>x. and_then (f x) g)"
  by (cases r) auto

lemma chunk_bytes:
  fixes bits :: u32 and a b c :: u8
  defines "n \<equiv> from_be_bytes [0, a, b, c]"
  defines "b2 \<equiv> push_bit 6 (push_bit 6 bits OR (drop_bit 18 n AND 63)) OR (drop_bit 12 n AND 63)"
  shows "ucast (drop_bit 4 b2) = a"
    and "ucast (drop_bit 2 (push_bit 6 b2 OR (drop_bit 6 n AND 63))) = b"
    and "ucast (push_bit 6 (push_bit 6 b2 OR (drop_bit 6 n AND 63)) OR (n AND 63)) = c"
  unfolding b2_def n_def and_63
  by (rule byte_eqI, elim insertE emptyE; simp add: from_be_bytes_def bit_simps bit_high)+

lemma decode_digits:
  fixes bits w0 w1 w2 w3 :: u32
  defines "b2 \<equiv> push_bit 6 (push_bit 6 bits OR (w0 AND 63)) OR (w1 AND 63)"
  defines "b3 \<equiv> push_bit 6 b2 OR (w2 AND 63)"
  shows "decode_base64 text bits 0 (base64 ! unat (w0 AND 63) # base64 ! unat (w1 AND 63) # cs) =
      and_then (decode_base64 text b2 4 cs) (\<lambda>bs. Inr (ucast (drop_bit 4 b2) # bs))"
    and "decode_base64 text b2 4 (base64 ! unat (w2 AND 63) # cs) =
      and_then (decode_base64 text b3 2 cs) (\<lambda>bs. Inr (ucast (drop_bit 2 b3) # bs))"
    and "decode_base64 text b3 2 (base64 ! unat (w3 AND 63) # cs) =
      and_then (decode_base64 text (push_bit 6 b3 OR (w3 AND 63)) 0 cs)
        (\<lambda>bs. Inr (ucast (push_bit 6 b3 OR (w3 AND 63)) # bs))"
  unfolding b2_def b3_def by (simp_all add: decode_base64_digit digit_less Let_def)

text \<open>A whole chunk, and the last one of one or two bytes with the padding removed.\<close>

lemma base64_chunk_digits:
  "base64_chunk [a, b, c] = (let n = from_be_bytes [0, a, b, c] :: u32 in
     [base64 ! unat (drop_bit 18 n AND 63), base64 ! unat (drop_bit 12 n AND 63), base64 ! unat (drop_bit 6 n AND 63),
      base64 ! unat (n AND 63)])"
  "base64_chunk [a, b] = (let n = from_be_bytes [0, a, b, 0] :: u32 in
     [base64 ! unat (drop_bit 18 n AND 63), base64 ! unat (drop_bit 12 n AND 63), base64 ! unat (drop_bit 6 n AND 63),
      CHR ''=''])"
  "base64_chunk [a] = (let n = from_be_bytes [0, a, 0, 0] :: u32 in
     [base64 ! unat (drop_bit 18 n AND 63), base64 ! unat (drop_bit 12 n AND 63), CHR ''='', CHR ''=''])"
  by (simp_all add: base64_chunk_def get_def Let_def upt_conv_Cons)

lemma take_digits: "take 3 [w, x, y, z] = [w, x, y]" "take 2 [w, x, y, z] = [w, x]"
  by simp_all

lemma decode_chunk:
  "\<exists>bits'. decode_base64 text bits 0 (base64_chunk [a, b, c] @ cs) =
     and_then (decode_base64 text bits' 0 cs) (\<lambda>bs. Inr (a # b # c # bs))"
  "decode_base64 text bits 0 (take 3 (base64_chunk [a, b])) = Inr [a, b]"
  "decode_base64 text bits 0 (take 2 (base64_chunk [a])) = Inr [a]"
  by (auto simp only: base64_chunk_digits Let_def append_Cons append_Nil take_digits decode_digits chunk_bytes
    and_then_assoc and_then_Inr decode_base64.simps(1))

text \<open>The digits of an encoding, without the padding.\<close>

fun base64_body :: "u8 list \<Rightarrow> string" where
  "base64_body (a # b # c # rest) = base64_chunk [a, b, c] @ base64_body rest"
| "base64_body [a, b] = take 3 (base64_chunk [a, b])"
| "base64_body [a] = take 2 (base64_chunk [a])"
| "base64_body [] = []"

lemma decode_body: "decode_base64 text bits 0 (base64_body bytes) = Inr bytes"
proof (induction bytes arbitrary: bits rule: base64_body.induct)
  case (1 a b c rest)
  obtain bits' where "decode_base64 text bits 0 (base64_chunk [a, b, c] @ base64_body rest) =
      and_then (decode_base64 text bits' 0 (base64_body rest)) (\<lambda>bs. Inr (a # b # c # bs))"
    using decode_chunk(1) by blast
  then show ?case using 1 by simp
qed (simp_all add: decode_chunk)

lemma digit_in_base64: "base64 ! unat (w AND 63 :: u32) \<in> set base64"
  using digit_less [of w] base64_alphabet(1) by (auto intro: nth_mem)

lemma base64_body_chars: "set (base64_body bytes) \<subseteq> set base64"
  by (induction bytes rule: base64_body.induct) (auto simp: base64_chunk_digits Let_def digit_in_base64)

lemma encode_base64_body: "\<exists>k. concat (map base64_chunk (chunks 3 bytes)) = base64_body bytes @ replicate k (CHR ''='')"
proof (induction bytes rule: base64_body.induct)
  case (1 a b c rest)
  then show ?case by (simp add: chunks_Cons)
next
  case (2 a b)
  show ?case by (rule exI [of _ 1]) (simp add: chunks_Cons base64_chunk_digits Let_def)
next
  case (3 a)
  show ?case by (rule exI [of _ 2]) (simp add: chunks_Cons base64_chunk_digits Let_def numeral_2_eq_2)
qed simp

lemma trim_end_replicate:
  assumes "c \<notin> set s"
  shows "trim_end_matches (\<lambda>x. x = c) (s @ replicate k c) = s"
proof -
  have "dropWhile (\<lambda>x. x = c) (replicate k c @ rev s) = rev s"
    using assms by (cases "rev s") (auto simp: dropWhile_append dropWhile_eq_self_iff)
  then show ?thesis by (simp add: trim_end_matches_def)
qed

lemma decode_encode_base64: "decode_binary (encode_base64 bytes) = Inr bytes"
proof -
  obtain k where "concat (map base64_chunk (chunks 3 bytes)) = base64_body bytes @ replicate k (CHR ''='')"
    using encode_base64_body by blast
  moreover have "CHR ''='' \<notin> set (base64_body bytes)" using base64_body_chars base64_alphabet(3) by blast
  ultimately show ?thesis
    by (simp add: decode_binary_def encode_base64_def strip_either_def trim_end_replicate decode_body)
qed

lemma hex_digit_char:
  assumes "d < 16"
  shows "hex_digit d \<noteq> CHR ''+''" "\<not> continuation (of_char (hex_digit d))"
proof -
  have "list_all (\<lambda>d. hex_digit d \<noteq> CHR ''+'' \<and> \<not> continuation (of_char (hex_digit d))) [0..<16]" by code_simp
  then show "hex_digit d \<noteq> CHR ''+''" "\<not> continuation (of_char (hex_digit d))" using assms by (auto simp: list_all_iff)
qed

lemma high_nibble: "unat (b :: u8) div 16 < 16"
proof -
  have "unat b < 2 ^ LENGTH(8)" by (rule unsigned_less)
  then show ?thesis by simp
qed

lemma parse_hex_byte: "parse_hex_u8 (hex_digit (unat b div 16)) (hex_digit (unat b mod 16)) = Some b"
  using high_nibble by (simp add: parse_hex_u8_def hex_digit_char)

lemma starts_char_hex: "starts_char (concat (map hex_byte bytes))"
proof (cases bytes)
  case (Cons b bs)
  then show ?thesis using high_nibble [of b] by (simp add: Cons starts_char_def hex_byte_def hex_digit_char)
qed (simp add: starts_char_def)

lemma decode_hex_bytes: "decode_hex text (concat (map hex_byte bytes)) = Inr bytes"
proof (induction bytes)
  case (Cons b bytes)
  then show ?case
    using starts_char_hex [of "b # bytes"] starts_char_hex [of bytes] by (simp add: hex_byte_def [of b] parse_hex_byte)
qed simp

lemma decode_encode_hex: "decode_binary (encode_hex bytes) = Inr bytes"
proof -
  have "length (concat (map hex_byte bytes)) mod 2 = 0" by (induction bytes) (simp_all add: hex_byte_def)
  then show ?thesis by (simp add: decode_binary_def encode_hex_def strip_either_def decode_hex_bytes)
qed

text \<open>
  \<open>&digits[i..i + 2]\<close> slices by bytes: a value with a character of two bytes at an odd place, here
  \<open>0xa\<close>, U+00E9, \<open>b\<close>, ends the program.
\<close>

lemma hex_inside_char_panics: "decode_binary (''0xa'' @ [CHR 0xC3, CHR 0xA9] @ ''b'') = Inl Panic"
  by code_simp

lemma hex_accepts_plus: "decode_binary ''0x+a'' = Inr [10]"
  by code_simp

section \<open>Known answers\<close>

text \<open>The MD5 rounds on literal words, for the example of RFC 1321 and a second message.\<close>

lemma rotl_int:
  assumes "0 < n" "n < 32"
  shows "word_rotl n (w :: u32) = word_of_int ((uint w div 2 ^ (32 - n)) mod 2 ^ n + 2 ^ n * (uint w mod 2 ^ (32 - n)))"
proof -
  have "uint (take_bit (32 - n) w) = uint w mod 2 ^ (32 - n)"
    by (subst unsigned_take_bit_eq) (simp only: take_bit_eq_mod)
  then have "uint (word_rotl n w) = (uint w div 2 ^ (32 - n)) mod 2 ^ n + 2 ^ n * (uint w mod 2 ^ (32 - n))"
    using assms by (simp add: word_rotl_eq_word_rotr uint_word_rotr_eq concat_bit_eq take_bit_eq_mod [where 'a = int]
      drop_bit_eq_div push_bit_eq_mult)
  then show ?thesis by (metis word_of_int_uint)
qed

definition md5_words :: "u8 list \<Rightarrow> u32 list list" where
  "md5_words input = map (\<lambda>block. map from_le_bytes (chunks 4 block)) (chunks 64 (md5_message input))"

lemma md5_by_words:
  assumes "md5_words input = [m]"
    and "fold (md5_round m) [0..<64] (0x67452301, 0xefcdab89, 0x98badcfe, 0x10325476) = (a, b, c, d)"
  shows "md5 input = concat (map to_le_bytes [0x67452301 + a, 0xefcdab89 + b, 0x98badcfe + c, 0x10325476 + d])"
proof -
  from assms(1) obtain block where "chunks 64 (md5_message input) = [block]" "map from_le_bytes (chunks 4 block) = m"
    by (auto simp: md5_words_def)
  then show ?thesis using assms(2) by (simp add: md5_def md5_block_def Let_def)
qed

lemma pad_56_zeros: "k \<le> 56 \<Longrightarrow> length m mod 64 = 56 - k \<Longrightarrow> pad_56 m = m @ replicate k 0"
proof (induction k arbitrary: m)
  case (Suc k)
  have "length (m @ [0]) mod 64 = 56 - k" using Suc.prems by (auto simp: mod_Suc)
  then have "pad_56 (m @ [0]) = m @ [0] @ replicate k 0" using Suc.IH [of "m @ [0]"] Suc.prems(1) by simp
  then show ?case using Suc.prems by (simp add: pad_56.simps [of m])
qed (simp add: pad_56.simps)

lemma chunks_one: "x \<noteq> [] \<Longrightarrow> length x \<le> n \<Longrightarrow> 0 < n \<Longrightarrow> chunks n x = [x]"
  by (simp add: chunks_Cons)

lemma chunks_word: "chunks 4 (w # x # y # z # rest) = [w, x, y, z] # chunks 4 rest"
  by (simp add: chunks_Cons)

lemma chunks_zeros: "chunks 4 (replicate (4 * k) 0 @ rest) = replicate k [0, 0, 0, 0] @ chunks 4 rest"
proof (induction k)
  case (Suc k)
  have "4 * Suc k = Suc (Suc (Suc (Suc (4 * k))))" by simp
  then show ?case using Suc by (simp only: replicate_Suc append_Cons chunks_word)
qed simp

lemma md5_words_3:
  "md5_words [x, y, z] = [[ucast x OR push_bit 8 (ucast y OR push_bit 8 (ucast z OR 0x8000)),
     0, 0, 0, 0, 0, 0, 0, 0, 0, 0, 0, 0, 0, 24, 0]]"
proof -
  have "md5_message [x, y, z] = [x, y, z, 0x80] @ replicate 52 0 @ [24, 0, 0, 0, 0, 0, 0, 0]"
    using pad_56_zeros [of 52 "[x, y, z, 0x80]"] by (simp add: md5_message_def to_le_bytes_def upt_conv_Cons)
  moreover have "chunks 4 ([x, y, z, 0x80] @ replicate 52 0 @ [24, 0, 0, 0, 0, 0, 0, 0])
      = [x, y, z, 0x80] # replicate 13 [0, 0, 0, 0] @ [[24, 0, 0, 0], [0, 0, 0, 0]]"
    using chunks_zeros [of 13 "[24, 0, 0, 0, 0, 0, 0, 0] :: u8 list"] by (simp add: chunks_word)
  ultimately show ?thesis
    by (simp add: md5_words_def chunks_one) (simp add: numeral_eq_Suc)
qed

lemmas md5_eval = md5_round_def rotl_int md5_k_def md5_s_def Let_def upt_conv_Cons

lemma md5_abc: "md5 [97, 98, 99] = [0x90, 0x01, 0x50, 0x98, 0x3c, 0xd2, 0x4f, 0xb0, 0xd6, 0x96, 0x3f, 0x7d, 0x28, 0xe1, 0x7f, 0x72]"
  by (subst md5_by_words [OF md5_words_3], simp add: md5_eval, simp add: to_le_bytes_def upt_conv_Cons)

lemma md5_axc: "md5 [97, 120, 99] = [0xfc, 0x99, 0x4e, 0x5c, 0x1c, 0x67, 0x75, 0x7d, 0x0d, 0x52, 0xe3, 0xfa, 0xb3, 0xb7, 0x10, 0x8d]"
  by (subst md5_by_words [OF md5_words_3], simp add: md5_eval, simp add: to_le_bytes_def upt_conv_Cons)

section \<open>Properties\<close>

text \<open>
  C37: a CHAP value survives its text form. Whatever the bytes, the hex form and the Base64 form of a value
  decode to the value; and the response the initiator sends decodes to the digest of the chosen algorithm
  over identifier, secret and challenge, of that algorithm's length, for exactly the four algorithms it
  implements.
\<close>

theorem chap_value_round_trip:
  "decode_binary (encode_hex bytes) = Inr bytes \<and> decode_binary (encode_base64 bytes) = Inr bytes
   \<and> (case chap_response algorithm identifier secret challenge of
        None \<Rightarrow> algorithm \<notin> {chap_md5, chap_sha1, chap_sha256, chap_sha3_256}
      | Some text \<Rightarrow> \<exists>d. chap_digest algorithm identifier secret challenge = Some d \<and> decode_binary text = Inr d
          \<and> length d = (if algorithm = chap_md5 then 16 else if algorithm = chap_sha1 then 20 else 32))"
  by (auto simp: decode_encode_hex decode_encode_base64 chap_response_def chap_digest_def Let_def chap_consts)

text \<open>
  Different secrets are hashed as different messages. The padded message of MD5, SHA-1 and SHA-256 is a
  whole number of 64-byte blocks and determines the input, so the responses to one challenge can only
  agree for two secrets of one length by a collision of the block function.
\<close>

theorem padding_injective:
  assumes "length x < 2 ^ 61" and "length y < 2 ^ 61"
  shows "64 dvd length (sha256_message x) \<and> 64 dvd length (md5_message x) \<and> rate dvd length (sha3_message x)
    \<and> (sha256_message x = sha256_message y \<longleftrightarrow> x = y) \<and> (md5_message x = md5_message y \<longleftrightarrow> x = y)"
  using message_blocks message_inject [OF assms] by blast

theorem padding_injective_witness: "sha256_message [1] \<noteq> sha256_message [2] \<and> md5_message [1] \<noteq> md5_message [2]"
  using padding_injective [of "[1]" "[2]"] by simp

end
