(* ===== verification/Login.thy ===== *)
theory Login
  imports Session_Safety Chap
begin

text \<open>
  \<open>src/rust/src/iscsi/login.rs\<close>: bringing a connection to full feature phase. The network is a parameter:
  for an address, a time and the number of the attempt it gives the connection (the bytes that will arrive on
  it and how many it takes) or the error of the system, as \<open>to_socket_addrs\<close> and \<open>connect_timeout\<close> do. The
  security stage with CHAP and mutual CHAP, the operational stage and the negotiated values follow the code
  exchange by exchange. The lemmas show what a login sends, that mutual CHAP accepts only a target that
  knows its secret, and that the segments the initiator declares it takes are the ones it takes.
\<close>

unbundle bit_operations_syntax

section \<open>Keys\<close>

definition default_max_recv :: nat where
  "default_max_recv = 8192"

definition login_cmd_sn :: u32 where
  "login_cmd_sn = 0"

definition max_own_recv :: nat where
  "max_own_recv = 262144"

record session_keys =
  sk_header_digest :: string
  sk_data_digest :: string
  sk_initial_r2t :: bool
  sk_immediate_data :: bool
  sk_first_burst :: nat
  sk_max_burst :: nat
  sk_max_recv :: nat
  sk_error_recovery :: nat
  sk_max_connections :: nat

definition spit_keys :: "string \<Rightarrow> session_keys" where
  "spit_keys digest = \<lparr>sk_header_digest = digest, sk_data_digest = digest, sk_initial_r2t = True,
     sk_immediate_data = False, sk_first_burst = 262144, sk_max_burst = 16776192, sk_max_recv = max_own_recv,
     sk_error_recovery = 0, sk_max_connections = 1\<rparr>"

definition host_writes :: "string \<Rightarrow> session_keys" where
  "host_writes digest = (spit_keys digest)\<lparr>sk_initial_r2t := False, sk_immediate_data := True,
     sk_first_burst := 65536, sk_max_burst := 262144\<rparr>"

definition yes_no :: "bool \<Rightarrow> string" where
  "yes_no b = (if b then ''Yes'' else ''No'')"

definition offer_keys :: "session_keys \<Rightarrow> string \<Rightarrow> string \<Rightarrow> (string \<times> string) list result" where
  "offer_keys k initiator target =
     (if sk_max_recv k < 512 \<or> max_own_recv < sk_max_recv k
      then Inl (Err (''MaxRecvDataSegmentLength '' @ show_nat (sk_max_recv k) @ '' is outside 512..='' @ show_nat max_own_recv))
      else Inr [(''InitiatorName'', initiator), (''TargetName'', target), (''SessionType'', ''Normal''),
        (''HeaderDigest'', sk_header_digest k), (''DataDigest'', sk_data_digest k), (''DefaultTime2Wait'', ''2''),
        (''DefaultTime2Retain'', ''0''), (''IFMarker'', ''No''), (''OFMarker'', ''No''),
        (''ErrorRecoveryLevel'', show_nat (sk_error_recovery k)), (''InitialR2T'', yes_no (sk_initial_r2t k)),
        (''ImmediateData'', yes_no (sk_immediate_data k)), (''MaxBurstLength'', show_nat (sk_max_burst k)),
        (''FirstBurstLength'', show_nat (sk_first_burst k)), (''MaxOutstandingR2T'', ''1''),
        (''MaxConnections'', show_nat (sk_max_connections k)), (''DataPDUInOrder'', ''Yes''),
        (''DataSequenceInOrder'', ''Yes''), (''MaxRecvDataSegmentLength'', show_nat (sk_max_recv k))])"

record mutual =
  mu_secret :: "u8 list"
  mu_identifier :: u8
  mu_challenge :: "u8 list"
  mu_base64 :: bool

record plan =
  pn_isid :: "u8 list"
  pn_chap :: "(string \<times> u8 list) option"
  pn_chap_offer :: string
  pn_mutual :: "mutual option"
  pn_keys :: "(string \<times> string) list"

text \<open>What logging in gives: the connection and the numbers of the last login response.\<close>

record connected =
  cn_stream :: tcp
  cn_negotiated :: negotiated
  cn_cmd_sn :: u32
  cn_exp_stat_sn :: u32
  cn_max_cmd_sn :: u32

definition session_of :: "connected \<Rightarrow> session" where
  "session_of c = established (cn_stream c) (cn_negotiated c) (cn_cmd_sn c) (cn_exp_stat_sn c) (cn_max_cmd_sn c)"

section \<open>Addresses and names\<close>

fun contains :: "string \<Rightarrow> string \<Rightarrow> bool" where
  "contains needle [] \<longleftrightarrow> needle = []"
| "contains needle (c # cs) \<longleftrightarrow> strip_prefix needle (c # cs) \<noteq> None \<or> contains needle cs"

definition with_port :: "string \<Rightarrow> string" where
  "with_port portal =
     (if strip_prefix ''['' portal \<noteq> None then
        if contains '']:'' portal then portal else portal @ '':3260''
      else let colons = length (filter (\<lambda>c. c = CHR '':'') portal)
           in if colons = 0 then portal @ '':3260''
              else if colons = 1 then portal
              else ''['' @ portal @ '']:3260'')"

definition random_isid :: "nat \<Rightarrow> u32 \<Rightarrow> u8 list" where
  "random_isid nanos pid =
     (let x = of_nat nanos XOR push_bit 32 (ucast pid) XOR 0x9E3779B97F4A7C15;
          out = xorshift_bytes 6 x
      in out[0 := 0x80 OR (out ! 0 AND 0x3f)])"

definition refused_meaning :: "u8 \<times> u8 \<Rightarrow> string" where
  "refused_meaning status =
     (let (cls, detail) = status
      in if cls = 2 \<and> detail = 1 then ''authentication failure''
         else if cls = 2 \<and> detail = 2 then ''authorization failure''
         else if cls = 2 \<and> detail = 3 then ''target not found''
         else if cls = 2 \<and> detail = 7 then ''missing parameter''
         else if cls = 2 then ''initiator error''
         else if cls = 1 then ''redirect''
         else if cls = 3 then ''target error''
         else ''unknown'')"

definition refused :: "u8 \<times> u8 \<Rightarrow> string" where
  "refused status = ''login refused: status class '' @ show_nat (unat (fst status)) @ '' detail ''
     @ show_nat (unat (snd status)) @ '' ('' @ refused_meaning status @ '')''"

definition value_of :: "(string \<times> string) list \<Rightarrow> string \<Rightarrow> string option" where
  "value_of text key = map_option snd (find (\<lambda>(k, _). k = key) text)"

section \<open>One exchange\<close>

definition read_login_pdu :: "tcp \<Rightarrow> u8 list result \<times> tcp" where
  "read_login_pdu stream =
     sthen (apfst (map_err ''reading login response header: '') (read_exact bhs_len stream)) (\<lambda>bhs stream.
     sthen (apfst (map_err ''reading login response data: '') (read_exact (padded (data_len bhs)) stream))
       (\<lambda>data stream. (Inr (bhs @ data), stream)))"

definition exchange :: "login_request \<Rightarrow> tcp \<Rightarrow> (login_response \<times> u8 list) result \<times> tcp" where
  "exchange q stream =
     sthen (login_encode q, stream) (\<lambda>pdu stream.
     sthen (apfst (map_err ''sending login request: '') (write_all pdu stream)) (\<lambda>_ stream.
     sthen (read_login_pdu stream) (\<lambda>raw stream.
     sthen (login_decode raw, stream) (\<lambda>p stream.
       if lp_itt p \<noteq> lq_itt q
       then (Inl (Err (''login response has task tag '' @ show_nat (unat (lp_itt p)) @ '' for request ''
               @ show_nat (unat (lq_itt q)))), stream)
       else if lp_status p \<noteq> (0, 0) then (Inl (Err (refused (lp_status p))), stream)
       else (Inr (p, raw), stream)))))"

section \<open>The security stage\<close>

definition login_pdu :: "plan \<Rightarrow> u32 \<Rightarrow> stage \<Rightarrow> stage \<Rightarrow> bool \<Rightarrow> (string \<times> string) list \<Rightarrow> login_request" where
  "login_pdu plan exp_stat_sn cur nxt t text = \<lparr>lq_isid = pn_isid plan, lq_tsih = 0, lq_cid = 0, lq_itt = login_itt,
     lq_cmd_sn = login_cmd_sn, lq_exp_stat_sn = exp_stat_sn, lq_current = cur, lq_next = nxt, lq_transit = t,
     lq_text = text\<rparr>"

definition check_mutual :: "u32 \<Rightarrow> u8 list \<Rightarrow> mutual \<Rightarrow> (string \<times> string) list \<Rightarrow> string result" where
  "check_mutual algorithm own_secret m text =
     and_then (ok_or (value_of text ''CHAP_N'') ''mutual CHAP: the target sent no CHAP_N'') (\<lambda>name.
     and_then (and_then (ok_or (value_of text ''CHAP_R'') ''mutual CHAP: the target sent no CHAP_R'') decode_binary) (\<lambda>got.
     and_then (ok_or (chap_digest algorithm (mu_identifier m) (mu_secret m) (mu_challenge m))
                 ''mutual CHAP: algorithm not implemented'') (\<lambda>want.
       if chap_digest algorithm (mu_identifier m) own_secret (mu_challenge m) = Some got
       then Inl (Err (''mutual CHAP: the target answered with the initiator'' @ [CHR 39] @ ''s own secret''))
       else if got \<noteq> want
       then Inl (Err (''mutual CHAP: the target'' @ [CHR 39] @ ''s CHAP_R is wrong ('' @ show_nat (length got) @ '' bytes)''))
       else Inr name)))"

definition chap_text :: "string \<Rightarrow> string \<Rightarrow> mutual option \<Rightarrow> (string \<times> string) list" where
  "chap_text user answer mutual =
     [(''CHAP_N'', user), (''CHAP_R'', answer)]
     @ (case mutual of
          None \<Rightarrow> []
        | Some m \<Rightarrow> [(''CHAP_I'', show_nat (unat (mu_identifier m))),
            (''CHAP_C'', if mu_base64 m then encode_base64 (mu_challenge m) else encode_hex (mu_challenge m))])"

text \<open>The values of the challenge: identifier, challenge and algorithm.\<close>

definition read_challenge :: "(string \<times> string) list \<Rightarrow> (u8 \<times> u8 list \<times> u32) result" where
  "read_challenge text =
     and_then (ok_or (Option.bind (value_of text ''CHAP_I'') (parse_uint 8)) ''target did not send CHAP_I'') (\<lambda>identifier.
     and_then (and_then (ok_or (value_of text ''CHAP_C'') ''target did not send CHAP_C'') decode_binary) (\<lambda>challenge.
     and_then (ok_or (Option.bind (value_of text ''CHAP_A'') (parse_uint 32)) ''target did not choose a CHAP algorithm'')
       (\<lambda>algorithm. Inr (of_nat identifier, challenge, of_nat algorithm))))"

record chapped =
  ch_exp_stat_sn :: u32
  ch_algorithm :: "u32 option"
  ch_challenge :: "u8 list option"
  ch_target_name :: "string option"

definition security_stage ::
  "string \<Rightarrow> string \<Rightarrow> plan \<Rightarrow> string \<times> u8 list \<Rightarrow> tcp \<Rightarrow> chapped result \<times> tcp" where
  "security_stage target initiator plan chap stream =
     (let (user, secret) = chap
      in sthen (exchange (login_pdu plan 0 Security Security False [(''InitiatorName'', initiator), (''TargetName'', target),
             (''SessionType'', ''Normal''), (''AuthMethod'', ''CHAP'')]) stream) (\<lambda>(r1, _) stream.
         sthen (exchange (login_pdu plan (lp_stat_sn r1 + 1) Security Security False [(''CHAP_A'', pn_chap_offer plan)]) stream)
           (\<lambda>(r2, _) stream.
         sthen (read_challenge (lp_text r2), stream) (\<lambda>(identifier, challenge, algorithm) stream.
         sthen (ok_or (chap_response algorithm identifier secret challenge)
             (''target chose CHAP_A '' @ show_nat (unat algorithm) @ '', which this initiator does not implement''), stream)
           (\<lambda>answer stream.
         sthen (exchange (login_pdu plan (lp_stat_sn r2 + 1) Security Operational True
             (chap_text user answer (pn_mutual plan))) stream) (\<lambda>(r3, _) stream.
         sthen (case pn_mutual plan of
                  None \<Rightarrow> Inr None
                | Some m \<Rightarrow> and_then (check_mutual algorithm secret m (lp_text r3)) (\<lambda>name. Inr (Some name)), stream)
           (\<lambda>name stream.
         if \<not> lp_transit r3 then (Inl (Err ''target did not accept CHAP and stay in the security stage''), stream)
         else (Inr \<lparr>ch_exp_stat_sn = lp_stat_sn r3 + 1, ch_algorithm = Some algorithm, ch_challenge = Some challenge,
                ch_target_name = name\<rparr>, stream))))))))"

section \<open>The operational stage\<close>

definition negotiated_immediate :: "(string \<times> string) list \<Rightarrow> (string \<times> string) list \<Rightarrow> bool" where
  "negotiated_immediate offered answered \<longleftrightarrow>
     value_of offered ''ImmediateData'' = Some ''Yes'' \<and> value_of answered ''ImmediateData'' = Some ''Yes''"

definition negotiated_length :: "(string \<times> string) list \<Rightarrow> (string \<times> string) list \<Rightarrow> string \<Rightarrow> nat \<Rightarrow> nat" where
  "negotiated_length offered answered key dflt =
     (case Option.bind (case value_of answered key of Some v \<Rightarrow> Some v | None \<Rightarrow> value_of offered key) (parse_uint 64) of
        Some n \<Rightarrow> n
      | None \<Rightarrow> dflt)"

definition declared_max_recv :: "(string \<times> string) list \<Rightarrow> nat result" where
  "declared_max_recv text =
     (case value_of text ''MaxRecvDataSegmentLength'' of
        Some v \<Rightarrow> ok_or (parse_uint 64 v) (''target declared MaxRecvDataSegmentLength='' @ v)
      | None \<Rightarrow> Inr default_max_recv)"

definition own_max_recv :: "(string \<times> string) list \<Rightarrow> nat" where
  "own_max_recv keys =
     (case Option.bind (value_of keys ''MaxRecvDataSegmentLength'') (parse_uint 64) of
        Some n \<Rightarrow> n
      | None \<Rightarrow> default_max_recv)"

definition operational_stage :: "plan \<Rightarrow> chapped \<Rightarrow> tcp \<Rightarrow> connected result \<times> tcp" where
  "operational_stage plan ch stream =
     sthen (exchange (login_pdu plan (ch_exp_stat_sn ch) Operational FullFeature True (pn_keys plan)) stream)
       (\<lambda>(p, raw) stream.
     if \<not> lp_transit p \<or> lp_next p \<noteq> stage_code FullFeature
     then (Inl (Err ''target did not reach full feature phase''), stream)
     else if lp_tsih p = 0 then (Inl (Err ''target did not assign a session handle''), stream)
     else sthen (declared_max_recv (lp_text p), stream) (\<lambda>max_recv stream.
       (Inr \<lparr>cn_stream = stream,
          cn_negotiated = \<lparr>ng_header_digest = (value_of (lp_text p) ''HeaderDigest'' = Some ''CRC32C''),
            ng_data_digest = (value_of (lp_text p) ''DataDigest'' = Some ''CRC32C''), ng_max_recv = max_recv,
            ng_own_max_recv = own_max_recv (pn_keys plan),
            ng_initial_r2t = (value_of (lp_text p) ''InitialR2T'' \<noteq> Some ''No''),
            ng_immediate_data = negotiated_immediate (pn_keys plan) (lp_text p),
            ng_first_burst = negotiated_length (pn_keys plan) (lp_text p) ''FirstBurstLength'' 65536,
            ng_max_burst = negotiated_length (pn_keys plan) (lp_text p) ''MaxBurstLength'' 262144,
            ng_error_recovery = (case Option.bind (value_of (lp_text p) ''ErrorRecoveryLevel'') (parse_uint 8) of
               Some n \<Rightarrow> n | None \<Rightarrow> 0),
            ng_tsih = lp_tsih p, ng_chap_algorithm = ch_algorithm ch, ng_chap_challenge = ch_challenge ch,
            ng_target_chap_name = ch_target_name ch, ng_keys = lp_text p\<rparr>,
          cn_cmd_sn = sq_exp_cmd_sn (sequence_of raw), cn_exp_stat_sn = lp_stat_sn p + 1,
          cn_max_cmd_sn = sq_max_cmd_sn (sequence_of raw)\<rparr>, stream)))"

section \<open>Logging in\<close>

type_synonym network = "string \<Rightarrow> nat \<Rightarrow> nat \<Rightarrow> tcp result"

definition connect_stream :: "network \<Rightarrow> nat \<Rightarrow> nat \<Rightarrow> string \<Rightarrow> tcp result" where
  "connect_stream net now attempt portal = net (with_port portal) now attempt"

text \<open>\<open>establish\<close> on the connection it made, which is dropped when the login fails.\<close>

definition login_phase :: "string \<Rightarrow> string \<Rightarrow> plan \<Rightarrow> tcp \<Rightarrow> connected result \<times> tcp" where
  "login_phase target initiator plan stream =
     (case pn_chap plan of
        None \<Rightarrow> operational_stage plan
          \<lparr>ch_exp_stat_sn = 0, ch_algorithm = None, ch_challenge = None, ch_target_name = None\<rparr> stream
      | Some chap \<Rightarrow> sthen (security_stage target initiator plan chap stream) (\<lambda>ch stream. operational_stage plan ch stream))"

definition establish :: "network \<Rightarrow> nat \<Rightarrow> nat \<Rightarrow> string \<Rightarrow> string \<Rightarrow> string \<Rightarrow> plan \<Rightarrow> connected result" where
  "establish net now attempt portal target initiator plan =
     and_then (connect_stream net now attempt portal) (\<lambda>stream. fst (login_phase target initiator plan stream))"

definition login_with_keys ::
  "network \<Rightarrow> nat \<Rightarrow> nat \<Rightarrow> string \<Rightarrow> string \<Rightarrow> string \<Rightarrow> u8 list \<Rightarrow> (string \<times> u8 list) option \<Rightarrow> string \<Rightarrow>
   (string \<times> string) list \<Rightarrow> session result" where
  "login_with_keys net now attempt portal target initiator isid chap chap_offer keys =
     and_then (establish net now attempt portal target initiator
        \<lparr>pn_isid = isid, pn_chap = chap, pn_chap_offer = chap_offer, pn_mutual = None, pn_keys = keys\<rparr>)
       (\<lambda>c. Inr (session_of c))"

definition login_as ::
  "network \<Rightarrow> nat \<Rightarrow> nat \<Rightarrow> string \<Rightarrow> string \<Rightarrow> string \<Rightarrow> u8 list \<Rightarrow> (string \<times> u8 list) option \<Rightarrow> string \<Rightarrow>
   string \<Rightarrow> session result" where
  "login_as net now attempt portal target initiator isid chap digest chap_offer =
     and_then (offer_keys (spit_keys digest) initiator target) (\<lambda>keys.
       login_with_keys net now attempt portal target initiator isid chap chap_offer keys)"

definition login_with_offer ::
  "network \<Rightarrow> u32 \<Rightarrow> nat \<Rightarrow> nat \<Rightarrow> string \<Rightarrow> string \<Rightarrow> string \<Rightarrow> (string \<times> u8 list) option \<Rightarrow> string \<Rightarrow> string \<Rightarrow>
   session result" where
  "login_with_offer net pid now attempt portal target initiator chap digest chap_offer =
     login_as net now attempt portal target initiator (random_isid now pid) chap digest chap_offer"

definition login ::
  "network \<Rightarrow> u32 \<Rightarrow> nat \<Rightarrow> nat \<Rightarrow> string \<Rightarrow> string \<Rightarrow> string \<Rightarrow> (string \<times> u8 list) option \<Rightarrow> string \<Rightarrow>
   session result" where
  "login net pid now attempt portal target initiator chap digest =
     login_with_offer net pid now attempt portal target initiator chap digest ''5,6''"

definition negotiate ::
  "network \<Rightarrow> u32 \<Rightarrow> nat \<Rightarrow> nat \<Rightarrow> string \<Rightarrow> string \<Rightarrow> string \<Rightarrow> (string \<times> u8 list) option \<Rightarrow>
   (string \<times> string) list \<Rightarrow> negotiated result" where
  "negotiate net pid now attempt portal target initiator chap offer =
     and_then (login_with_keys net now attempt portal target initiator (random_isid now pid) chap ''5,6''
        ([(''InitiatorName'', initiator), (''TargetName'', target), (''SessionType'', ''Normal'')] @ offer)) (\<lambda>s.
     and_then (logout s) (\<lambda>_. Inr (sn_negotiated s)))"

section \<open>What an exchange does to the stream\<close>

lemma read_exact_Inr:
  "read_exact n t = (Inr bs, t') \<longleftrightarrow> n \<le> length (tc_in t) \<and> bs = take n (tc_in t) \<and> t' = t\<lparr>tc_in := drop n (tc_in t)\<rparr>"
  by (auto simp: read_exact_def)

lemma map_err_Inr [simp]: "map_err what r = Inr x \<longleftrightarrow> r = Inr x"
  by (auto simp: map_err_def split: sum.splits error.splits)

lemma apfst_map_err_Inr [simp]: "apfst (map_err what) p = (Inr x, s) \<longleftrightarrow> p = (Inr x, s)"
  by (cases p) auto

lemma read_login_pdu_Inr:
  assumes "read_login_pdu t = (Inr raw, t')"
  shows "tc_in t = raw @ tc_in t'" "tc_out t' = tc_out t" "length raw = 48 + padded (data_len raw)"
    "tc_accepts t' = tc_accepts t"
proof -
  from assms obtain bhs data where b: "bhs = take 48 (tc_in t)" "48 \<le> length (tc_in t)"
      "data = take (padded (data_len bhs)) (drop 48 (tc_in t))" "padded (data_len bhs) \<le> length (tc_in t) - 48"
      "t' = t\<lparr>tc_in := drop (padded (data_len bhs)) (drop 48 (tc_in t))\<rparr>" "raw = bhs @ data"
    by (auto simp: read_login_pdu_def sthen_eq_Inr bhs_len_def read_exact_Inr)
  then show "tc_in t = raw @ tc_in t'" "tc_out t' = tc_out t" "tc_accepts t' = tc_accepts t"
    by (simp_all del: drop_drop)
  show "length raw = 48 + padded (data_len raw)" using b by (simp add: data_len_append)
qed

lemma read_login_pdu_out: "tc_out (snd (read_login_pdu t)) = tc_out t"
  by (auto simp: read_login_pdu_def sthen_def read_exact_def map_err_def split: sum.splits prod.splits if_splits)

lemma exchange_Inr:
  assumes "exchange q t = (Inr (p, raw), t')"
  shows "tc_in t = raw @ tc_in t'" "login_decode raw = Inr p" "lp_status p = (0, 0)" "lp_itt p = lq_itt q"
    "\<exists>pdu. login_encode q = Inr pdu \<and> tc_out t' = tc_out t @ pdu" "length raw = 48 + padded (data_len raw)"
proof -
  from assms obtain pdu t1 where e: "login_encode q = Inr pdu" "write_all pdu t = (Inr (), t1)" "login_decode raw = Inr p"
      "lp_itt p = lq_itt q" "lp_status p = (0, 0)" and r: "read_login_pdu t1 = (Inr raw, t')"
    by (auto simp: exchange_def sthen_eq_Inr split: if_splits)
  show "tc_in t = raw @ tc_in t'" "login_decode raw = Inr p" "lp_status p = (0, 0)" "lp_itt p = lq_itt q"
    "\<exists>pdu. login_encode q = Inr pdu \<and> tc_out t' = tc_out t @ pdu" "length raw = 48 + padded (data_len raw)"
    using e read_login_pdu_Inr [OF r] by (auto simp: write_all_def split: if_splits)
qed

lemma exchange_out:
  assumes "login_encode q = Inr pdu" and "length pdu \<le> tc_accepts t"
  shows "tc_out (snd (exchange q t)) = tc_out t @ pdu"
proof -
  define t1 where "t1 = t\<lparr>tc_out := tc_out t @ pdu, tc_accepts := tc_accepts t - length pdu\<rparr>"
  have "write_all pdu t = (Inr (), t1)" using assms(2) by (simp add: write_all_def t1_def)
  moreover have "tc_out (snd (read_login_pdu t1)) = tc_out t @ pdu" by (simp add: read_login_pdu_out t1_def)
  ultimately show ?thesis
    using assms(1) by (auto simp: exchange_def sthen_def map_err_def split: sum.splits prod.splits)
qed

section \<open>Successful stages\<close>

lemma operational_stage_Inr:
  assumes "operational_stage plan ch t = (Inr c, t')"
  obtains p raw where "exchange (login_pdu plan (ch_exp_stat_sn ch) Operational FullFeature True (pn_keys plan)) t = (Inr (p, raw), t')"
    "lp_transit p" "lp_next p = 3" "lp_tsih p \<noteq> 0" "cn_stream c = t'" "ng_keys (cn_negotiated c) = lp_text p"
    "ng_header_digest (cn_negotiated c) \<longleftrightarrow> value_of (lp_text p) ''HeaderDigest'' = Some ''CRC32C''"
    "ng_data_digest (cn_negotiated c) \<longleftrightarrow> value_of (lp_text p) ''DataDigest'' = Some ''CRC32C''"
    "declared_max_recv (lp_text p) = Inr (ng_max_recv (cn_negotiated c))"
    "ng_own_max_recv (cn_negotiated c) = own_max_recv (pn_keys plan)"
    "ng_chap_algorithm (cn_negotiated c) = ch_algorithm ch" "ng_target_chap_name (cn_negotiated c) = ch_target_name ch"
    "ng_tsih (cn_negotiated c) = lp_tsih p"
    "cn_cmd_sn c = sq_exp_cmd_sn (sequence_of raw)" "cn_exp_stat_sn c = lp_stat_sn p + 1"
    "cn_max_cmd_sn c = sq_max_cmd_sn (sequence_of raw)"
  using assms by (auto simp: operational_stage_def sthen_eq_Inr stage_code_def split: if_splits)

lemma check_mutual_Inr:
  assumes "check_mutual algorithm own_secret m text = Inr name"
  shows "value_of text ''CHAP_N'' = Some name"
    "\<exists>r d. value_of text ''CHAP_R'' = Some r \<and> decode_binary r = Inr d
       \<and> chap_digest algorithm (mu_identifier m) (mu_secret m) (mu_challenge m) = Some d
       \<and> chap_digest algorithm (mu_identifier m) own_secret (mu_challenge m) \<noteq> Some d"
  using assms by (auto simp: check_mutual_def and_then_eq_Inr split: if_splits)

lemma security_stage_Inr:
  assumes "security_stage target initiator plan (user, secret) t = (Inr ch, t')"
  obtains r1 raw1 t1 r2 raw2 t2 r3 raw3 ident challenge algorithm answer where
    "exchange (login_pdu plan 0 Security Security False [(''InitiatorName'', initiator), (''TargetName'', target),
        (''SessionType'', ''Normal''), (''AuthMethod'', ''CHAP'')]) t = (Inr (r1, raw1), t1)"
    "exchange (login_pdu plan (lp_stat_sn r1 + 1) Security Security False [(''CHAP_A'', pn_chap_offer plan)]) t1 = (Inr (r2, raw2), t2)"
    "read_challenge (lp_text r2) = Inr (ident, challenge, algorithm)"
    "chap_response algorithm ident secret challenge = Some answer"
    "exchange (login_pdu plan (lp_stat_sn r2 + 1) Security Operational True (chap_text user answer (pn_mutual plan))) t2
       = (Inr (r3, raw3), t')"
    "ch_algorithm ch = Some algorithm" "ch_exp_stat_sn ch = lp_stat_sn r3 + 1" "lp_transit r3"
    "\<And>m. pn_mutual plan = Some m \<Longrightarrow> \<exists>name. ch_target_name ch = Some name \<and> check_mutual algorithm secret m (lp_text r3) = Inr name"
proof -
  from assms obtain r1 raw1 t1 r2 raw2 t2 ident challenge algorithm answer r3 raw3 name where
    "exchange (login_pdu plan 0 Security Security False [(''InitiatorName'', initiator), (''TargetName'', target),
        (''SessionType'', ''Normal''), (''AuthMethod'', ''CHAP'')]) t = (Inr (r1, raw1), t1)"
    "exchange (login_pdu plan (lp_stat_sn r1 + 1) Security Security False [(''CHAP_A'', pn_chap_offer plan)]) t1 = (Inr (r2, raw2), t2)"
    "read_challenge (lp_text r2) = Inr (ident, challenge, algorithm)"
    "chap_response algorithm ident secret challenge = Some answer"
    "exchange (login_pdu plan (lp_stat_sn r2 + 1) Security Operational True (chap_text user answer (pn_mutual plan))) t2
       = (Inr (r3, raw3), t')"
    "lp_transit r3" "(case pn_mutual plan of None \<Rightarrow> Inr None
        | Some m \<Rightarrow> and_then (check_mutual algorithm secret m (lp_text r3)) (\<lambda>name. Inr (Some name))) = Inr name"
    "ch = \<lparr>ch_exp_stat_sn = lp_stat_sn r3 + 1, ch_algorithm = Some algorithm, ch_challenge = Some challenge, ch_target_name = name\<rparr>"
    by (auto simp: security_stage_def sthen_eq_Inr split: if_splits)
  then show thesis by (intro that [of r1 raw1 t1 r2 raw2 t2 ident challenge algorithm answer r3 raw3]) (auto simp: and_then_eq_Inr)
qed

text \<open>The three responses of the security stage, each read whole.\<close>

lemma security_stage_whole:
  assumes "security_stage target initiator plan (user, secret) t = (Inr ch, t')"
  shows "\<exists>raws. tc_in t = concat raws @ tc_in t' \<and> length raws = 3
    \<and> (\<forall>x\<in>set raws. length x = 48 + padded (data_len x) \<and> (\<exists>q. login_decode x = Inr q \<and> lp_status q = (0, 0)))"
  using assms
proof (rule security_stage_Inr)
  fix r1 raw1 t1 r2 raw2 t2 r3 raw3
  assume "exchange (login_pdu plan 0 Security Security False [(''InitiatorName'', initiator), (''TargetName'', target),
        (''SessionType'', ''Normal''), (''AuthMethod'', ''CHAP'')]) t = (Inr (r1, raw1), t1)"
    and "exchange (login_pdu plan (lp_stat_sn r1 + 1) Security Security False [(''CHAP_A'', pn_chap_offer plan)]) t1 = (Inr (r2, raw2), t2)"
  note e = exchange_Inr(1-3,6) [OF this(1)] exchange_Inr(1-3,6) [OF this(2)]
  fix answer
  assume "exchange (login_pdu plan (lp_stat_sn r2 + 1) Security Operational True (chap_text user answer (pn_mutual plan))) t2
       = (Inr (r3, raw3), t')"
  note exchange_Inr(1-3,6) [OF this]
  with e show ?thesis by (intro exI [of _ "[raw1, raw2, raw3]"]) auto
qed

text \<open>
  C12: mutual CHAP lets in only a target that knows its secret. When a login with mutual CHAP succeeds, the
  third response on the connection carried, as CHAP_R, exactly the digest of the initiator's identifier,
  the target's secret and the initiator's challenge under the chosen algorithm, which differs from what
  the initiator's own secret gives; and the session records that algorithm and the target's name.
\<close>

theorem mutual_login_authenticates:
  assumes "login_phase target initiator plan t = (Inr c, t')" and "pn_chap plan = Some (user, secret)"
    and "pn_mutual plan = Some m"
  shows "\<exists>raw1 raw2 raw3 rest p algorithm r d. tc_in t = raw1 @ raw2 @ raw3 @ rest
    \<and> (\<forall>raw \<in> {raw1, raw2, raw3}. length raw = 48 + padded (data_len raw))
    \<and> login_decode raw3 = Inr p \<and> lp_transit p \<and> ng_chap_algorithm (cn_negotiated c) = Some algorithm
    \<and> value_of (lp_text p) ''CHAP_N'' = ng_target_chap_name (cn_negotiated c)
    \<and> value_of (lp_text p) ''CHAP_R'' = Some r \<and> decode_binary r = Inr d
    \<and> chap_digest algorithm (mu_identifier m) (mu_secret m) (mu_challenge m) = Some d
    \<and> chap_digest algorithm (mu_identifier m) secret (mu_challenge m) \<noteq> Some d"
proof -
  from assms(1,2) obtain ch t3 where sec: "security_stage target initiator plan (user, secret) t = (Inr ch, t3)"
    and op: "operational_stage plan ch t3 = (Inr c, t')"
    by (auto simp: login_phase_def sthen_eq_Inr)
  from sec obtain r1 raw1 t1 r2 raw2 t2 r3 raw3 ident challenge algorithm answer where
    e: "exchange (login_pdu plan 0 Security Security False [(''InitiatorName'', initiator), (''TargetName'', target),
        (''SessionType'', ''Normal''), (''AuthMethod'', ''CHAP'')]) t = (Inr (r1, raw1), t1)"
    "exchange (login_pdu plan (lp_stat_sn r1 + 1) Security Security False [(''CHAP_A'', pn_chap_offer plan)]) t1 = (Inr (r2, raw2), t2)"
    "exchange (login_pdu plan (lp_stat_sn r2 + 1) Security Operational True (chap_text user answer (pn_mutual plan))) t2
       = (Inr (r3, raw3), t3)"
    and ch: "ch_algorithm ch = Some algorithm" "lp_transit r3"
    and mut: "\<exists>name. ch_target_name ch = Some name \<and> check_mutual algorithm secret m (lp_text r3) = Inr name"
    by (rule security_stage_Inr) (rule that; (assumption | simp add: assms(3)))
  from op have neg: "ng_chap_algorithm (cn_negotiated c) = Some algorithm"
    "ng_target_chap_name (cn_negotiated c) = ch_target_name ch"
    by (elim operational_stage_Inr; simp add: ch)+
  have "tc_in t = raw1 @ raw2 @ raw3 @ tc_in t3"
    using exchange_Inr(1) [OF e(1)] exchange_Inr(1) [OF e(2)] exchange_Inr(1) [OF e(3)] by simp
  moreover have "\<forall>raw \<in> {raw1, raw2, raw3}. length raw = 48 + padded (data_len raw)"
    using exchange_Inr(6) [OF e(1)] exchange_Inr(6) [OF e(2)] exchange_Inr(6) [OF e(3)] by simp
  moreover have "login_decode raw3 = Inr r3" by (rule exchange_Inr(2) [OF e(3)])
  ultimately show ?thesis using ch(2) neg mut check_mutual_Inr [of algorithm secret m "lp_text r3"] by metis
qed

section \<open>A login that succeeds\<close>

lemma login_encode_ok:
  assumes "length (text_bytes (lq_text q)) < 2 ^ 24" and "length (lq_isid q) = 6"
  obtains pdu where "login_encode q = Inr pdu" "length pdu = 48 + padded (length (text_bytes (lq_text q)))"
proof -
  from assms(1) obtain pdu where e: "login_encode q = Inr pdu" by (auto simp: login_encode_def Let_def)
  from login_encode_Inr [OF e assms(2)] obtain bhs where "pdu = bhs @ pad4 (text_bytes (lq_text q))" "length bhs = 48" by blast
  then show thesis using that e by simp
qed

lemma exchange_ok:
  assumes "length (text_bytes (lq_text q)) < 2 ^ 24" and "length (lq_isid q) = 6"
    and "48 + padded (length (text_bytes (lq_text q))) \<le> tc_accepts t"
    and "tc_in t = raw @ rest" and "length raw = 48 + padded (data_len raw)"
    and "login_decode raw = Inr p" and "lp_itt p = lq_itt q" and "lp_status p = (0, 0)"
  shows "\<exists>out. exchange q t = (Inr (p, raw), t\<lparr>tc_in := rest, tc_out := out,
    tc_accepts := tc_accepts t - (48 + padded (length (text_bytes (lq_text q))))\<rparr>)"
proof -
  obtain pdu where e: "login_encode q = Inr pdu" "length pdu = 48 + padded (length (text_bytes (lq_text q)))"
    using login_encode_ok [OF assms(1,2)] by blast
  define t1 where "t1 = t\<lparr>tc_out := tc_out t @ pdu, tc_accepts := tc_accepts t - length pdu\<rparr>"
  have w: "write_all pdu t = (Inr (), t1)" using assms(3) e(2) by (simp add: write_all_def t1_def)
  have d: "data_len (take 48 raw) = data_len raw"
    using data_len_append [of "take 48 raw" "drop 48 raw"] assms(5) by simp
  have "read_login_pdu t1 = (Inr (take 48 raw @ drop 48 raw), t1\<lparr>tc_in := rest\<rparr>)"
    using assms(4,5) by (simp add: read_login_pdu_def sthen_def read_exact_def t1_def bhs_len_def d map_err_def)
  then have "exchange q t = (Inr (p, raw), t1\<lparr>tc_in := rest\<rparr>)"
    using e w assms(6-8) by (simp add: exchange_def sthen_def map_err_def)
  then show ?thesis by (intro exI [of _ "tc_out t @ pdu"]) (simp add: t1_def e(2))
qed

text \<open>A target that authenticates itself: the login responses it sends.\<close>

definition example_reply :: "u8 \<Rightarrow> u16 \<Rightarrow> (string \<times> string) list \<Rightarrow> u8 list" where
  "example_reply flags tsih text =
     (let data = text_bytes text;
          bhs = copy_at 16 (to_be_bytes login_itt) (copy_at 14 (to_be_bytes tsih) (copy_at 5 (len24 (length data))
            (empty_bhs[0 := op_login_response, 1 := flags])))
      in bhs @ pad4 data)"

lemma example_reply_decodes:
  assumes "length (text_bytes text) < 2 ^ 24" and "list_all plain_pair text"
  shows "length (example_reply flags tsih text) = 48 + padded (data_len (example_reply flags tsih text))"
    "login_decode (example_reply flags tsih text) = Inr \<lparr>lp_transit = (flags AND transit \<noteq> 0),
       lp_current = drop_bit 2 flags AND 3, lp_next = flags AND 3, lp_tsih = tsih, lp_itt = login_itt, lp_stat_sn = 0,
       lp_status = (0, 0), lp_text = text\<rparr>"
proof -
  define bhs where "bhs = copy_at 16 (to_be_bytes login_itt) (copy_at 14 (to_be_bytes tsih)
    (copy_at 5 (len24 (length (text_bytes text))) (empty_bhs[0 := op_login_response, 1 := flags])))"
  have reply: "example_reply flags tsih text = bhs @ pad4 (text_bytes text)" by (simp add: example_reply_def bhs_def Let_def)
  have len: "length bhs = 48" "data_len bhs = length (text_bytes text)"
    using assms(1) by (simp_all add: bhs_def header_simps)
  then have d: "data_len (bhs @ pad4 (text_bytes text)) = length (text_bytes text)" by (simp add: data_len_append)
  then show "length (example_reply flags tsih text) = 48 + padded (data_len (example_reply flags tsih text))"
    by (simp add: reply len)
  have "get_slice 48 (length (text_bytes text)) (bhs @ pad4 (text_bytes text)) = Some (text_bytes text)"
    using len padded_bounds(1) by (simp add: get_slice_def slice_append2 take_pad4)
  moreover have "bhs ! 0 = op_login_response" "bhs ! 1 = flags" "bhs ! 36 = 0" "bhs ! 37 = 0"
    "from_be_bytes (slice 14 2 bhs) = tsih" "from_be_bytes (slice 16 4 bhs) = login_itt"
    by (simp_all add: bhs_def header_simps empty_bhs_def bhs_len_def from_be_bytes_to_be_bytes)
  moreover have "slice 24 4 bhs = replicate 4 0"
    by (simp add: bhs_def header_simps empty_bhs_def bhs_len_def slice_list_update_other)
      (simp add: slice_def)
  then have "from_be_bytes (slice 24 4 bhs) = (0 :: u32)" by (simp add: numeral_eq_Suc from_be_bytes_def)
  ultimately show "login_decode (example_reply flags tsih text) = Inr \<lparr>lp_transit = (flags AND transit \<noteq> 0),
       lp_current = drop_bit 2 flags AND 3, lp_next = flags AND 3, lp_tsih = tsih, lp_itt = login_itt, lp_stat_sn = 0,
       lp_status = (0, 0), lp_text = text\<rparr>"
    using len parse_text_bytes [OF assms(2)]
    by (simp add: reply login_decode_def bhs_len_def d opcode_def nth_append slice_append1 pdu_consts)
qed

definition example_mutual :: mutual where
  "example_mutual = \<lparr>mu_secret = [98], mu_identifier = 97, mu_challenge = [99], mu_base64 = True\<rparr>"

definition example_plan :: plan where
  "example_plan = \<lparr>pn_isid = [0x80, 1, 2, 3, 4, 5], pn_chap = Some (''user'', [120]), pn_chap_offer = ''5,6'',
     pn_mutual = Some example_mutual, pn_keys = [(''HeaderDigest'', ''CRC32C,None'')]\<rparr>"

definition example_texts :: "(string \<times> string) list list" where
  "example_texts = [[(''AuthMethod'', ''CHAP'')],
     [(''CHAP_A'', ''5''), (''CHAP_I'', ''97''), (''CHAP_C'', ''0x63'')],
     [(''CHAP_N'', ''target''), (''CHAP_R'', ''0x900150983cd24fb0d6963f7d28e17f72'')],
     [(''HeaderDigest'', ''CRC32C'')]]"

definition example_stream :: tcp where
  "example_stream = \<lparr>tc_in = example_reply 0 0 (example_texts ! 0) @ example_reply 0 0 (example_texts ! 1)
       @ example_reply 0x81 0 (example_texts ! 2) @ example_reply 0x87 7 (example_texts ! 3),
     tc_out = [], tc_accepts = 100000, tc_error = ''connection reset''\<rparr>"

lemma example_texts_plain: "list_all (list_all plain_pair) example_texts"
  by code_simp

lemma example_challenge: "read_challenge (example_texts ! 1) = Inr (97, [99], 5)"
  by code_simp

lemma example_response: "chap_response 5 97 [120] [99] = Some (encode_hex (md5 [97, 120, 99]))"
  by (simp add: chap_response_def chap_digest_def chap_consts)

lemma example_check: "check_mutual 5 [120] example_mutual (example_texts ! 2) = Inr ''target''"
proof -
  have "value_of (example_texts ! 2) ''CHAP_N'' = Some ''target''"
    "value_of (example_texts ! 2) ''CHAP_R'' = Some ''0x900150983cd24fb0d6963f7d28e17f72''"
    by (simp_all add: example_texts_def value_of_def)
  moreover have "decode_binary ''0x900150983cd24fb0d6963f7d28e17f72'' = Inr (md5 [97, 98, 99])"
    unfolding md5_abc by code_simp
  ultimately show ?thesis
    by (simp add: check_mutual_def example_mutual_def chap_digest_def chap_consts md5_abc md5_axc)
qed

lemma example_exchange:
  assumes "length (text_bytes (lq_text q)) < 900" and "length (lq_isid q) = 6" and "lq_itt q = login_itt"
    and "1000 + k \<le> tc_accepts t" and "tc_in t = example_reply flags tsih text @ rest"
    and "length (text_bytes text) < 2 ^ 24" and "list_all plain_pair text"
  shows "\<exists>t'. exchange q t = (Inr (\<lparr>lp_transit = (flags AND transit \<noteq> 0), lp_current = drop_bit 2 flags AND 3,
      lp_next = flags AND 3, lp_tsih = tsih, lp_itt = login_itt, lp_stat_sn = 0, lp_status = (0, 0), lp_text = text\<rparr>,
      example_reply flags tsih text), t') \<and> tc_in t' = rest \<and> k \<le> tc_accepts t'"
proof -
  have p: "48 + padded (length (text_bytes (lq_text q))) \<le> 1000"
    using assms(1) padded_bounds(2) [of "length (text_bytes (lq_text q))"] by linarith
  moreover have "length (text_bytes (lq_text q)) < 2 ^ 24" using assms(1) by simp
  ultimately show ?thesis
    using exchange_ok [OF _ assms(2) _ assms(5) example_reply_decodes [OF assms(6,7)]] assms(3,4) by fastforce
qed

lemma example_text_lengths:
  "length (text_bytes (example_texts ! 0)) < 2 ^ 24" "length (text_bytes (example_texts ! 1)) < 2 ^ 24"
  "length (text_bytes (example_texts ! 2)) < 2 ^ 24" "length (text_bytes (example_texts ! 3)) < 2 ^ 24"
  by (simp_all add: example_texts_def text_bytes_def bytes_of_def)

lemma example_texts_plain_nth: "n < 4 \<Longrightarrow> list_all plain_pair (example_texts ! n)"
  using example_texts_plain by (simp add: list_all_length example_texts_def)

lemma example_login_succeeds:
  "\<exists>c t'. login_phase ''iqn.t'' ''iqn.i'' example_plan example_stream = (Inr c, t')
    \<and> ng_target_chap_name (cn_negotiated c) = Some ''target''"
proof -
  let ?q1 = "login_pdu example_plan 0 Security Security False [(''InitiatorName'', ''iqn.i''), (''TargetName'', ''iqn.t''),
             (''SessionType'', ''Normal''), (''AuthMethod'', ''CHAP'')]"
  let ?q2 = "login_pdu example_plan 1 Security Security False [(''CHAP_A'', ''5,6'')]"
  let ?q3 = "login_pdu example_plan 1 Security Operational True
    (chap_text ''user'' (encode_hex (md5 [97, 120, 99])) (Some example_mutual))"
  let ?q4 = "login_pdu example_plan 1 Operational FullFeature True [(''HeaderDigest'', ''CRC32C,None'')]"
  have small: "length (text_bytes (lq_text ?q1)) < 900" "length (text_bytes (lq_text ?q2)) < 900"
    "length (text_bytes (lq_text ?q3)) < 900" "length (text_bytes (lq_text ?q4)) < 900"
    by (simp_all add: login_pdu_def text_bytes_def bytes_of_def md5_axc encode_hex_def hex_byte_def chap_text_def
        example_mutual_def encode_base64_def base64_chunk_def chunks_Cons show_nat.simps)
  have q: "length (lq_isid (login_pdu example_plan ess cur nxt t kvs)) = 6"
    "lq_itt (login_pdu example_plan ess cur nxt t kvs) = login_itt" for ess cur nxt t kvs
    by (simp_all add: login_pdu_def example_plan_def)
  obtain t1 where e1: "exchange ?q1 example_stream = (Inr (\<lparr>lp_transit = False, lp_current = 0,
      lp_next = 0, lp_tsih = 0, lp_itt = login_itt, lp_stat_sn = 0, lp_status = (0, 0), lp_text = example_texts ! 0\<rparr>,
      example_reply 0 0 (example_texts ! 0)), t1)" "tc_in t1 = example_reply 0 0 (example_texts ! 1)
       @ example_reply 0x81 0 (example_texts ! 2) @ example_reply 0x87 7 (example_texts ! 3)" "5000 \<le> tc_accepts t1"
    using example_exchange [OF small(1) q _ _ example_text_lengths(1) example_texts_plain_nth, of 5000 example_stream 0 0]
    by (auto simp: example_stream_def)
  obtain t2 where e2: "exchange ?q2 t1 = (Inr (\<lparr>lp_transit = False, lp_current = 0,
      lp_next = 0, lp_tsih = 0, lp_itt = login_itt, lp_stat_sn = 0, lp_status = (0, 0), lp_text = example_texts ! 1\<rparr>,
      example_reply 0 0 (example_texts ! 1)), t2)" "tc_in t2 = example_reply 0x81 0 (example_texts ! 2)
      @ example_reply 0x87 7 (example_texts ! 3)" "4000 \<le> tc_accepts t2"
    using example_exchange [OF small(2) q _ e1(2) example_text_lengths(2) example_texts_plain_nth, of 4000] e1(3)
    by auto
  obtain t3 where e3: "exchange ?q3 t2 = (Inr (\<lparr>lp_transit = True, lp_current = 0,
      lp_next = 1, lp_tsih = 0, lp_itt = login_itt, lp_stat_sn = 0, lp_status = (0, 0), lp_text = example_texts ! 2\<rparr>,
      example_reply 0x81 0 (example_texts ! 2)), t3)" "tc_in t3 = example_reply 0x87 7 (example_texts ! 3) @ []"
      "3000 \<le> tc_accepts t3"
    using example_exchange [OF small(3) q _ e2(2) example_text_lengths(3) example_texts_plain_nth, of 3000] e2(3)
    by (auto simp: transit_def)
  obtain t4 where e4: "exchange ?q4 t3 = (Inr (\<lparr>lp_transit = True, lp_current = 1,
      lp_next = 3, lp_tsih = 7, lp_itt = login_itt, lp_stat_sn = 0, lp_status = (0, 0), lp_text = example_texts ! 3\<rparr>,
      example_reply 0x87 7 (example_texts ! 3)), t4)"
    using example_exchange [OF small(4) q _ e3(2) example_text_lengths(4) example_texts_plain_nth, of 2000] e3(3)
    by (auto simp: transit_def)
  have "security_stage ''iqn.t'' ''iqn.i'' example_plan (''user'', [120]) example_stream =
      (Inr \<lparr>ch_exp_stat_sn = 1, ch_algorithm = Some 5, ch_challenge = Some [99], ch_target_name = Some ''target''\<rparr>, t3)"
    using e1(1) e2(1) e3(1) example_challenge example_response example_check
    by (simp add: security_stage_def sthen_def example_plan_def)
  then show ?thesis
    using e4 by (simp add: login_phase_def sthen_def operational_stage_def declared_max_recv_def stage_code_def
      example_plan_def example_texts_def value_of_def)
qed

text \<open>
  a login without credentials sends one request and nothing about security. Whatever the target answers,
  a login without CHAP puts on the connection exactly one PDU, a login request from the operational stage
  to full feature phase whose text is the offered keys.
\<close>

theorem plain_login_sends_offer:
  assumes "pn_chap plan = None" and "length (pn_isid plan) = 6" and "list_all plain_pair (pn_keys plan)"
    and "length (text_bytes (pn_keys plan)) < 2 ^ 24"
    and "48 + padded (length (text_bytes (pn_keys plan))) \<le> tc_accepts t"
  shows "\<exists>pdu. tc_out (snd (login_phase target initiator plan t)) = tc_out t @ pdu
    \<and> opcode pdu = op_login_request \<and> parse_text (slice 48 (data_len pdu) pdu) = Inr (pn_keys plan)
    \<and> length pdu = 48 + padded (length (text_bytes (pn_keys plan)))"
proof -
  define q where "q = login_pdu plan 0 Operational FullFeature True (pn_keys plan)"
  have q: "lq_text q = pn_keys plan" "lq_isid q = pn_isid plan" by (simp_all add: q_def login_pdu_def)
  obtain pdu where e: "login_encode q = Inr pdu" "length pdu = 48 + padded (length (text_bytes (pn_keys plan)))"
    using login_encode_ok [of q] assms(2,4) q by auto
  have "tc_out (snd (exchange q t)) = tc_out t @ pdu" using exchange_out [OF e(1)] e(2) assms(5) by simp
  moreover have "snd (login_phase target initiator plan t) = snd (exchange q t)"
    using assms(1) by (auto simp: login_phase_def operational_stage_def sthen_def q_def split: prod.splits sum.splits)
  ultimately show ?thesis using login_request_text [OF e(1)] e(2) assms(2,3) q by auto
qed

text \<open>
  C36: the session starts where the login ended. A successful login consumed exactly the login responses, one
  without CHAP and four with it: each of 48 bytes and the padded data segment its header declares, and each
  decodes with status zero. The last one moved to full feature phase and assigned a session handle; the
  session's command number, window and expected status number are the ones it carried, digests are on exactly
  when it chose CRC32C, and nothing is in flight.
\<close>

theorem login_starts_session:
  assumes "login_phase target initiator plan t = (Inr c, t')"
  shows "\<exists>raws raw p. tc_in t = concat raws @ raw @ tc_in (sn_stream (session_of c))
    \<and> length raws = (if pn_chap plan = None then 0 else 3)
    \<and> (\<forall>x\<in>set (raws @ [raw]). length x = 48 + padded (data_len x) \<and> (\<exists>q. login_decode x = Inr q \<and> lp_status q = (0, 0)))
    \<and> login_decode raw = Inr p \<and> lp_transit p \<and> lp_next p = 3 \<and> lp_tsih p \<noteq> 0
    \<and> sn_cmd_sn (session_of c) = be32 raw 28 \<and> sn_max_cmd_sn (session_of c) = be32 raw 32
    \<and> sn_exp_stat_sn (session_of c) = be32 raw 24 + 1 \<and> sn_inflight (session_of c) = []
    \<and> ng_header_digest (sn_negotiated (session_of c)) = (value_of (lp_text p) ''HeaderDigest'' = Some ''CRC32C'')
    \<and> ng_data_digest (sn_negotiated (session_of c)) = (value_of (lp_text p) ''DataDigest'' = Some ''CRC32C'')"
proof -
  let ?whole = "\<lambda>x. length x = 48 + padded (data_len x) \<and> (\<exists>q. login_decode x = Inr q \<and> lp_status q = (0, 0))"
  obtain ch t0 raws where op: "operational_stage plan ch t0 = (Inr c, t')" and b: "tc_in t = concat raws @ tc_in t0"
    "length raws = (if pn_chap plan = None then 0 else 3)" "\<forall>x\<in>set raws. ?whole x"
  proof (cases "pn_chap plan")
    case None
    then show thesis using assms by (intro that [of _ t "[]"]) (auto simp: login_phase_def)
  next
    case (Some up)
    then obtain user secret ch t0 where sec: "security_stage target initiator plan (user, secret) t = (Inr ch, t0)"
      and op: "operational_stage plan ch t0 = (Inr c, t')"
      using assms by (cases up) (auto simp: login_phase_def sthen_eq_Inr)
    from security_stage_whole [OF sec] op Some show thesis by (auto intro: that)
  qed
  from op show ?thesis
  proof (rule operational_stage_Inr)
    fix p raw
    assume e: "exchange (login_pdu plan (ch_exp_stat_sn ch) Operational FullFeature True (pn_keys plan)) t0 = (Inr (p, raw), t')"
      and p: "lp_transit p" "lp_next p = 3" "lp_tsih p \<noteq> 0" "cn_stream c = t'"
      "ng_header_digest (cn_negotiated c) = (value_of (lp_text p) ''HeaderDigest'' = Some ''CRC32C'')"
      "ng_data_digest (cn_negotiated c) = (value_of (lp_text p) ''DataDigest'' = Some ''CRC32C'')"
      "cn_cmd_sn c = sq_exp_cmd_sn (sequence_of raw)" "cn_exp_stat_sn c = lp_stat_sn p + 1"
      "cn_max_cmd_sn c = sq_max_cmd_sn (sequence_of raw)"
    have "lp_stat_sn p = be32 raw 24" using exchange_Inr(2) [OF e] by (auto simp: login_decode_def and_then_eq_Inr be32_def split: if_splits)
    with exchange_Inr(1-3,6) [OF e] p b show ?thesis
      by (intro exI [of _ raws] exI [of _ raw] exI [of _ p])
        (auto simp: session_of_def established_def sequence_of_def)
  qed
qed

theorem login_starts_session_witness:
  "\<exists>c t'. login_phase ''iqn.t'' ''iqn.i'' example_plan example_stream = (Inr c, t')
     \<and> (\<exists>raws raw p. tc_in example_stream = concat raws @ raw @ tc_in (sn_stream (session_of c)) \<and> length raws = 3
        \<and> login_decode raw = Inr p \<and> lp_transit p \<and> lp_tsih p \<noteq> 0)"
proof -
  have chap: "pn_chap example_plan \<noteq> None" by (simp add: example_plan_def)
  obtain c t' where l: "login_phase ''iqn.t'' ''iqn.i'' example_plan example_stream = (Inr c, t')"
    using example_login_succeeds by blast
  from login_starts_session [OF this] chap l show ?thesis by (auto split: if_splits)
qed

theorem mutual_login_authenticates_witness:
  "\<exists>raw1 raw2 raw3 rest p d. tc_in example_stream = raw1 @ raw2 @ raw3 @ rest \<and> login_decode raw3 = Inr p
     \<and> chap_digest 5 97 [98] [99] = Some d"
proof -
  obtain c t' where "login_phase ''iqn.t'' ''iqn.i'' example_plan example_stream = (Inr c, t')"
    using example_login_succeeds by blast
  from mutual_login_authenticates [OF this, of "''user''" "[120]" example_mutual]
  obtain raw1 raw2 raw3 rest p where "tc_in example_stream = raw1 @ raw2 @ raw3 @ rest" "login_decode raw3 = Inr p"
    by (auto simp: example_plan_def)
  then show ?thesis by (auto simp: chap_digest_def chap_consts)
qed

theorem plain_login_sends_offer_witness:
  "\<exists>pdu. tc_out (snd (login_phase ''iqn.t'' ''iqn.i'' (example_plan\<lparr>pn_chap := None\<rparr>) example_stream)) = pdu
    \<and> parse_text (slice 48 (data_len pdu) pdu) = Inr [(''HeaderDigest'', ''CRC32C,None'')]"
proof -
  have "list_all plain_pair [(''HeaderDigest'', ''CRC32C,None'')]" by code_simp
  with plain_login_sends_offer [of "example_plan\<lparr>pn_chap := None\<rparr>" example_stream "''iqn.t''" "''iqn.i''"]
  show ?thesis by (auto simp: example_plan_def example_stream_def text_bytes_def bytes_of_def padded_def)
qed

section \<open>What the initiator declares\<close>

lemma spit_offer:
  "\<exists>keys. offer_keys (spit_keys digest) initiator target = Inr keys \<and> own_max_recv keys = max_own_recv"
proof -
  have "parse_uint 64 (show_nat max_own_recv) = Some max_own_recv"
    by (rule parse_uint_show_nat) (simp add: max_own_recv_def)
  then show ?thesis
    by (simp add: offer_keys_def spit_keys_def max_own_recv_def own_max_recv_def value_of_def yes_no_def)
qed

lemma login_phase_own_max_recv:
  assumes "login_phase target initiator plan t = (Inr c, t')"
  shows "ng_own_max_recv (cn_negotiated c) = own_max_recv (pn_keys plan)"
proof -
  from assms obtain ch t0 where "operational_stage plan ch t0 = (Inr c, t')"
    by (auto simp: login_phase_def sthen_eq_Inr split: option.splits)
  then show ?thesis by (rule operational_stage_Inr) simp
qed

lemma login_own_max_recv:
  assumes "login net pid now attempt portal target initiator chap digest = Inr s"
  shows "ng_own_max_recv (sn_negotiated s) = max_own_recv"
proof -
  obtain keys where k: "offer_keys (spit_keys digest) initiator target = Inr keys" "own_max_recv keys = max_own_recv"
    using spit_offer by blast
  then show ?thesis
    using assms login_phase_own_max_recv
    by (fastforce simp: login_def login_with_offer_def login_as_def login_with_keys_def establish_def and_then_eq_Inr
        session_of_def established_def fst_conv prod_eq_iff)
qed

lemma login_idle: "login net pid now attempt portal target initiator chap digest = Inr s \<Longrightarrow> sn_inflight s = []"
  by (auto simp: login_def login_with_offer_def login_as_def login_with_keys_def and_then_eq_Inr session_of_def
      established_def)

text \<open>
  What the initiator declares it takes, it takes. A session a login opened declared 262144 bytes as its
  MaxRecvDataSegmentLength; every PDU whose data segment is within that, framed with the digests that were
  negotiated, is received whole, and the stream after it is untouched.
\<close>

theorem declared_segments_accepted:
  assumes "login net pid now attempt portal target initiator chap digest = Inr s"
    and "length header = 48" and "data_len header = length data" and "length data \<le> ng_own_max_recv (sn_negotiated s)"
    and "tc_in (sn_stream s) = frame_bytes (sn_negotiated s) header data @ rest"
  shows "ng_own_max_recv (sn_negotiated s) = 262144
    \<and> (\<exists>s'. recv s = (Inr header, s') \<and> sn_rx s' = data \<and> tc_in (sn_stream s') = rest)"
proof -
  have own: "ng_own_max_recv (sn_negotiated s) = 262144"
    using login_own_max_recv [OF assms(1)] by (simp add: max_own_recv_def)
  then have "padded (length data) \<le> rx_capacity"
    using assms(4) padded_bounds(2) [of "length data"] by (simp add: rx_capacity_def)
  from frame_recv [OF assms(2,3) this assms(5)] own show ?thesis by blast
qed

lemma random_isid_format: "length (random_isid nanos pid) = 6" "random_isid nanos pid ! 0 AND 0xc0 = 0x80"
proof -
  show len: "length (random_isid nanos pid) = 6"
    by (simp add: random_isid_def Let_def numeral_eq_Suc)
  have "(0x80 OR (b AND 0x3f)) AND 0xc0 = (0x80 :: u8)" for b
    by (rule byte_eqI, elim insertE emptyE; simp add: bit_simps)
  then show "random_isid nanos pid ! 0 AND 0xc0 = 0x80"
    using len by (simp add: random_isid_def Let_def numeral_eq_Suc)
qed

definition example_net :: network where
  "example_net address now attempt = Inr \<lparr>tc_in = example_reply 0x87 7 [(''DataDigest'', ''None'')]
     @ example_header @ [1, 2, 3, 4, 5, 0, 0, 0], tc_out = [], tc_accepts = 100000, tc_error = ''connection reset''\<rparr>"

lemma example_net_login:
  "\<exists>s. login example_net 1 0 0 ''h'' ''iqn.t'' ''iqn.i'' None ''None'' = Inr s
    \<and> tc_in (sn_stream s) = frame_bytes (sn_negotiated s) example_header [1, 2, 3, 4, 5] @ []"
proof -
  obtain keys where k: "offer_keys (spit_keys ''None'') ''iqn.i'' ''iqn.t'' = Inr keys" "length (text_bytes keys) < 900"
    by (simp add: offer_keys_def spit_keys_def max_own_recv_def yes_no_def text_bytes_def bytes_of_def show_nat.simps)
  define plan where "plan = \<lparr>pn_isid = random_isid 0 1, pn_chap = None, pn_chap_offer = ''5,6'', pn_mutual = None, pn_keys = keys\<rparr>"
  define t where "t = \<lparr>tc_in = example_reply 0x87 7 [(''DataDigest'', ''None'')]
     @ example_header @ [1, 2, 3, 4, 5, 0, 0, 0], tc_out = [], tc_accepts = 100000, tc_error = ''connection reset''\<rparr>"
  let ?q = "login_pdu plan 0 Operational FullFeature True keys"
  have "length (text_bytes (lq_text ?q)) < 900" "length (lq_isid ?q) = 6" "lq_itt ?q = login_itt"
    using k(2) random_isid_format(1) by (simp_all add: login_pdu_def plan_def)
  moreover have "length (text_bytes [(''DataDigest'', ''None'')]) < 2 ^ 24" by (simp add: text_bytes_def bytes_of_def)
  moreover have "list_all plain_pair [(''DataDigest'', ''None'')]" by code_simp
  ultimately obtain t' where e: "exchange ?q t = (Inr (\<lparr>lp_transit = True, lp_current = 1, lp_next = 3, lp_tsih = 7,
      lp_itt = login_itt, lp_stat_sn = 0, lp_status = (0, 0), lp_text = [(''DataDigest'', ''None'')]\<rparr>,
      example_reply 0x87 7 [(''DataDigest'', ''None'')]), t')" "tc_in t' = example_header @ [1, 2, 3, 4, 5, 0, 0, 0]"
    using example_exchange [of ?q 0 t "0x87" 7 "[(''DataDigest'', ''None'')]" "example_header @ [1, 2, 3, 4, 5, 0, 0, 0]"]
    by (auto simp: t_def transit_def)
  have "\<exists>c. login_phase ''iqn.t'' ''iqn.i'' plan t = (Inr c, t') \<and> cn_stream c = t'
      \<and> \<not> ng_header_digest (cn_negotiated c) \<and> \<not> ng_data_digest (cn_negotiated c)"
    using e(1) by (simp add: login_phase_def operational_stage_def sthen_def declared_max_recv_def stage_code_def value_of_def
        plan_def)
  then obtain c where c: "login_phase ''iqn.t'' ''iqn.i'' plan t = (Inr c, t')" "cn_stream c = t'"
    "\<not> ng_header_digest (cn_negotiated c)" "\<not> ng_data_digest (cn_negotiated c)" by blast
  have "login example_net 1 0 0 ''h'' ''iqn.t'' ''iqn.i'' None ''None'' = Inr (session_of c)"
    using k(1) c(1) by (simp add: login_def login_with_offer_def login_as_def login_with_keys_def establish_def
        connect_stream_def example_net_def t_def [symmetric] plan_def [symmetric])
  moreover have "pad4 [1, 2, 3, 4, 5] = [1, 2, 3, 4, 5, 0, 0, 0]" by code_simp
  then have "tc_in (sn_stream (session_of c)) = frame_bytes (sn_negotiated (session_of c)) example_header [1, 2, 3, 4, 5] @ []"
    using c e(2) by (simp add: session_of_def established_def frame_bytes_def)
  ultimately show ?thesis by blast
qed

theorem declared_segments_accepted_witness:
  "\<exists>s s'. login example_net 1 0 0 ''h'' ''iqn.t'' ''iqn.i'' None ''None'' = Inr s \<and> recv s = (Inr example_header, s')
    \<and> sn_rx s' = [1, 2, 3, 4, 5]"
proof -
  obtain s where s: "login example_net 1 0 0 ''h'' ''iqn.t'' ''iqn.i'' None ''None'' = Inr s"
    "tc_in (sn_stream s) = frame_bytes (sn_negotiated s) example_header [1, 2, 3, 4, 5] @ []"
    using example_net_login by blast
  have "length example_header = 48" "data_len example_header = length [1 :: u8, 2, 3, 4, 5]"
    by (simp_all add: example_header_def set_data_len_def nop_out_def Let_def data_len_copy)
  moreover have "length [1 :: u8, 2, 3, 4, 5] \<le> ng_own_max_recv (sn_negotiated s)"
    using login_own_max_recv [OF s(1)] by (simp add: max_own_recv_def)
  ultimately show ?thesis using declared_segments_accepted [OF s(1) _ _ _ s(2)] s(1) by blast
qed

end
