(* ===== verification/Nvme_Link.thy ===== *)
theory Nvme_Link
  imports Nvme_Pdu Login
begin

text \<open>
  \<open>src/rust/src/nvme/link.rs\<close> and \<open>src/rust/src/nvme/controller.rs\<close>: one queue's connection, the commands
  that run on it one at a time, and the admin queue. The network is the parameter of \<open>Login\<close>: for an address,
  a time and the number of the connection it gives the byte stream or the error of the system. A synchronous
  command ends because each PDU it reads has at least eight bytes. The lemmas show what answering an R2T
  sends, that a command returns only its own completion, and that waiting for the controller ends.
\<close>

unbundle bit_operations_syntax

section \<open>Links\<close>

definition default_h2c :: u32 where
  "default_h2c = 64 * 1024"

text \<open>The buffer of \<open>In\<close> is in the caller's hands: \<open>link_submit\<close> returns it with what arrived.\<close>

datatype link_data = No_Data | Data_In "u8 list" | Data_Out "u8 list" | Data_Inline "u8 list"

record link =
  lk_stream :: tcp
  lk_max_h2c :: u32

definition link_send :: "u8 list \<Rightarrow> link \<Rightarrow> unit result \<times> link" where
  "link_send bytes l = (let (r, t) = write_pdu bytes (lk_stream l) in (r, l\<lparr>lk_stream := t\<rparr>))"

definition link_read :: "link \<Rightarrow> nvme_pdu result \<times> link" where
  "link_read l = (let (r, t) = read_pdu (lk_stream l) in (r, l\<lparr>lk_stream := t\<rparr>))"

text \<open>ICReq and ICResp.\<close>

definition handshake :: "link \<Rightarrow> unit result \<times> link" where
  "handshake l =
     sthen (link_send icreq l) (\<lambda>_ l.
     sthen (link_read l) (\<lambda>p l.
     sthen (parse_icresp p, l) (\<lambda>resp l.
       (Inr (), if ic_max_h2c_data resp \<noteq> 0
                then l\<lparr>lk_max_h2c := min (ic_max_h2c_data resp) default_h2c\<rparr> else l))))"

definition link_open :: "network \<Rightarrow> nat \<Rightarrow> nat \<Rightarrow> string \<Rightarrow> link result" where
  "link_open net now attempt addr =
     and_then (map_err (''NVMe/TCP: connecting to '' @ addr @ '': '') (net addr now attempt)) (\<lambda>stream.
       let (r, l) = handshake \<lparr>lk_stream = stream, lk_max_h2c = default_h2c\<rparr> in and_then r (\<lambda>_. Inr l))"

definition send_capsule :: "nvme_command \<Rightarrow> u8 list \<Rightarrow> link \<Rightarrow> unit result \<times> link" where
  "send_capsule sqe data l =
     link_send (frame_into capsule_cmd_type 0 capsule_cmd_len (\<lambda>h. copy_at 8 sqe h) data) l"

text \<open>
  The loop of \<open>send_h2c\<close>: \<open>src\<close> is the slice the R2T asks for. Each round sends at least a header, so the loop
  ends with the bytes the connection takes, also for a limit of 0.
\<close>

definition h2c_frame :: "u16 \<Rightarrow> u16 \<Rightarrow> u32 \<Rightarrow> u8 list \<Rightarrow> bool \<Rightarrow> u8 list" where
  "h2c_frame cid ttag datao piece last_one =
     frame_into h2c_data_type (if last_one then flag_last else 0) data_header_len
       (h2c_fields cid ttag datao (of_nat (length piece))) piece"

lemma h2c_frame_length [simp]: "length (h2c_frame cid ttag datao piece last_one) = 24 + length piece"
  by (simp add: h2c_frame_def frame_into_def h2c_fields_def nvme_lens Let_def)

lemma h2c_frame_not_Nil [simp]: "h2c_frame cid ttag datao piece last_one \<noteq> []"
  using h2c_frame_length [of cid ttag datao piece last_one] by fastforce

lemma link_send_accepts:
  assumes "(Inr u, l') = link_send bytes l" and "bytes \<noteq> []"
  shows "tc_accepts (lk_stream l') < tc_accepts (lk_stream l)"
  using assms by (cases bytes) (auto simp: link_send_def write_pdu_def write_all_def map_err_def Let_def split: if_splits)

function h2c_loop :: "u16 \<Rightarrow> nvme_r2t \<Rightarrow> u8 list \<Rightarrow> nat \<Rightarrow> link \<Rightarrow> unit result \<times> link" where
  "h2c_loop cid r src done_so_far l =
     (if length src \<le> done_so_far then (Inr (), l)
      else let n = min (length src - done_so_far) (unat (lk_max_h2c l));
               last_one = (done_so_far + n = length src)
           in if 2 ^ 32 \<le> unat (nr_r2to r) + unat (of_nat done_so_far :: u32) then (Inl Panic, l)
              else case link_send (h2c_frame cid (nr_ttag r) (nr_r2to r + of_nat done_so_far)
                                     (slice done_so_far n src) last_one) l of
                     (Inl e, l) \<Rightarrow> (Inl e, l)
                   | (Inr _, l) \<Rightarrow> h2c_loop cid r src (done_so_far + n) l)"
  by pat_completeness auto

termination
  by (relation "measure (\<lambda>(cid, r, src, k, l). tc_accepts (lk_stream l))")
    (auto intro!: link_send_accepts)

declare h2c_loop.simps [simp del]

definition send_h2c :: "u16 \<Rightarrow> nvme_r2t \<Rightarrow> u8 list \<Rightarrow> link \<Rightarrow> unit result \<times> link" where
  "send_h2c cid r buf l =
     (case get_slice (unat (nr_r2to r)) (unat (nr_r2tl r)) buf of
        None \<Rightarrow> (Inl (Err ''NVMe/TCP: R2T asks for data outside the command's buffer''), l)
      | Some src \<Rightarrow> h2c_loop cid r src 0 l)"

text \<open>
  One PDU while a command runs: the completion when it is done, with the buffer the data goes to. \<open>copy_from_slice\<close>
  panics when the data is not as long as the PDU says.
\<close>

definition no_completion :: "u16 \<Rightarrow> nvme_completion" where
  "no_completion cid = \<lparr>cq_dw0 = 0, cq_wide = 0, cq_sq_head = 0, cq_cid = cid, cq_status = 0\<rparr>"

type_synonym sync_step = "nvme_completion option result \<times> link \<times> u8 list option"

definition sync_c2h :: "u16 \<Rightarrow> u8 list option \<Rightarrow> nvme_pdu \<Rightarrow> link \<Rightarrow> sync_step" where
  "sync_c2h cid sink p l =
     (case parse_c2h p of
        Inl e \<Rightarrow> (Inl e, l, sink)
      | Inr c2h \<Rightarrow>
          (case sink of
             None \<Rightarrow> (Inl (Err ''NVMe/TCP: controller sent data for a command with none''), l, sink)
           | Some buf \<Rightarrow>
               if ch_cccid c2h \<noteq> cid
               then (Inl (Err (''NVMe/TCP: data for command '' @ show_nat (unat (ch_cccid c2h)) @ '' while ''
                       @ show_nat (unat cid) @ '' is in flight'')), l, sink)
               else if length buf < unat (ch_datao c2h) + unat (ch_datal c2h)
               then (Inl (Err ''NVMe/TCP: C2HData outside the command's buffer''), l, sink)
               else if length (np_data p) \<noteq> unat (ch_datal c2h) then (Inl Panic, l, sink)
               else (Inr (if ch_success c2h then Some (no_completion cid) else None), l,
                     Some (copy_at (unat (ch_datao c2h)) (np_data p) buf))))"

definition handle_sync :: "u16 \<Rightarrow> u8 list option \<Rightarrow> u8 list option \<Rightarrow> nvme_pdu \<Rightarrow> link \<Rightarrow> sync_step" where
  "handle_sync cid sink src p l =
     (if np_kind p = c2h_data_type then sync_c2h cid sink p l
      else if np_kind p = r2t_type then
        (case parse_r2t p of
           Inl e \<Rightarrow> (Inl e, l, sink)
         | Inr r \<Rightarrow>
             (case src of
                None \<Rightarrow> (Inl (Err ''NVMe/TCP: controller asked for data this command does not send''), l, sink)
              | Some buf \<Rightarrow> (case send_h2c cid r buf l of
                              (Inl e, l) \<Rightarrow> (Inl e, l, sink) | (Inr _, l) \<Rightarrow> (Inr None, l, sink))))
      else if np_kind p = capsule_resp_type then
        (case parse_capsule_resp p of
           Inl e \<Rightarrow> (Inl e, l, sink)
         | Inr cqe \<Rightarrow>
             let c = completion_parse cqe
             in if cq_cid c \<noteq> cid
                then (Inl (Err (''NVMe/TCP: completion for command '' @ show_nat (unat (cq_cid c)) @ '' while ''
                        @ show_nat (unat cid) @ '' is in flight'')), l, sink)
                else (Inr (Some c), l, sink))
      else if np_kind p = term_c2h \<or> np_kind p = term_h2c
      then (and_then (describe_term p) (\<lambda>e. Inl (Err e)), l, sink)
      else (Inl (Err (''NVMe/TCP: unexpected PDU type '' @ alt_hex (np_kind p) @ '' on a synchronous command'')), l, sink))"

text \<open>Sending leaves the input alone, and reading a PDU takes at least its common header.\<close>

lemma link_send_input: "link_send bytes l = (r, l') \<Longrightarrow>
    tc_in (lk_stream l') = tc_in (lk_stream l) \<and> lk_max_h2c l' = lk_max_h2c l"
  by (auto simp: link_send_def write_pdu_def write_all_def Let_def split: if_splits)

lemma h2c_loop_input: "h2c_loop cid r src k l = (x, l') \<Longrightarrow>
    tc_in (lk_stream l') = tc_in (lk_stream l) \<and> lk_max_h2c l' = lk_max_h2c l"
proof (induction cid r src k l rule: h2c_loop.induct)
  case (1 cid r src k l)
  define n where "n = min (length src - k) (unat (lk_max_h2c l))"
  define lst where "lst = (k + n = length src)"
  obtain y t where f: "link_send (h2c_frame cid (nr_ttag r) (nr_r2to r + of_nat k) (slice k n src) lst) l = (y, t)"
    by fastforce
  show ?case
  proof (cases "length src \<le> k \<or> 2 ^ 32 \<le> unat (nr_r2to r) + unat (of_nat k :: u32)")
    case True
    then show ?thesis
      using 1(2) by (subst (asm) h2c_loop.simps) (auto simp: Let_def split: if_splits)
  next
    case False
    then show ?thesis
      using 1(1) [OF _ n_def lst_def _ f [symmetric]] 1(2) f link_send_input [OF f]
      by (cases y) (auto simp: h2c_loop.simps [of cid r src k] Let_def n_def [symmetric] lst_def [symmetric])
  qed
qed

lemma send_h2c_input: "send_h2c cid r buf l = (x, l') \<Longrightarrow>
    tc_in (lk_stream l') = tc_in (lk_stream l) \<and> lk_max_h2c l' = lk_max_h2c l"
  by (auto simp: send_h2c_def dest: h2c_loop_input split: option.splits)

lemma handle_sync_input: "handle_sync cid sink src p l = (x, l', sink') \<Longrightarrow>
    tc_in (lk_stream l') = tc_in (lk_stream l) \<and> lk_max_h2c l' = lk_max_h2c l"
  by (auto simp: handle_sync_def sync_c2h_def Let_def dest: send_h2c_input split: if_splits sum.splits option.splits prod.splits)

lemma read_pdu_shrinks: "read_pdu t = (Inr p, t') \<Longrightarrow> length (tc_in t') < length (tc_in t)"
  by (auto simp: read_pdu_def read_exact_Inr Let_def nvme_lens split: if_splits prod.splits sum.splits)

lemma link_read_shrinks: "link_read l = (Inr p, l') \<Longrightarrow> length (tc_in (lk_stream l')) < length (tc_in (lk_stream l))"
  by (auto simp: link_read_def Let_def dest: read_pdu_shrinks split: prod.splits)

function sync_loop ::
  "u16 \<Rightarrow> u8 list option \<Rightarrow> u8 list option \<Rightarrow> link \<Rightarrow> nvme_completion result \<times> link \<times> u8 list option" where
  "sync_loop cid sink src l =
     (case link_read l of
        (Inl e, l) \<Rightarrow> (Inl e, l, sink)
      | (Inr p, l) \<Rightarrow>
          (case handle_sync cid sink src p l of
             (Inl e, l, sink) \<Rightarrow> (Inl e, l, sink)
           | (Inr (Some c), l, sink) \<Rightarrow> (Inr c, l, sink)
           | (Inr None, l, sink) \<Rightarrow> sync_loop cid sink src l))"
  by pat_completeness auto

termination
  by (relation "measure (\<lambda>(cid, sink, src, l). length (tc_in (lk_stream l)))")
    (auto dest!: link_read_shrinks [OF sym] handle_sync_input [OF sym])

declare sync_loop.simps [simp del]

text \<open>The buffer of \<open>In\<close> comes back third.\<close>

definition link_submit ::
  "u16 \<Rightarrow> nvme_command \<Rightarrow> link_data \<Rightarrow> link \<Rightarrow> nvme_completion result \<times> link \<times> u8 list option" where
  "link_submit cid cmd data l =
     (let cmd = copy_at 2 (to_le_bytes cid) cmd;
          inline = (case data of Data_Inline b \<Rightarrow> b | _ \<Rightarrow> []);
          cmd = (case data of No_Data \<Rightarrow> set_data 0 False cmd
                 | Data_In b \<Rightarrow> set_data (length b) False cmd
                 | Data_Out b \<Rightarrow> set_data (length b) False cmd
                 | Data_Inline b \<Rightarrow> set_data (length b) True cmd);
          sink = (case data of Data_In b \<Rightarrow> Some b | _ \<Rightarrow> None);
          src = (case data of Data_Out b \<Rightarrow> Some b | _ \<Rightarrow> None)
      in case send_capsule cmd inline l of
           (Inl e, l) \<Rightarrow> (Inl e, l, sink)
         | (Inr _, l) \<Rightarrow> sync_loop cid sink src l)"

section \<open>The admin queue\<close>

definition admin_sqsize :: u16 where
  "admin_sqsize = 31"

definition kato_ms :: u32 where
  "kato_ms = 10000"

definition prop_cap :: u32 where "prop_cap = 0x00"
definition prop_cc :: u32 where "prop_cc = 0x14"
definition prop_csts :: u32 where "prop_csts = 0x1c"

text \<open>The address is its text; the host identifier has 16 bytes.\<close>

record association =
  as_addr :: string
  as_subnqn :: string
  as_hostnqn :: string
  as_hostid :: "u8 list"

record controller =
  ct_link :: link
  ct_cntlid :: u16
  ct_next_cid :: u16

definition check_done :: "nvme_completion \<Rightarrow> string \<Rightarrow> unit result" where
  "check_done c what =
     (if completion_ok c then Inr ()
      else let (sct, sc) = completion_code c
           in Inl (Err (''NVMe/TCP: '' @ what @ '' failed: status code type '' @ alt_hex sct @ '', status code '' @ alt_hex sc)))"

definition controller_submit ::
  "nvme_command \<Rightarrow> link_data \<Rightarrow> controller \<Rightarrow> (nvme_completion \<times> u8 list option) result \<times> controller" where
  "controller_submit cmd data c =
     (let cid = ct_next_cid c;
          (r, l, sink) = link_submit cid cmd data (ct_link c)
      in (and_then r (\<lambda>d. Inr (d, sink)), c\<lparr>ct_link := l, ct_next_cid := max (cid + 1) 1\<rparr>))"

definition property_get :: "u32 \<Rightarrow> bool \<Rightarrow> controller \<Rightarrow> u64 result \<times> controller" where
  "property_get offset wide c =
     (let cmd = command_new op_fabrics 0;
          cmd = set_u8 4 fctype_property_get cmd;
          cmd = set_u8 40 (of_bool wide) cmd;
          cmd = set_u32 44 offset cmd
      in sthen (controller_submit cmd No_Data c) (\<lambda>(d, _) c.
         sthen (check_done d ''Property Get'', c) (\<lambda>_ c.
           (Inr (if wide then cq_wide d else ucast (cq_dw0 d)), c))))"

definition property_set :: "u32 \<Rightarrow> u32 \<Rightarrow> controller \<Rightarrow> unit result \<times> controller" where
  "property_set offset v c =
     (let cmd = command_new op_fabrics 0;
          cmd = set_u8 4 fctype_property_set cmd;
          cmd = set_u8 40 0 cmd;
          cmd = set_u32 44 offset cmd;
          cmd = set_u64 48 (ucast v) cmd
      in sthen (controller_submit cmd No_Data c) (\<lambda>(d, _) c. (check_done d ''Property Set'', c)))"

lemma link_send_keeps: "link_send bytes l = (r, l') \<Longrightarrow> length (tc_in (lk_stream l')) = length (tc_in (lk_stream l))"
  by (simp add: link_send_input)

lemma link_read_le: "link_read l = (r, l') \<Longrightarrow> length (tc_in (lk_stream l')) \<le> length (tc_in (lk_stream l))"
  by (auto simp: link_read_def read_pdu_def read_exact_def Let_def split: if_splits prod.splits sum.splits)

lemma sync_loop_shrinks:
  "sync_loop cid sink src l = (r, l', sink') \<Longrightarrow> length (tc_in (lk_stream l')) \<le> length (tc_in (lk_stream l))
    \<and> (\<forall>d. r = Inr d \<longrightarrow> length (tc_in (lk_stream l')) < length (tc_in (lk_stream l)))"
proof (induction cid sink src l rule: sync_loop.induct)
  case (1 cid sink src l)
  obtain x t where rd: "link_read l = (x, t)" by fastforce
  show ?case
  proof (cases x)
    case (Inl e)
    then show ?thesis using 1(2) rd link_read_le [OF rd] by (auto simp: sync_loop.simps [of cid sink src l])
  next
    case (Inr p)
    obtain y u sk where h: "handle_sync cid sink src p t = (y, u, sk)" by (metis prod_cases3)
    note less = link_read_shrinks [of l p t] handle_sync_input [OF h]
    consider e where "y = Inl e" | d where "y = Inr (Some d)" | "y = Inr None" by (metis old.sum.exhaust option.exhaust)
    then show ?thesis
    proof cases
      case 3
      then have "sync_loop cid sk src u = (r, l', sink')"
        using 1(2) rd Inr h by (simp add: sync_loop.simps [of cid sink src l])
      then show ?thesis
        using 1(1) [OF rd [symmetric] Inr h [symmetric] 3 refl refl] less rd Inr by force
    qed (use 1(2) rd Inr h less in \<open>auto simp: sync_loop.simps [of cid sink src l]\<close>)
  qed
qed

lemma controller_submit_shrinks:
  "controller_submit cmd data c = (Inr d, c') \<Longrightarrow>
   length (tc_in (lk_stream (ct_link c'))) < length (tc_in (lk_stream (ct_link c)))"
  by (auto simp: controller_submit_def link_submit_def send_capsule_def Let_def and_then_eq_Inr
      dest!: link_send_keeps sync_loop_shrinks split: prod.splits sum.splits)

lemma sthen_Inr: "sthen r f = (Inr y, s') \<longleftrightarrow> (\<exists>x s. r = (Inr x, s) \<and> f x s = (Inr y, s'))"
  by (cases r; cases "fst r") (auto simp: sthen_def)

lemma property_get_shrinks:
  "(Inr v, c') = property_get offset wide c \<Longrightarrow>
   length (tc_in (lk_stream (ct_link c'))) < length (tc_in (lk_stream (ct_link c)))"
  by (auto simp: property_get_def Let_def sthen_Inr dest!: sym [of "(Inr v, c')"] controller_submit_shrinks)

text \<open>
  The loop of \<open>enable\<close>. Whether the 30 seconds have passed is asked once a round; \<open>late k\<close> is the answer in round \<open>k\<close>.
\<close>

function enable_loop :: "(nat \<Rightarrow> bool) \<Rightarrow> nat \<Rightarrow> controller \<Rightarrow> unit result \<times> controller" where
  "enable_loop late k c =
     (case property_get prop_csts False c of
        (Inl e, c) \<Rightarrow> (Inl e, c)
      | (Inr csts, c) \<Rightarrow>
          if csts AND 0x2 \<noteq> 0 then (Inl (Err ''NVMe/TCP: controller reports a fatal status (CSTS.CFS)''), c)
          else if csts AND 0x1 \<noteq> 0 then (Inr (), c)
          else if late k then (Inl (Err ''NVMe/TCP: controller did not become ready (CSTS.RDY)''), c)
          else enable_loop late (k + 1) c)"
  by pat_completeness auto

termination
  by (relation "measure (\<lambda>(late, k, c). length (tc_in (lk_stream (ct_link c))))") (auto intro!: property_get_shrinks)

declare enable_loop.simps [simp del]

definition enable :: "(nat \<Rightarrow> bool) \<Rightarrow> controller \<Rightarrow> unit result \<times> controller" where
  "enable late c =
     sthen (property_set prop_cc (1 OR push_bit 16 6 OR push_bit 20 4) c) (\<lambda>_ c. enable_loop late 0 c)"

definition identify_cmd :: "u32 \<Rightarrow> u32 \<Rightarrow> nvme_command" where
  "identify_cmd cns nsid = set_u32 40 cns (set_nsid nsid (command_new op_identify 0))"

text \<open>\<open>buf\<close> is the buffer with the data that arrived.\<close>

definition identify :: "u32 \<Rightarrow> u32 \<Rightarrow> controller \<Rightarrow> u8 list result \<times> controller" where
  "identify cns nsid c =
     sthen (controller_submit (identify_cmd cns nsid) (Data_In (replicate 4096 0)) c) (\<lambda>(d, buf) c.
     sthen (check_done d ''Identify'', c) (\<lambda>_ c. (Inr (the buf), c)))"

definition identify_status ::
  "u32 \<Rightarrow> u32 \<Rightarrow> u8 list \<Rightarrow> controller \<Rightarrow> (nvme_completion \<times> u8 list option) result \<times> controller" where
  "identify_status cns nsid buf c = controller_submit (identify_cmd cns nsid) (Data_In buf) c"

definition get_log_page :: "u8 \<Rightarrow> u64 \<Rightarrow> nat \<Rightarrow> controller \<Rightarrow> u8 list result \<times> controller" where
  "get_log_page lid offset len c =
     (if len < 4 then (Inl Panic, c)
      else let cmd = command_new op_get_log_page 0;
               cmd = set_u32 40 (push_bit 16 (of_nat (len div 4 - 1)) OR ucast lid) cmd;
               cmd = set_u32 48 (ucast offset) cmd;
               cmd = set_u32 52 (ucast (drop_bit 32 offset)) cmd
           in sthen (controller_submit cmd (Data_In (replicate len 0)) c) (\<lambda>(d, buf) c.
              sthen (check_done d ''Get Log Page'', c) (\<lambda>_ c. (Inr (the buf), c))))"

definition keep_alive :: "controller \<Rightarrow> unit result \<times> controller" where
  "keep_alive c =
     sthen (controller_submit (command_new op_keep_alive 0) No_Data c) (\<lambda>(d, _) c. (check_done d ''Keep Alive'', c))"

definition get_features ::
  "u8 \<Rightarrow> u32 \<Rightarrow> u8 list option \<Rightarrow> controller \<Rightarrow> (nvme_completion \<times> u8 list option) result \<times> controller" where
  "get_features fid cdw11 buf c =
     (let cmd = command_new op_get_features 0;
          cmd = set_u32 40 (ucast fid) cmd;
          cmd = set_u32 44 cdw11 cmd
      in controller_submit cmd (case buf of None \<Rightarrow> No_Data | Some b \<Rightarrow> Data_In b) c)"

definition log_page ::
  "u8 \<Rightarrow> u32 \<Rightarrow> u8 \<Rightarrow> u8 list \<Rightarrow> controller \<Rightarrow> (nvme_completion \<times> u8 list option) result \<times> controller" where
  "log_page lid nsid lsp buf c =
     (if length buf < 4 then (Inl Panic, c)
      else let cmd = set_nsid nsid (command_new op_get_log_page 0);
               cmd = set_u32 40 (push_bit 16 (of_nat (length buf div 4 - 1)) OR push_bit 8 (ucast lsp AND 0x7f) OR ucast lid) cmd
           in controller_submit cmd (Data_In buf) c)"

definition post :: "nvme_command \<Rightarrow> controller \<Rightarrow> u16 result \<times> controller" where
  "post cmd c =
     (let cid = ct_next_cid c;
          cmd = set_data 0 False (copy_at 2 (to_le_bytes cid) cmd);
          (r, l) = send_capsule cmd [] (ct_link c)
      in (and_then r (\<lambda>_. Inr cid), c\<lparr>ct_link := l, ct_next_cid := max (cid + 1) 1\<rparr>))"

definition next_completion :: "controller \<Rightarrow> nvme_completion result \<times> controller" where
  "next_completion c =
     (let (r, l) = link_read (ct_link c)
      in (and_then r (\<lambda>p.
            if np_kind p = capsule_resp_type then and_then (parse_capsule_resp p) (\<lambda>d. Inr (completion_parse d))
            else if np_kind p = term_c2h \<or> np_kind p = term_h2c then and_then (describe_term p) (\<lambda>e. Inl (Err e))
            else Inl (Err (''NVMe/TCP: unexpected PDU type '' @ alt_hex (np_kind p) @ '' on the admin queue''))),
          c\<lparr>ct_link := l\<rparr>))"

section \<open>Connecting queues\<close>

definition connect_data :: "association \<Rightarrow> u16 \<Rightarrow> u8 list result" where
  "connect_data a cntlid =
     (if 223 < length (as_subnqn a) \<or> 223 < length (as_hostnqn a)
      then Inl (Err ''NVMe/TCP: a subsystem or host NQN is longer than 223 bytes'')
      else let d = replicate 1024 0;
               d = copy_at 0 (as_hostid a) d;
               d = copy_at 16 (to_le_bytes cntlid) d;
               d = copy_at 256 (bytes_of (as_subnqn a)) d
           in Inr (copy_at 512 (bytes_of (as_hostnqn a)) d))"

definition connect_cmd :: "u16 \<Rightarrow> u16 \<Rightarrow> nvme_command" where
  "connect_cmd qid sqsize =
     (let cmd = command_new op_fabrics 0;
          cmd = set_u8 4 fctype_connect cmd;
          cmd = set_u16 40 0 cmd;
          cmd = set_u16 42 qid cmd;
          cmd = set_u16 44 sqsize cmd
      in set_u32 48 (if qid = 0 then kato_ms else 0) cmd)"

definition fabrics_connect :: "association \<Rightarrow> u16 \<Rightarrow> u16 \<Rightarrow> u16 \<Rightarrow> link \<Rightarrow> u16 result \<times> link" where
  "fabrics_connect a cntlid qid sqsize l =
     sthen (connect_data a cntlid, l) (\<lambda>data l.
       let (r, l, _) = link_submit 1 (connect_cmd qid sqsize) (Data_Inline data) l
       in (and_then r (\<lambda>d. and_then (check_done d ''Fabrics Connect'') (\<lambda>_. Inr (ucast (cq_dw0 d AND 0xffff)))), l))"

definition controller_connect :: "network \<Rightarrow> nat \<Rightarrow> nat \<Rightarrow> association \<Rightarrow> controller result" where
  "controller_connect net now attempt a =
     and_then (link_open net now attempt (as_addr a)) (\<lambda>l.
       let (r, l) = fabrics_connect a 0xffff 0 admin_sqsize l
       in and_then r (\<lambda>cntlid. Inr \<lparr>ct_link = l, ct_cntlid = cntlid, ct_next_cid = 1\<rparr>))"

definition connect_io_queue :: "network \<Rightarrow> nat \<Rightarrow> nat \<Rightarrow> association \<Rightarrow> u16 \<Rightarrow> u16 \<Rightarrow> u16 \<Rightarrow> link result" where
  "connect_io_queue net now attempt a cntlid qid sqsize =
     and_then (link_open net now attempt (as_addr a)) (\<lambda>l.
       let (r, l) = fabrics_connect a cntlid qid sqsize l in and_then r (\<lambda>_. Inr l))"

section \<open>Answering an R2T\<close>

lemma h2c_frame_data: "h2c_frame cid ttag datao piece lst = h2c_data cid ttag datao piece lst"
  unfolding h2c_frame_def h2c_data_def by (subst frame_into_encode) (simp_all add: h2c_fields_def nvme_lens)

text \<open>
  The specification: the bytes asked for, cut into pieces of the size the controller takes, each in an H2CData
  PDU with its offset, the last one marked.
\<close>

definition h2c_pdus :: "u16 \<Rightarrow> nvme_r2t \<Rightarrow> nat \<Rightarrow> u8 list \<Rightarrow> nat \<Rightarrow> u8 list \<Rightarrow> u8 list list" where
  "h2c_pdus cid r limit src j rest =
     map (\<lambda>(i, piece). h2c_data cid (nr_ttag r) (nr_r2to r + of_nat (i * limit)) piece
                      (i * limit + length piece = length src))
       (enumerate j (chunks limit rest))"

lemma link_send_Inr:
  "length bytes \<le> tc_accepts (lk_stream l) \<Longrightarrow> link_send bytes l = (Inr (), l\<lparr>lk_stream := (lk_stream l)\<lparr>
      tc_out := tc_out (lk_stream l) @ bytes, tc_accepts := tc_accepts (lk_stream l) - length bytes\<rparr>\<rparr>)"
  by (simp add: link_send_def write_pdu_def write_all_def map_err_def)

lemma h2c_loop_sends:
  assumes "0 < unat (lk_max_h2c l)" and "unat (nr_r2to r) + length src \<le> 2 ^ 32"
    and "length (concat (h2c_pdus cid r (unat (lk_max_h2c l)) src j (drop (j * unat (lk_max_h2c l)) src))) \<le> tc_accepts (lk_stream l)"
  shows "h2c_loop cid r src (j * unat (lk_max_h2c l)) l
    = (Inr (), l\<lparr>lk_stream := (lk_stream l)\<lparr>
         tc_out := tc_out (lk_stream l) @ concat (h2c_pdus cid r (unat (lk_max_h2c l)) src j (drop (j * unat (lk_max_h2c l)) src)),
         tc_accepts := tc_accepts (lk_stream l)
           - length (concat (h2c_pdus cid r (unat (lk_max_h2c l)) src j (drop (j * unat (lk_max_h2c l)) src)))\<rparr>\<rparr>)"
  using assms
proof (induction "length src - j * unat (lk_max_h2c l)" arbitrary: j l rule: less_induct)
  case less
  let ?b = "unat (lk_max_h2c l)" and ?k = "j * unat (lk_max_h2c l)"
  show ?case
  proof (cases "length src \<le> ?k")
    case True
    then show ?thesis by (simp add: h2c_loop.simps [of cid r src] h2c_pdus_def)
  next
    case False
    let ?n = "min (length src - ?k) ?b" and ?piece = "take ?b (drop ?k src)"
    let ?pdu = "h2c_data cid (nr_ttag r) (nr_r2to r + of_nat ?k) ?piece (?k + length ?piece = length src)"
    have ne: "drop ?k src \<noteq> []" using False by simp
    have pdus: "h2c_pdus cid r ?b src j (drop ?k src)
        = ?pdu # h2c_pdus cid r ?b src (Suc j) (drop (Suc j * ?b) src)"
      using ne less.prems(1) by (simp add: h2c_pdus_def enumerate_chunks_Cons add.commute)
    have piece: "slice ?k ?n src = ?piece" "length ?piece = ?n" by (simp_all add: slice_def min_def)
    have k: "?k < 2 ^ 32" "unat (of_nat ?k :: u32) = ?k"
      using False less.prems(2) by (simp_all add: unat_of_nat take_bit_nat_eq_self del: of_nat_mult)
    have no_panic: "\<not> 2 ^ 32 \<le> unat (nr_r2to r) + unat (of_nat ?k :: u32)"
      unfolding k(2) using False less.prems(2) by linarith
    have fits: "length ?pdu \<le> tc_accepts (lk_stream l)" using less.prems(3) pdus by simp
    let ?l = "l\<lparr>lk_stream := (lk_stream l)\<lparr>tc_out := tc_out (lk_stream l) @ ?pdu,
       tc_accepts := tc_accepts (lk_stream l) - length ?pdu\<rparr>\<rparr>"
    have step: "h2c_loop cid r src ?k l = h2c_loop cid r src (?k + ?n) ?l"
      using False no_panic link_send_Inr [OF fits]
      by (simp add: h2c_loop.simps [of cid r src ?k] Let_def h2c_frame_data piece del: of_nat_mult)
    show ?thesis
    proof (cases "?n = ?b")
      case True
      have "h2c_loop cid r src (Suc j * unat (lk_max_h2c ?l)) ?l = (Inr (), ?l\<lparr>lk_stream := (lk_stream ?l)\<lparr>
         tc_out := tc_out (lk_stream ?l) @ concat (h2c_pdus cid r ?b src (Suc j) (drop (Suc j * ?b) src)),
         tc_accepts := tc_accepts (lk_stream ?l) - length (concat (h2c_pdus cid r ?b src (Suc j) (drop (Suc j * ?b) src)))\<rparr>\<rparr>)"
        using less.hyps [of "Suc j" ?l] less.prems False pdus by simp
      then show ?thesis using step True pdus by (simp add: add.commute)
    next
      case False
      then have e: "length src \<le> ?k + ?n" "length src \<le> Suc j * ?b" by auto
      have stop: "h2c_loop cid r src (?k + ?n) ?l = (Inr (), ?l)" by (subst h2c_loop.simps) (simp only: e(1) if_True)
      have nil: "h2c_pdus cid r ?b src (Suc j) (drop (Suc j * ?b) src) = []" using e(2) by (simp add: h2c_pdus_def)
      show ?thesis unfolding step stop pdus nil by simp
    qed
  qed
qed

text \<open>
  C11: Answering an R2T implements its specification: when the R2T lies inside the command's data and the
  connection takes the bytes, \<open>send_h2c\<close> returns and has sent exactly the bytes asked for, as H2CData PDUs of the
  reference encoder that are no larger than the controller's limit, at consecutive offsets, the last one
  marked. It never panics, and nothing else is sent.\<close>

theorem h2c_answers_r2t:
  assumes "lk_max_h2c l \<noteq> 0" and "unat (nr_r2to r) + unat (nr_r2tl r) \<le> length buf" and "length buf \<le> 2 ^ 32"
    and "pdus = h2c_pdus cid r (unat (lk_max_h2c l)) (slice (unat (nr_r2to r)) (unat (nr_r2tl r)) buf) 0
                  (slice (unat (nr_r2to r)) (unat (nr_r2tl r)) buf)"
    and "length (concat pdus) \<le> tc_accepts (lk_stream l)"
  shows "\<exists>l'. send_h2c cid r buf l = (Inr (), l') \<and> tc_out (lk_stream l') = tc_out (lk_stream l) @ concat pdus
    \<and> tc_in (lk_stream l') = tc_in (lk_stream l)"
proof -
  let ?src = "slice (unat (nr_r2to r)) (unat (nr_r2tl r)) buf"
  have "0 < unat (lk_max_h2c l)" using assms(1) by (simp add: unat_gt_0)
  moreover have "unat (nr_r2to r) + length ?src \<le> 2 ^ 32" using assms(2,3) by (simp add: min_def)
  ultimately show ?thesis
    using h2c_loop_sends [of l r ?src cid 0] assms(2,4,5) by (simp add: send_h2c_def get_slice_def)
qed

definition example_tcp :: "u8 list \<Rightarrow> tcp" where
  "example_tcp bytes = \<lparr>tc_in = bytes, tc_out = [], tc_accepts = 1000, tc_error = ''closed''\<rparr>"

definition example_link :: "u8 list \<Rightarrow> link" where
  "example_link bytes = \<lparr>lk_stream = example_tcp bytes, lk_max_h2c = 2\<rparr>"

definition example_r2t :: nvme_r2t where
  "example_r2t = \<lparr>nr_cccid = 5, nr_ttag = 9, nr_r2to = 1, nr_r2tl = 3\<rparr>"

theorem h2c_answers_r2t_witness:
  "\<exists>l'. send_h2c 5 example_r2t [10, 11, 12, 13, 14] (example_link []) = (Inr (), l')
    \<and> tc_out (lk_stream l') = h2c_data 5 9 1 [11, 12] False @ h2c_data 5 9 3 [13] True"
proof -
  let ?src = "slice (unat (nr_r2to example_r2t)) (unat (nr_r2tl example_r2t)) [10, 11, 12, 13, 14]"
  have p: "h2c_pdus 5 example_r2t (unat (lk_max_h2c (example_link []))) ?src 0 ?src
      = [h2c_data 5 9 1 [11, 12] False, h2c_data 5 9 3 [13] True]" by code_simp
  have len: "length (concat [h2c_data 5 9 1 [11, 12] False, h2c_data 5 9 3 [13] True]) \<le> tc_accepts (lk_stream (example_link []))"
    by code_simp
  show ?thesis
    using h2c_answers_r2t [OF _ _ _ p [symmetric] len] by (auto simp: example_link_def example_tcp_def example_r2t_def)
qed

section \<open>Commands one at a time\<close>

lemma handle_sync_own:
  "handle_sync cid sink src p l = (Inr x, l', sink') \<Longrightarrow>
   map_option length sink' = map_option length sink \<and> (\<forall>d. x = Some d \<longrightarrow> cq_cid d = cid)"
  by (auto simp: handle_sync_def sync_c2h_def no_completion_def Let_def and_then_eq_Inr
      split: if_splits sum.splits option.splits prod.splits)

lemma sync_loop_own:
  "sync_loop cid sink src l = (Inr d, l', sink') \<Longrightarrow> map_option length sink' = map_option length sink \<and> cq_cid d = cid"
proof (induction cid sink src l rule: sync_loop.induct)
  case (1 cid sink src l)
  obtain x t where rd: "link_read l = (x, t)" by fastforce
  with 1(2) obtain p where p: "x = Inr p" by (cases x) (auto simp: sync_loop.simps [of cid sink src l])
  obtain y u sk where h: "handle_sync cid sink src p t = (y, u, sk)" by (metis prod_cases3)
  with 1(2) rd p obtain z where z: "y = Inr z" by (cases y) (auto simp: sync_loop.simps [of cid sink src l])
  note own = handle_sync_own [OF h [unfolded z]]
  show ?case
  proof (cases z)
    case None
    have "sync_loop cid sk src u = (Inr d, l', sink')"
      using 1(2) rd p h z None by (simp add: sync_loop.simps [of cid sink src l])
    from 1(1) [OF rd [symmetric] p h [symmetric] z None refl this] show ?thesis using own by simp
  qed (use 1(2) rd p h z own in \<open>simp add: sync_loop.simps [of cid sink src l]\<close>)
qed

lemma sync_loop_ends:
  "sync_loop cid sink src l = (Inr d, l', sink') \<Longrightarrow> map_option length sink' = map_option length sink \<and> cq_cid d = cid
    \<and> length (tc_in (lk_stream l')) < length (tc_in (lk_stream l))"
  using sync_loop_own sync_loop_shrinks by blast

text \<open>
  A command that runs alone on a queue returns only its own completion, and only after the controller
  sent something: the identifier of the completion is the one the command was sent with, the buffer of a read
  keeps its length, and the input of the connection got shorter. So an answer to another command is never
  taken for this one's.\<close>

theorem sync_command_own_completion:
  assumes "link_submit cid cmd data l = (Inr d, l', sink)"
  shows "cq_cid d = cid \<and> map_option length sink = (case data of Data_In b \<Rightarrow> Some (length b) | _ \<Rightarrow> None)
    \<and> length (tc_in (lk_stream l')) < length (tc_in (lk_stream l))"
  using assms
  by (auto simp: link_submit_def send_capsule_def Let_def dest!: sync_loop_ends link_send_keeps
      split: link_data.splits prod.splits sum.splits)

text \<open>A completion of command \<open>cid\<close> with a status, as a controller sends it.\<close>

definition example_response :: "u16 \<Rightarrow> u16 \<Rightarrow> u8 list" where
  "example_response cid status =
     encode capsule_resp_type 0 (copy_at 22 (to_le_bytes status) (copy_at 20 (to_le_bytes cid) (replicate 24 0))) []"

text \<open>Reading such a completion.\<close>

definition example_response_pdu :: "u16 \<Rightarrow> u16 \<Rightarrow> nvme_pdu" where
  "example_response_pdu cid status = \<lparr>np_kind = capsule_resp_type, np_flags = 0, np_header = stamped capsule_resp_type 0
     (copy_at 22 (to_le_bytes status) (copy_at 20 (to_le_bytes cid) (replicate 24 0))) [], np_data = []\<rparr>"

lemma example_response_read:
  assumes "tc_in (lk_stream l) = example_response cid status @ rest"
  shows "link_read l = (Inr (example_response_pdu cid status), l\<lparr>lk_stream := (lk_stream l)\<lparr>tc_in := rest\<rparr>\<rparr>)"
  using assms unfolding link_read_def example_response_def example_response_pdu_def
  by (subst read_encode [where rest = rest]) simp_all

lemma example_response_parse: "parse_capsule_resp (example_response_pdu cid status)
    = Inr (slice 8 16 (copy_at 22 (to_le_bytes status) (copy_at 20 (to_le_bytes cid) (replicate 24 0))))"
  by (simp add: parse_capsule_resp_def example_response_pdu_def nvme_lens)
    (simp add: stamped_def slice_def)

lemma slice_within: "a + n \<le> k \<Longrightarrow> slice a n (slice b k xs) = slice (b + a) n xs"
  by (simp add: slice_def min_absorb1 take_drop add.commute)

lemma example_response_fields:
  fixes cid status :: u16
  defines "b \<equiv> slice 8 16 (copy_at 22 (to_le_bytes status) (copy_at 20 (to_le_bytes cid) (replicate 24 0)))"
  shows "cq_cid (completion_parse b) = cid" "cq_status (completion_parse b) = status"
  by (simp_all add: completion_parse_def b_def slice_within slice_simps byte_simps)

theorem sync_command_own_completion_witness:
  "\<exists>d l'. link_submit 7 (command_new op_keep_alive 0) No_Data (example_link (example_response 7 1)) = (Inr d, l', None)
    \<and> cq_cid d = 7 \<and> completion_ok d"
proof -
  let ?l = "example_link (example_response 7 1)"
  let ?cmd = "set_data 0 False (copy_at 2 (to_le_bytes (7 :: u16)) (command_new op_keep_alive 0))"
  let ?d = "completion_parse (slice 8 16 (copy_at 22 (to_le_bytes (1 :: u16)) (copy_at 20 (to_le_bytes (7 :: u16)) (replicate 24 0))))"
  have c: "cq_cid ?d = 7" "completion_ok ?d"
    by (simp_all add: example_response_fields completion_ok_def drop_bit_Suc)
  obtain l1 where s: "send_capsule ?cmd [] ?l = (Inr (), l1)" and i: "tc_in (lk_stream l1) = example_response 7 1 @ []"
  proof -
    have n: "length (frame_into capsule_cmd_type 0 capsule_cmd_len (\<lambda>h. copy_at 8 ?cmd h) []) \<le> tc_accepts (lk_stream ?l)"
      by (simp add: frame_into_def Let_def nvme_lens set_data_def set_u32_def command_new_def dptr_def sgl_length_def
          example_link_def example_tcp_def)
    show thesis
      using that link_send_Inr [OF n] by (simp add: send_capsule_def example_link_def example_tcp_def)
  qed
  have "sync_loop 7 None None l1 = (Inr ?d, l1\<lparr>lk_stream := (lk_stream l1)\<lparr>tc_in := []\<rparr>\<rparr>, None)"
    using c(1)
    by (subst sync_loop.simps) (simp add: example_response_read [OF i] handle_sync_def example_response_parse Let_def,
        simp add: example_response_pdu_def nvme_types)
  then have r: "link_submit 7 (command_new op_keep_alive 0) No_Data ?l
      = (Inr ?d, l1\<lparr>lk_stream := (lk_stream l1)\<lparr>tc_in := []\<rparr>\<rparr>, None)"
    using s by (simp add: link_submit_def)
  from sync_command_own_completion [OF r] show ?thesis using r c by blast
qed

section \<open>Inputs the host does not survive\<close>

text \<open>
  The data of a C2HData PDU is copied into a slice of the length the PDU declares; when its own length is
  another one, the copy panics. Likewise a termination request with a header too short for its status.
\<close>

lemma c2h_length_panics:
  assumes "np_kind p = c2h_data_type" and "parse_c2h p = Inr c2h" and "ch_cccid c2h = cid"
    and "unat (ch_datao c2h) + unat (ch_datal c2h) \<le> length buf" and "length (np_data p) \<noteq> unat (ch_datal c2h)"
  shows "fst (handle_sync cid (Some buf) src p l) = Inl Panic"
  using assms by (simp add: handle_sync_def sync_c2h_def)

lemma short_term_panics:
  "length (np_header p) < 16 \<Longrightarrow> describe_term p = Inl Panic"
  by (simp add: describe_term_def le16_def le32_def and_then_def)

text \<open>The limit an opened link sends with is never 0 and never above 64 KiB.\<close>

lemma handshake_limit:
  assumes "handshake l = (Inr u, l')" and "lk_max_h2c l = default_h2c"
  shows "0 < unat (lk_max_h2c l') \<and> unat (lk_max_h2c l') \<le> 65536"
proof -
  have d: "unat default_h2c = 65536" by (simp add: default_h2c_def)
  from assms(1) [unfolded handshake_def sthen_Inr] obtain x l1 p l2 resp k where
    a: "link_send icreq l = (Inr x, l1)" "link_read l1 = (Inr p, l2)" "(parse_icresp p, l2) = (Inr resp, k)"
    and k: "(Inr () :: unit result, if ic_max_h2c_data resp \<noteq> 0 then k\<lparr>lk_max_h2c := min (ic_max_h2c_data resp) default_h2c\<rparr> else k)
      = (Inr u, l')" by blast
  then have l: "l' = (if ic_max_h2c_data resp \<noteq> 0 then l2\<lparr>lk_max_h2c := min (ic_max_h2c_data resp) default_h2c\<rparr> else l2)"
    by auto
  have "lk_max_h2c l2 = default_h2c"
    using a assms(2) by (auto simp: link_read_def Let_def dest!: link_send_input split: prod.splits)
  then show ?thesis using l d by (auto simp: unat_gt_0 word_le_nat_alt min_def)
qed

lemma link_open_limit:
  assumes "link_open net now attempt addr = Inr l"
  shows "0 < unat (lk_max_h2c l) \<and> unat (lk_max_h2c l) \<le> 65536"
proof -
  from assms obtain t where
    t: "(let (r, l) = handshake \<lparr>lk_stream = t, lk_max_h2c = default_h2c\<rparr> in and_then r (\<lambda>_. Inr l)) = Inr l"
    unfolding link_open_def and_then_eq_Inr by blast
  obtain r k where "handshake \<lparr>lk_stream = t, lk_max_h2c = default_h2c\<rparr> = (r, k)" by fastforce
  with t show ?thesis using handshake_limit by (auto simp: and_then_eq_Inr)
qed

end
