(* ===== verification/Nvme_Session.thy ===== *)
theory Nvme_Session
  imports Nvme_Link Buffers
begin

text \<open>
  \<open>src/rust/src/nvme/session.rs\<close> and the parsers of \<open>nvme/identify.rs\<close> it uses: an NVMe-oF controller as a
  transport of the pool, with an admin queue and one I/O queue on a connection each. A command's identifier
  is the pool's slot; its buffer is an index into the caller's memory. The clock is asked whether Keep Alive
  is due before every PDU and every command: the list \<open>ns_due\<close> holds the answers to come. The lemmas show
  what a submitted command says, where data may land, and how commands in flight are counted.
\<close>

unbundle bit_operations_syntax

section \<open>Identify\<close>

definition cns_namespace :: u32 where "cns_namespace = 0x00"
definition cns_controller :: u32 where "cns_controller = 0x01"
definition cns_active_namespaces :: u32 where "cns_active_namespaces = 0x02"

text \<open>The numbers of \<open>ControllerInfo\<close>; its text fields are for listings only and are left out.\<close>

record controller_info =
  ci_inline_bytes :: nat
  ci_namespaces :: u32
  ci_mdts :: u8
  ci_cmic :: u8
  ci_cntlid :: u16
  ci_ver :: u32
  ci_aerl :: u8
  ci_kas :: u16
  ci_anacap :: u8
  ci_anagrpmax :: u32
  ci_nanagrpid :: u32
  ci_sqes :: u8
  ci_cqes :: u8
  ci_oncs :: u16
  ci_fuses :: u16
  ci_vwc :: u8
  ci_sgls :: u32
  ci_ioccsz :: u32
  ci_iorcsz :: u32

definition field :: "nat \<Rightarrow> nat \<Rightarrow> u8 list \<Rightarrow> 'a::len word" where
  "field k n d = from_le_bytes (slice k n d)"

definition parse_controller :: "u8 list \<Rightarrow> controller_info result" where
  "parse_controller d =
     (if length d < 1800 then Inl Panic
      else let ioccsz = field 1792 4 d
           in Inr \<lparr>ci_inline_bytes = unat (ioccsz :: u32) * 16 - 64, ci_namespaces = field 516 4 d, ci_mdts = d ! 77,
                ci_cmic = d ! 76, ci_cntlid = field 78 2 d, ci_ver = field 80 4 d, ci_aerl = d ! 259,
                ci_kas = field 320 2 d, ci_anacap = d ! 343, ci_anagrpmax = field 344 4 d,
                ci_nanagrpid = field 348 4 d, ci_sqes = d ! 512, ci_cqes = d ! 513, ci_oncs = field 520 2 d,
                ci_fuses = field 522 2 d, ci_vwc = d ! 525, ci_sgls = field 536 4 d, ci_ioccsz = ioccsz,
                ci_iorcsz = field 1796 4 d\<rparr>)"

record namespace_info =
  ni_blocks :: u64
  ni_block_len :: u32
  ni_capacity :: u64
  ni_used :: u64
  ni_formats :: u8
  ni_format :: u8
  ni_nmic :: u8
  ni_rescap :: u8
  ni_dlfeat :: u8
  ni_anagrpid :: u32
  ni_nguid :: "u8 list"
  ni_eui64 :: "u8 list"

definition flbas :: "u8 list \<Rightarrow> nat" where
  "flbas d = (if 16 \<le> d ! 25 then unat (d ! 26 AND 0x0f) OR push_bit 4 (unat (d ! 26) div 32 AND 0x3)
              else unat (d ! 26 AND 0x0f))"

definition parse_namespace :: "u8 list \<Rightarrow> namespace_info result" where
  "parse_namespace d =
     (if length d < 128 \<or> length d < 132 + 4 * flbas d then Inl Panic
      else let lbaf = field (128 + 4 * flbas d) 4 d; lbads = drop_bit 16 (lbaf :: u32) AND 0xff
           in Inr \<lparr>ni_blocks = field 0 8 d, ni_block_len = push_bit (min (unat lbads) 31) 1, ni_capacity = field 8 8 d,
                ni_used = field 16 8 d, ni_formats = d ! 25, ni_format = of_nat (flbas d), ni_nmic = d ! 30,
                ni_rescap = d ! 31, ni_dlfeat = d ! 33, ni_anagrpid = field 92 4 d, ni_nguid = slice 104 16 d,
                ni_eui64 = slice 120 8 d\<rparr>)"

text \<open>\<open>chunks_exact(4)\<close> drops a shorter piece at the end.\<close>

definition parse_active_namespaces :: "u8 list \<Rightarrow> u32 list" where
  "parse_active_namespaces d =
     takeWhile (\<lambda>nsid. nsid \<noteq> 0) (map from_le_bytes (filter (\<lambda>c. length c = 4) (chunks 4 d)))"

section \<open>Paths and sessions\<close>

definition io_sqsize :: u16 where
  "io_sqsize = 127"

definition pending_slots :: nat where
  "pending_slots = 1024"

definition nvme_max_blocks :: nat where
  "nvme_max_blocks = 65536"

definition sct_path :: u16 where
  "sct_path = 0x3"

record nvme_path =
  pa_addr :: string
  pa_subnqn :: string
  pa_nsid :: "u32 option"

record pending =
  pd_buf :: nat
  pd_len :: nat
  pd_write :: bool

record nvme_session =
  ns_admin :: controller
  ns_io :: link
  ns_nsid :: u32
  ns_pending :: "pending option list"
  ns_inflight :: nat
  ns_limit :: nat
  ns_inline_limit :: nat
  ns_due :: "bool list"

definition nvme_label :: "nvme_path \<Rightarrow> string" where
  "nvme_label p = pa_addr p @ '' '' @ pa_subnqn p
     @ (case pa_nsid p of Some nsid \<Rightarrow> '' ns'' @ show_nat (unat nsid) | None \<Rightarrow> [])"

text \<open>The namespace a path uses: the one it names, or the first active one.\<close>

definition find_nsid :: "nvme_path \<Rightarrow> controller \<Rightarrow> u32 result \<times> controller" where
  "find_nsid path c =
     (case pa_nsid path of
        Some nsid \<Rightarrow> (Inr nsid, c)
      | None \<Rightarrow>
          sthen (identify cns_active_namespaces 0 c) (\<lambda>d c.
            (case parse_active_namespaces d of
               [] \<Rightarrow> (Inl (Err ''NVMe/TCP: the subsystem has no active namespace''), c)
             | nsid # _ \<Rightarrow> (Inr nsid, c))))"

text \<open>What \<open>open\<close> asks the controller: the queue size, the namespace, its geometry and the in-capsule size.\<close>

definition read_namespace ::
  "(nat \<Rightarrow> bool) \<Rightarrow> nvme_path \<Rightarrow> controller \<Rightarrow> (u16 \<times> u32 \<times> namespace_info \<times> nat) result \<times> controller" where
  "read_namespace late path c =
     sthen (enable late c) (\<lambda>_ c.
     sthen (property_get prop_cap True c) (\<lambda>cap c.
     sthen (find_nsid path c) (\<lambda>nsid c.
     sthen (identify cns_namespace nsid c) (\<lambda>d c.
     sthen (parse_namespace d, c) (\<lambda>ns c.
     sthen (identify cns_controller 0 c) (\<lambda>d c.
     sthen (parse_controller d, c) (\<lambda>ci c.
       (Inr (min io_sqsize (ucast (cap AND 0xffff)), nsid, ns, ci_inline_bytes ci), c))))))))"

text \<open>\<open>late\<close> and \<open>due\<close> are the clock's answers; the two connections are the attempts 0 and 1 at \<open>now\<close>.\<close>

definition nvme_open ::
  "network \<Rightarrow> (nat \<Rightarrow> bool) \<Rightarrow> bool list \<Rightarrow> string \<Rightarrow> u8 list \<Rightarrow> nvme_path \<Rightarrow> nat \<Rightarrow> (nvme_session \<times> geometry) result" where
  "nvme_open net late due hostnqn hostid path now =
     (let a = \<lparr>as_addr = pa_addr path, as_subnqn = pa_subnqn path, as_hostnqn = hostnqn, as_hostid = hostid\<rparr>
      in and_then (controller_connect net now 0 a) (\<lambda>admin.
         let (r, admin) = read_namespace late path admin
         in and_then r (\<lambda>(sqsize, nsid, ns, inline_limit).
            and_then (connect_io_queue net now 1 a (ct_cntlid admin) 1 sqsize) (\<lambda>io.
              if 2 ^ 64 \<le> unat (ni_blocks ns) * unat (ni_block_len ns) then Inl Panic
              else Inr (\<lparr>ns_admin = admin, ns_io = io, ns_nsid = nsid, ns_pending = replicate pending_slots None,
                         ns_inflight = 0, ns_limit = unat sqsize + 1, ns_inline_limit = inline_limit, ns_due = due\<rparr>,
                        \<lparr>ge_block_len = unat (ni_block_len ns),
                         ge_capacity_bytes = unat (ni_blocks ns) * unat (ni_block_len ns)\<rparr>)))))"

definition keep_alive_if_due :: "nvme_session \<Rightarrow> unit result \<times> nvme_session" where
  "keep_alive_if_due s =
     (case ns_due s of
        [] \<Rightarrow> (Inr (), s)
      | due # later \<Rightarrow>
          let s = s\<lparr>ns_due := later\<rparr>
          in if due then (let (r, c) = keep_alive (ns_admin s) in (r, s\<lparr>ns_admin := c\<rparr>)) else (Inr (), s))"

text \<open>
  A finished command frees its slot, and the count of commands in flight goes down, whether or not the slot
  held a command.
\<close>

definition nvme_finish :: "u16 \<Rightarrow> nvme_completion \<Rightarrow> nvme_session \<Rightarrow> finished result \<times> nvme_session" where
  "nvme_finish cid cqe s =
     (let s = s\<lparr>ns_pending := (ns_pending s)[unat cid := None]\<rparr>
      in if ns_inflight s = 0 then (Inl Panic, s)
         else let code = drop_bit 1 (cq_status cqe)
              in (Inr \<lparr>dn_tag = unat cid, dn_status = (if completion_ok cqe then 0 else 1), dn_code = code,
                       dn_unavailable = (drop_bit 8 code AND 0x7 = sct_path), dn_sense = []\<rparr>,
                  s\<lparr>ns_inflight := ns_inflight s - 1\<rparr>))"

definition pending_of :: "u16 \<Rightarrow> string \<Rightarrow> nvme_session \<Rightarrow> pending result" where
  "pending_of cid missing s =
     ok_or (Option.bind (get (ns_pending s) (unat cid)) (\<lambda>p. p)) missing"

type_synonym nvme_step = "finished option result \<times> nvme_session \<times> memory"

definition nvme_c2h :: "nvme_pdu \<Rightarrow> nvme_session \<Rightarrow> memory \<Rightarrow> nvme_step" where
  "nvme_c2h p s m =
     (case parse_c2h p of
        Inl e \<Rightarrow> (Inl e, s, m)
      | Inr c2h \<Rightarrow>
          (case pending_of (ch_cccid c2h) ''NVMe/TCP: data for a command that is not in flight'' s of
             Inl e \<Rightarrow> (Inl e, s, m)
           | Inr pend \<Rightarrow>
               let start = unat (ch_datao c2h); stop = start + unat (ch_datal c2h)
               in if pd_write pend \<or> pd_len pend < stop then (Inl (Err ''NVMe/TCP: data outside a read's buffer''), s, m)
                  else if length (np_data p) \<noteq> stop - start then (Inl Panic, s, m)
                  else let m = m[pd_buf pend := copy_at start (np_data p) (m ! pd_buf pend)]
                       in if ch_success c2h
                          then (case nvme_finish (ch_cccid c2h) (no_completion (ch_cccid c2h)) s of
                                  (r, s) \<Rightarrow> (and_then r (\<lambda>d. Inr (Some d)), s, m))
                          else (Inr None, s, m)))"

definition nvme_r2t_pdu :: "nvme_pdu \<Rightarrow> nvme_session \<Rightarrow> memory \<Rightarrow> nvme_step" where
  "nvme_r2t_pdu p s m =
     (case parse_r2t p of
        Inl e \<Rightarrow> (Inl e, s, m)
      | Inr r \<Rightarrow>
          (case pending_of (nr_cccid r) ''NVMe/TCP: R2T for a command that is not in flight'' s of
             Inl e \<Rightarrow> (Inl e, s, m)
           | Inr pend \<Rightarrow>
               if \<not> pd_write pend then (Inl (Err ''NVMe/TCP: R2T for a read''), s, m)
               else (case send_h2c (nr_cccid r) r (take (pd_len pend) (m ! pd_buf pend)) (ns_io s) of
                       (x, l) \<Rightarrow> (and_then x (\<lambda>_. Inr None), s\<lparr>ns_io := l\<rparr>, m))))"

definition nvme_handle_pdu :: "nvme_pdu \<Rightarrow> nvme_session \<Rightarrow> memory \<Rightarrow> nvme_step" where
  "nvme_handle_pdu p s m =
     (if np_kind p = c2h_data_type then nvme_c2h p s m
      else if np_kind p = r2t_type then nvme_r2t_pdu p s m
      else if np_kind p = capsule_resp_type then
        (case parse_capsule_resp p of
           Inl e \<Rightarrow> (Inl e, s, m)
         | Inr d \<Rightarrow> (case nvme_finish (cq_cid (completion_parse d)) (completion_parse d) s of
                      (r, s) \<Rightarrow> (and_then r (\<lambda>d. Inr (Some d)), s, m)))
      else if np_kind p = term_c2h \<or> np_kind p = term_h2c
      then (and_then (describe_term p) (\<lambda>e. Inl (Err e)), s, m)
      else (Inl (Err (''NVMe/TCP: unexpected PDU type '' @ alt_hex (np_kind p) @ '' on the I/O queue'')), s, m))"

section \<open>The transport\<close>

definition nvme_can_submit :: "nvme_session \<Rightarrow> bool" where
  "nvme_can_submit s \<longleftrightarrow> ns_inflight s < ns_limit s"

definition nvme_check :: "nvme_session \<Rightarrow> io \<Rightarrow> unit result" where
  "nvme_check s io =
     (if io_blocks io = 0 \<or> nvme_max_blocks < io_blocks io
      then Inl (Err (''NVMe transfers are 1 to '' @ show_nat nvme_max_blocks @ '' blocks; this one is '' @ show_nat (io_blocks io)))
      else Inr ())"

text \<open>The command of a request, and whether its data travels in the capsule.\<close>

definition io_command :: "u16 \<Rightarrow> u32 \<Rightarrow> io \<Rightarrow> nat \<Rightarrow> bool \<Rightarrow> nvme_command" where
  "io_command cid nsid io len inline =
     (let cmd = command_new (if io_write io then op_write else op_read) cid;
          cmd = set_nsid nsid cmd;
          cmd = set_u64 40 (of_nat (io_lba io)) cmd;
          cmd = set_u16 48 (of_nat (io_blocks io - 1)) cmd
      in set_data len inline cmd)"

definition in_capsule :: "io \<Rightarrow> nat \<Rightarrow> nvme_session \<Rightarrow> bool" where
  "in_capsule io len s \<longleftrightarrow> io_write io \<and> len \<le> ns_inline_limit s"

definition put_pending :: "nat \<Rightarrow> pending \<Rightarrow> pending option list \<Rightarrow> pending option list" where
  "put_pending tag p ps = (ps @ replicate (tag + 1 - length ps) None)[tag := Some p]"

definition nvme_submit :: "nvme_session \<Rightarrow> nat \<Rightarrow> io \<Rightarrow> nat \<Rightarrow> nat \<Rightarrow> memory \<Rightarrow> nvme_session result" where
  "nvme_submit s tag io buf len m =
     (let (r, s) = sthen (keep_alive_if_due s) (\<lambda>_ s.
        if 2 ^ 16 \<le> tag then (Inl (Err ''NVMe command ID beyond 16 bits''), s)
        else if io_blocks io = 0 then (Inl Panic, s)
        else let inline = in_capsule io len s;
                 (r, l) = send_capsule (io_command (of_nat tag) (ns_nsid s) io len inline)
                            (if inline then take len (m ! buf) else []) (ns_io s)
             in (r, s\<lparr>ns_io := l\<rparr>))
      in and_then r (\<lambda>_.
           Inr (s\<lparr>ns_pending := put_pending tag \<lparr>pd_buf = buf, pd_len = len, pd_write = io_write io\<rparr> (ns_pending s),
                  ns_inflight := ns_inflight s + 1\<rparr>)))"

text \<open>Neither Keep Alive nor an answer touches what the I/O queue has still to read.\<close>

lemma nvme_finish_io: "nvme_finish cid cqe s = (r, s') \<Longrightarrow> ns_io s' = ns_io s"
  by (auto simp: nvme_finish_def Let_def split: if_splits)

lemma handle_pdu_input:
  "nvme_handle_pdu p s m = (r, s', m') \<Longrightarrow> tc_in (lk_stream (ns_io s')) = tc_in (lk_stream (ns_io s))"
  by (auto simp: nvme_handle_pdu_def nvme_c2h_def nvme_r2t_pdu_def Let_def dest: send_h2c_input nvme_finish_io
      split: if_splits sum.splits prod.splits)

lemma keep_alive_if_due_io: "keep_alive_if_due s = (r, s') \<Longrightarrow> ns_io s' = ns_io s \<and> ns_pending s' = ns_pending s
    \<and> ns_inflight s' = ns_inflight s \<and> ns_nsid s' = ns_nsid s \<and> ns_inline_limit s' = ns_inline_limit s
    \<and> ns_limit s' = ns_limit s"
  by (auto simp: keep_alive_if_due_def Let_def split: list.splits if_splits prod.splits)

definition nvme_read :: "nvme_session \<Rightarrow> nvme_pdu result \<times> nvme_session" where
  "nvme_read s = (let (r, l) = link_read (ns_io s) in (r, s\<lparr>ns_io := l\<rparr>))"

lemma nvme_read_shrinks:
  "nvme_read s = (Inr p, s') \<Longrightarrow> length (tc_in (lk_stream (ns_io s'))) < length (tc_in (lk_stream (ns_io s)))"
  by (auto simp: nvme_read_def Let_def dest: link_read_shrinks split: prod.splits)

function nvme_poll :: "nvme_session \<Rightarrow> memory \<Rightarrow> finished result \<times> nvme_session \<times> memory" where
  "nvme_poll s m =
     (case sthen (keep_alive_if_due s) (\<lambda>_ s. nvme_read s) of
        (Inl e, s) \<Rightarrow> (Inl e, s, m)
      | (Inr p, s) \<Rightarrow>
          (case nvme_handle_pdu p s m of
             (Inl e, s, m) \<Rightarrow> (Inl e, s, m)
           | (Inr (Some d), s, m) \<Rightarrow> (Inr d, s, m)
           | (Inr None, s, m) \<Rightarrow> nvme_poll s m))"
  by pat_completeness auto

termination
  by (relation "measure (\<lambda>(s, m). length (tc_in (lk_stream (ns_io s))))")
    (auto dest!: sym [of "(Inr _, _)"] simp: sthen_Inr dest!: keep_alive_if_due_io nvme_read_shrinks
      dest!: handle_pdu_input [OF sym])

declare nvme_poll.simps [simp del]

definition nvme_transport_poll :: "nvme_session \<Rightarrow> memory \<Rightarrow> (finished \<times> nvme_session) result \<times> memory" where
  "nvme_transport_poll s m = (let (r, s, m) = nvme_poll s m in (and_then r (\<lambda>d. Inr (d, s)), m))"

definition nvme_tick :: "nvme_session \<Rightarrow> nvme_session result" where
  "nvme_tick s = (let (r, s) = keep_alive_if_due s in and_then r (\<lambda>_. Inr s))"

definition nvme_failure :: "nvme_session \<Rightarrow> io \<Rightarrow> finished \<Rightarrow> string" where
  "nvme_failure s io d =
     ''NVMe '' @ (if io_write io then ''write'' else ''read'') @ '' failed: status code type ''
       @ alt_hex (drop_bit 8 (dn_code d) AND 0x7) @ '', status code '' @ alt_hex (dn_code d AND 0xff)"

definition nvme_unavailable :: "nvme_session \<Rightarrow> finished \<Rightarrow> string" where
  "nvme_unavailable s d = ''NVMe path status '' @ alt_hex (dn_code d AND 0xff)"

text \<open>A controller's ANA state is not asked for: the tier is the trait's, which is none.\<close>

definition nvme_transport :: "nvme_session transport" where
  "nvme_transport = \<lparr>tp_can_submit = nvme_can_submit, tp_inflight = ns_inflight, tp_tier = (\<lambda>_. None),
     tp_check = nvme_check, tp_submit = nvme_submit, tp_poll = nvme_transport_poll, tp_tick = nvme_tick,
     tp_failure = nvme_failure, tp_unavailable = nvme_unavailable\<rparr>"

definition nvme_fabric ::
  "network \<Rightarrow> (nat \<Rightarrow> bool) \<Rightarrow> bool list \<Rightarrow> string \<Rightarrow> u8 list \<Rightarrow> (nvme_path, nvme_session) fabric" where
  "nvme_fabric net late due hostnqn hostid =
     \<lparr>fb_transport = nvme_transport, fb_label = nvme_label, fb_open = nvme_open net late due hostnqn hostid\<rparr>"

section \<open>Where data lands\<close>

definition nvme_bufs :: "nvme_session \<Rightarrow> buffers" where
  "nvme_bufs s = {(pd_buf p, pd_len p, pd_write p) | p. Some p \<in> set (ns_pending s)}"

lemma nvme_bufs_same: "ns_pending s' = ns_pending s \<Longrightarrow> nvme_bufs s' = nvme_bufs s"
  by (simp add: nvme_bufs_def)

lemma nvme_bufs_io [simp]: "nvme_bufs (s\<lparr>ns_io := l\<rparr>) = nvme_bufs s"
  by (simp add: nvme_bufs_def)

lemma nvme_finish_bufs: "nvme_finish cid cqe s = (r, s') \<Longrightarrow> nvme_bufs s' \<subseteq> nvme_bufs s"
  using set_update_subset_insert [of "ns_pending s" "unat cid" None]
  by (auto simp: nvme_finish_def nvme_bufs_def Let_def split: if_splits)

lemma pending_of_Inr:
  "pending_of cid missing s = Inr p \<longleftrightarrow> unat cid < length (ns_pending s) \<and> ns_pending s ! unat cid = Some p"
  by (auto simp: pending_of_def get_def split: if_splits)

lemma pending_of_bufs: "pending_of cid missing s = Inr p \<Longrightarrow> (pd_buf p, pd_len p, pd_write p) \<in> nvme_bufs s"
  unfolding pending_of_Inr nvme_bufs_def by (metis (mono_tags, lifting) mem_Collect_eq nth_mem)

lemma nvme_c2h_memory:
  assumes "nvme_c2h p s m = (r, s', m')" and "bufs_fit (nvme_bufs s) m"
  shows "changes_only (nvme_bufs s) m m'"
proof (cases "parse_c2h p")
  case (Inr c2h)
  note c = Inr
  show ?thesis
  proof (cases "pending_of (ch_cccid c2h) ''NVMe/TCP: data for a command that is not in flight'' s")
    case (Inr pend)
    have "changes_only (nvme_bufs s) m (m[pd_buf pend := copy_at (unat (ch_datao c2h)) (np_data p) (m ! pd_buf pend)])"
      if "\<not> pd_write pend" "unat (ch_datao c2h) + length (np_data p) \<le> pd_len pend"
      using changes_only_copy [OF _ assms(2) that(2)] pending_of_bufs [OF Inr] that(1) by simp
    then show ?thesis
      using assms(1) c Inr by (auto simp: nvme_c2h_def Let_def split: if_splits prod.splits)
  qed (use assms c in \<open>auto simp: nvme_c2h_def\<close>)
qed (use assms in \<open>auto simp: nvme_c2h_def\<close>)

lemma handle_pdu_memory:
  "nvme_handle_pdu p s m = (r, s', m') \<Longrightarrow> bufs_fit (nvme_bufs s) m \<Longrightarrow> changes_only (nvme_bufs s) m m'"
  using nvme_c2h_memory [of p s m r s' m']
  by (auto simp: nvme_handle_pdu_def nvme_r2t_pdu_def split: sum.splits if_splits prod.splits)

lemma handle_pdu_bufs: "nvme_handle_pdu p s m = (r, s', m') \<Longrightarrow> nvme_bufs s' \<subseteq> nvme_bufs s"
  by (auto simp: nvme_handle_pdu_def nvme_r2t_pdu_def nvme_c2h_def Let_def dest!: nvme_finish_bufs
      split: sum.splits if_splits prod.splits)

lemma nvme_read_pending: "nvme_read s = (r, s') \<Longrightarrow> ns_pending s' = ns_pending s \<and> ns_inflight s' = ns_inflight s"
  by (auto simp: nvme_read_def Let_def split: prod.splits)

lemma sthen_cases:
  assumes "sthen r f = (x, s')"
  obtains e where "r = (Inl e, s')" "x = Inl e" | y s where "r = (Inr y, s)" "f y s = (x, s')"
  using assms by (cases r; cases "fst r") (auto simp: sthen_def)

text \<open>Keep Alive and reading a PDU leave the commands in flight alone.\<close>

lemma nvme_next_pending:
  assumes "sthen (keep_alive_if_due s) (\<lambda>_ s. nvme_read s) = (r, s')"
  shows "ns_pending s' = ns_pending s \<and> ns_inflight s' = ns_inflight s"
  using assms
proof (cases rule: sthen_cases)
  case (1 e)
  then show ?thesis using keep_alive_if_due_io by blast
next
  case (2 y t)
  then show ?thesis using keep_alive_if_due_io [OF 2(1)] nvme_read_pending [OF 2(2)] by simp
qed

lemma nvme_poll_memory:
  "nvme_poll s m = (r, s', m') \<Longrightarrow> nvme_bufs s' \<subseteq> nvme_bufs s
    \<and> (bufs_fit (nvme_bufs s) m \<longrightarrow> changes_only (nvme_bufs s) m m')"
proof (induction s m rule: nvme_poll.induct)
  case (1 s m)
  obtain x t where rd: "sthen (keep_alive_if_due s) (\<lambda>_ s. nvme_read s) = (x, t)" by fastforce
  have t: "nvme_bufs t = nvme_bufs s" using nvme_next_pending [OF rd] nvme_bufs_same by blast
  show ?case
  proof (cases x)
    case (Inl e)
    then show ?thesis using 1(2) rd t by (simp add: nvme_poll.simps [of s m])
  next
    case (Inr p)
    obtain y u m1 where h: "nvme_handle_pdu p t m = (y, u, m1)" by (metis prod_cases3)
    note ch = handle_pdu_memory [OF h, unfolded t] handle_pdu_bufs [OF h, unfolded t]
    consider e where "y = Inl e" | d where "y = Inr (Some d)" | "y = Inr None" by (metis old.sum.exhaust option.exhaust)
    then show ?thesis
    proof cases
      case 3
      have p: "nvme_poll u m1 = (r, s', m')" using 1(2) rd Inr h 3 by (simp add: nvme_poll.simps [of s m])
      note ih = 1(1) [OF rd [symmetric] Inr h [symmetric] 3 refl refl p]
      have "bufs_fit (nvme_bufs u) m1" if "bufs_fit (nvme_bufs s) m"
        using ch that bufs_fit_changes bufs_fit_mono by blast
      then show ?thesis using ih ch changes_only_trans changes_only_mono by blast
    qed (use 1(2) rd Inr h ch in \<open>auto simp: nvme_poll.simps [of s m]\<close>)
  qed
qed

lemma put_pending_set: "set (put_pending tag p ps) \<subseteq> insert (Some p) (insert None (set ps))"
  using set_update_subset_insert [of "ps @ replicate (tag + 1 - length ps) None" tag "Some p"]
  by (auto simp: put_pending_def)

lemma nvme_submit_Inr:
  assumes "nvme_submit s tag io buf len m = Inr s'"
  shows "tag < 2 ^ 16 \<and> 0 < io_blocks io
    \<and> ns_pending s' = put_pending tag \<lparr>pd_buf = buf, pd_len = len, pd_write = io_write io\<rparr> (ns_pending s)
    \<and> ns_inflight s' = ns_inflight s + 1
    \<and> (\<exists>u. send_capsule (io_command (of_nat tag) (ns_nsid s) io len (in_capsule io len s))
             (if in_capsule io len s then take len (m ! buf) else []) (ns_io s) = (Inr u, ns_io s'))"
  using assms
  by (auto simp: nvme_submit_def sthen_Inr and_then_eq_Inr in_capsule_def Let_def dest!: keep_alive_if_due_io
      split: prod.splits if_splits)

interpretation nvme: buffer_contract nvme_transport nvme_bufs
proof (standard, goal_cases)
  case (1 s tag io buf len m s')
  then have "ns_pending s' = put_pending tag \<lparr>pd_buf = buf, pd_len = len, pd_write = io_write io\<rparr> (ns_pending s)"
    using nvme_submit_Inr by (fastforce simp: nvme_transport_def)
  then show ?case
    using put_pending_set [of tag "\<lparr>pd_buf = buf, pd_len = len, pd_write = io_write io\<rparr>" "ns_pending s"]
    by (auto simp: nvme_bufs_def)
next
  case (2 s m r m')
  then show ?case
    using nvme_poll_memory by (fastforce simp: nvme_transport_def nvme_transport_poll_def Let_def split: prod.splits)
next
  case (3 s m d s' m')
  then show ?case
    using nvme_poll_memory
    by (fastforce simp: nvme_transport_def nvme_transport_poll_def and_then_eq_Inr Let_def split: prod.splits)
next
  case (4 s s')
  then show ?case
    by (auto simp: nvme_transport_def nvme_tick_def and_then_eq_Inr dest!: keep_alive_if_due_io nvme_bufs_same split: prod.splits)
qed

section \<open>What a submitted command says\<close>

lemmas nvme_fields = set_data_def set_nsid_def set_u64_def set_u32_def set_u16_def set_u8_def command_new_def
  dptr_def sgl_length_def sgl_type_def psdt_sgl_def Let_def

lemma length_io_command [simp]: "length (io_command cid nsid io len inline) = 64"
  by (simp add: io_command_def nvme_fields)

lemma io_command_fields:
  "io_command cid nsid io len inline ! 0 = (if io_write io then op_write else op_read)"
  "command_cid (io_command cid nsid io len inline) = cid"
  "slice 4 4 (io_command cid nsid io len inline) = to_le_bytes nsid"
  "slice 40 8 (io_command cid nsid io len inline) = to_le_bytes (of_nat (io_lba io) :: u64)"
  "slice 48 2 (io_command cid nsid io len inline) = to_le_bytes (of_nat (io_blocks io - 1) :: u16)"
  "slice 32 4 (io_command cid nsid io len inline) = to_le_bytes (of_nat len :: u32)"
  "io_command cid nsid io len inline ! 39 = (if inline then sgl_inline else sgl_transport)"
  by (simp_all add: io_command_def nvme_fields command_cid_def slice_simps byte_simps nth_copy_at)

lemma send_capsule_Inr:
  assumes "send_capsule sqe data l = (Inr u, l')" and "length sqe = 64"
  shows "tc_out (lk_stream l') = tc_out (lk_stream l) @ capsule_cmd sqe data"
proof -
  have "frame_into capsule_cmd_type 0 capsule_cmd_len (\<lambda>h. copy_at 8 sqe h) data = capsule_cmd sqe data"
    unfolding capsule_cmd_def using assms(2) by (subst frame_into_encode) (simp_all add: nvme_lens)
  then show ?thesis
    using assms(1) by (auto simp: send_capsule_def link_send_def write_pdu_def write_all_def Let_def split: if_splits)
qed

text \<open>
  C14: Submitting a request to an NVMe-oF session that passed the transport's check sends exactly one capsule on
  the I/O queue. Its command is a read or a write as the request says, carries the pool's slot as its
  identifier, the namespace of the path, the request's first block and its number of blocks 0-based, and
  describes the length of the data; a write that fits carries its data in the capsule, taken from the
  request's buffer, and any other command carries none. The slot is then in flight with that buffer.\<close>

theorem nvme_submit_sends_request:
  assumes "nvme_submit s tag io buf len m = Inr s'" and "nvme_check s io = Inr ()"
    and "io_lba io < 2 ^ 64" and "len < 2 ^ 32"
  shows "\<exists>c. tc_out (lk_stream (ns_io s')) = tc_out (lk_stream (ns_io s))
        @ capsule_cmd c (if in_capsule io len s then take len (m ! buf) else [])
      \<and> length c = 64 \<and> c ! 0 = (if io_write io then op_write else op_read) \<and> unat (command_cid c) = tag
      \<and> slice 4 4 c = to_le_bytes (ns_nsid s)
      \<and> unat (from_le_bytes (slice 40 8 c) :: u64) = io_lba io
      \<and> unat (from_le_bytes (slice 48 2 c) :: u16) + 1 = io_blocks io
      \<and> unat (from_le_bytes (slice 32 4 c) :: u32) = len
      \<and> c ! 39 = (if in_capsule io len s then sgl_inline else sgl_transport)
      \<and> get (ns_pending s') tag = Some (Some \<lparr>pd_buf = buf, pd_len = len, pd_write = io_write io\<rparr>)"
proof -
  note sub = nvme_submit_Inr [OF assms(1)]
  let ?c = "io_command (of_nat tag) (ns_nsid s) io len (in_capsule io len s)"
  have blocks: "0 < io_blocks io" "io_blocks io - 1 < 2 ^ 16"
    using assms(2) by (auto simp: nvme_check_def nvme_max_blocks_def split: if_splits)
  have "tc_out (lk_stream (ns_io s')) = tc_out (lk_stream (ns_io s))
      @ capsule_cmd ?c (if in_capsule io len s then take len (m ! buf) else [])"
    using sub send_capsule_Inr length_io_command by blast
  moreover have "unat (of_nat tag :: u16) = tag" "unat (of_nat (io_lba io) :: u64) = io_lba io"
    "unat (of_nat (io_blocks io - 1) :: u16) + 1 = io_blocks io" "unat (of_nat len :: u32) = len"
    using sub blocks assms(3,4) by (simp_all add: unat_of_nat take_bit_nat_eq_self del: of_nat_diff)
  moreover have "get (ns_pending s') tag = Some (Some \<lparr>pd_buf = buf, pd_len = len, pd_write = io_write io\<rparr>)"
    using sub by (simp add: get_def put_pending_def)
  ultimately show ?thesis by (intro exI [of _ ?c]) (simp add: io_command_fields byte_simps del: of_nat_diff)
qed

definition example_nvme :: "u8 list \<Rightarrow> nvme_session" where
  "example_nvme bytes = \<lparr>ns_admin = \<lparr>ct_link = example_link [], ct_cntlid = 1, ct_next_cid = 1\<rparr>,
     ns_io = example_link bytes, ns_nsid = 1, ns_pending = [None, None], ns_inflight = 0, ns_limit = 4,
     ns_inline_limit = 0, ns_due = []\<rparr>"

lemma example_submit:
  "\<exists>s'. nvme_submit (example_nvme bytes) tag \<lparr>io_write = False, io_lba = 8, io_blocks = 1\<rparr> buf 4 m = Inr s'
    \<and> ns_pending s' = put_pending tag \<lparr>pd_buf = buf, pd_len = 4, pd_write = False\<rparr> [None, None]
    \<and> ns_inflight s' = 1 \<and> ns_due s' = [] \<and> tc_in (lk_stream (ns_io s')) = bytes" if "tag < 2 ^ 16"
proof -
  let ?c = "io_command (of_nat tag) 1 \<lparr>io_write = False, io_lba = 8, io_blocks = 1\<rparr> 4 False"
  have "length (frame_into capsule_cmd_type 0 capsule_cmd_len (\<lambda>h. copy_at 8 ?c h) []) \<le> tc_accepts (lk_stream (example_link bytes))"
    by (simp add: frame_into_def Let_def nvme_lens example_link_def example_tcp_def)
  from link_send_Inr [OF this] show ?thesis
    using that
    by (simp add: nvme_submit_def example_nvme_def keep_alive_if_due_def sthen_def in_capsule_def send_capsule_def
        example_link_def example_tcp_def)
qed

theorem nvme_submit_sends_request_witness:
  "\<exists>s' c. nvme_submit (example_nvme []) 1 \<lparr>io_write = False, io_lba = 8, io_blocks = 1\<rparr> 0 4 [[0, 0, 0, 0]] = Inr s'
    \<and> tc_out (lk_stream (ns_io s')) = capsule_cmd c [] \<and> c ! 0 = op_read \<and> unat (command_cid c) = 1"
proof -
  let ?io = "\<lparr>io_write = False, io_lba = 8, io_blocks = 1\<rparr>"
  obtain s' where s': "nvme_submit (example_nvme []) 1 ?io 0 4 [[0, 0, 0, 0]] = Inr s'"
    using example_submit [of 1 "[]" 0] by auto
  have "nvme_check (example_nvme []) ?io = Inr ()" by (simp add: nvme_check_def nvme_max_blocks_def)
  from nvme_submit_sends_request [OF s' this] show ?thesis
    using s' by (auto simp: in_capsule_def example_nvme_def example_link_def example_tcp_def)
qed

section \<open>Counting commands in flight\<close>

definition pending_count :: "nvme_session \<Rightarrow> nat" where
  "pending_count s = length (filter (\<lambda>p. p \<noteq> None) (ns_pending s))"

definition is_pending :: "nat \<Rightarrow> nvme_session \<Rightarrow> bool" where
  "is_pending tag s \<longleftrightarrow> tag < length (ns_pending s) \<and> ns_pending s ! tag \<noteq> None"

lemma filter_update_count:
  assumes "i < length xs"
  shows "length (filter P (xs[i := v])) + (if P (xs ! i) then 1 else 0) = length (filter P xs) + (if P v then 1 else 0)"
proof -
  have "length (filter P xs) = length (filter P (take i xs @ xs ! i # drop (Suc i) xs))"
    using id_take_nth_drop [OF assms] by simp
  then show ?thesis by (simp add: upd_conv_take_nth_drop [OF assms])
qed

lemma pending_count_off:
  "length (filter (\<lambda>p. p \<noteq> None) ((ns_pending s)[tag := None])) + (if is_pending tag s then 1 else 0) = pending_count s"
  using filter_update_count [of tag "ns_pending s" "\<lambda>p. p \<noteq> None" None]
  by (cases "tag < length (ns_pending s)") (auto simp: pending_count_def is_pending_def list_update_beyond)

lemma pending_count_put:
  "length (filter (\<lambda>p. p \<noteq> None) (put_pending tag p (ns_pending s))) + (if is_pending tag s then 1 else 0) = pending_count s + 1"
proof -
  let ?ps = "ns_pending s @ replicate (tag + 1 - length (ns_pending s)) None"
  have "?ps ! tag \<noteq> None \<longleftrightarrow> is_pending tag s" by (auto simp: is_pending_def nth_append)
  then show ?thesis
    using filter_update_count [of tag ?ps "\<lambda>p. p \<noteq> None" "Some p"] by (simp add: put_pending_def pending_count_def)
qed

text \<open>What one PDU does to the commands in flight.\<close>

lemma nvme_finish_Inr:
  "nvme_finish cid cqe s = (Inr d, s') \<Longrightarrow> dn_tag d = unat cid \<and> ns_inflight s' + 1 = ns_inflight s
    \<and> ns_pending s' = (ns_pending s)[dn_tag d := None]"
  by (auto simp: nvme_finish_def Let_def split: if_splits)

lemma handle_pdu_none:
  "nvme_handle_pdu p s m = (Inr None, s', m') \<Longrightarrow> ns_pending s' = ns_pending s \<and> ns_inflight s' = ns_inflight s"
  by (auto simp: nvme_handle_pdu_def nvme_c2h_def nvme_r2t_pdu_def Let_def and_then_eq_Inr
      split: if_splits sum.splits prod.splits)

lemma handle_pdu_some:
  "nvme_handle_pdu p s m = (Inr (Some d), s', m') \<Longrightarrow> ns_inflight s' + 1 = ns_inflight s
    \<and> ns_pending s' = (ns_pending s)[dn_tag d := None]"
  by (auto simp: nvme_handle_pdu_def nvme_c2h_def nvme_r2t_pdu_def Let_def and_then_eq_Inr dest!: nvme_finish_Inr
      split: if_splits sum.splits prod.splits)

lemma nvme_poll_done:
  "nvme_poll s m = (Inr d, s', m') \<Longrightarrow> ns_inflight s' + 1 = ns_inflight s
    \<and> ns_pending s' = (ns_pending s)[dn_tag d := None]"
proof (induction s m rule: nvme_poll.induct)
  case (1 s m)
  obtain x t where rd: "sthen (keep_alive_if_due s) (\<lambda>_ s. nvme_read s) = (x, t)" by fastforce
  note t = nvme_next_pending [OF rd]
  with 1(2) rd obtain p where p: "x = Inr p" by (cases x) (auto simp: nvme_poll.simps [of s m])
  obtain y u m1 where h: "nvme_handle_pdu p t m = (y, u, m1)" by (metis prod_cases3)
  with 1(2) rd p obtain z where z: "y = Inr z" by (cases y) (auto simp: nvme_poll.simps [of s m])
  show ?case
  proof (cases z)
    case None
    have "nvme_poll u m1 = (Inr d, s', m')" using 1(2) rd p h z None by (simp add: nvme_poll.simps [of s m])
    from 1(1) [OF rd [symmetric] p h [symmetric] z None refl this] show ?thesis
      using handle_pdu_none h z None t by simp
  next
    case (Some e)
    then have "nvme_handle_pdu p t m = (Inr (Some d), s', m')"
      using 1(2) rd p h z by (simp add: nvme_poll.simps [of s m])
    from handle_pdu_some [OF this] show ?thesis using t by simp
  qed
qed

text \<open>
  C13: The count of commands in flight on an NVMe-oF session is the number of slots that hold a command, as long
  as completions answer commands in flight: submitting to a free slot and completing a command in flight both
  keep it. A completion for a command that is not in flight breaks it: the session accepts it, reports that
  slot as finished and counts one command less than it has in flight.\<close>

theorem nvme_inflight_counted:
  assumes "ns_inflight s = pending_count s"
  shows "(\<forall>s'. nvme_submit s tag io buf len m = Inr s' \<longrightarrow> \<not> is_pending tag s \<longrightarrow>
        ns_inflight s' = pending_count s' \<and> is_pending tag s')
    \<and> (\<forall>d s' m'. nvme_poll s m = (Inr d, s', m') \<longrightarrow> \<not> is_pending (dn_tag d) s' \<and>
        (if is_pending (dn_tag d) s then ns_inflight s' = pending_count s' else ns_inflight s' + 1 = pending_count s'))"
proof (intro conjI allI impI)
  fix s' assume sub: "nvme_submit s tag io buf len m = Inr s'" and free: "\<not> is_pending tag s"
  note s' = nvme_submit_Inr [OF sub]
  then show "ns_inflight s' = pending_count s'"
    using pending_count_put [of tag _ s] free assms by (simp add: pending_count_def)
  show "is_pending tag s'" using s' by (simp add: is_pending_def put_pending_def)
next
  fix d s' m' assume p: "nvme_poll s m = (Inr d, s', m')"
  note s' = nvme_poll_done [OF p]
  show "\<not> is_pending (dn_tag d) s'" using s' by (simp add: is_pending_def)
  have "pending_count s' + (if is_pending (dn_tag d) s then 1 else 0) = pending_count s"
    using pending_count_off [of s "dn_tag d"] s' by (simp add: pending_count_def)
  then show "if is_pending (dn_tag d) s then ns_inflight s' = pending_count s' else ns_inflight s' + 1 = pending_count s'"
    using s' assms by (auto split: if_splits)
qed

text \<open>A read in flight in slot 1, and a controller that completes slot 0, which is free.\<close>

definition example_stray :: nvme_session where
  "example_stray = (example_nvme (example_response 0 0))\<lparr>
     ns_pending := [None, Some \<lparr>pd_buf = 0, pd_len = 4, pd_write = False\<rparr>], ns_inflight := 1\<rparr>"

theorem nvme_inflight_counted_witness:
  "\<exists>d s'. nvme_poll example_stray [] = (Inr d, s', []) \<and> dn_tag d = 0 \<and> ns_inflight s' = 0 \<and> pending_count s' = 1"
proof -
  have i: "tc_in (lk_stream (ns_io example_stray)) = example_response 0 0 @ []"
    by (simp add: example_stray_def example_nvme_def example_link_def example_tcp_def)
  obtain t where r: "sthen (keep_alive_if_due example_stray) (\<lambda>_ s. nvme_read s) = (Inr (example_response_pdu 0 0), t)"
    and t: "ns_inflight t = 1"
    using example_response_read [OF i]
    by (simp add: keep_alive_if_due_def example_stray_def example_nvme_def sthen_def nvme_read_def)
  have k: "np_kind (example_response_pdu 0 0) = 5" by (simp add: example_response_pdu_def nvme_types)
  obtain d s' where p: "nvme_poll example_stray [] = (Inr d, s', [])" and d: "dn_tag d = 0"
    using r t k
    by (simp add: nvme_poll.simps [of example_stray] nvme_handle_pdu_def nvme_types example_response_parse
        example_response_fields nvme_finish_def Let_def)
  have c: "ns_inflight example_stray = pending_count example_stray" "\<not> is_pending 0 example_stray" "ns_inflight example_stray = 1"
    by (simp_all add: example_stray_def example_nvme_def pending_count_def is_pending_def)
  have "ns_inflight s' + 1 = pending_count s'" using nvme_inflight_counted [OF c(1)] p d c(2) by force
  moreover have "ns_inflight s' = 0" using nvme_poll_done [OF p] c(3) by simp
  ultimately show ?thesis using p d by auto
qed

end
