(* ===== verification/Scsi.thy ===== *)
theory Scsi
  imports Login
begin

text \<open>
  \<open>src/rust/src/iscsi/scsi.rs\<close>, \<open>path.rs\<close>, \<open>connection.rs\<close> and the fallback of \<open>credentials.rs\<close>: the SCSI
  commands that identify a LUN, the path syntax, and the iSCSI session as a transport of the pool. A
  \<open>Commands\<close> implementation is the function that runs one command; logging in is \<open>login\<close> of the theory
  \<open>Login\<close>, over the network it takes as a parameter.
\<close>

unbundle bit_operations_syntax

section \<open>Commands\<close>

type_synonym 's commands = "u8 list \<Rightarrow> nat \<Rightarrow> 's \<Rightarrow> outcome result \<times> 's"

definition unit_attention :: "outcome \<Rightarrow> bool" where
  "unit_attention r \<longleftrightarrow> oc_status r = 0x02 \<and> (case get (oc_sense r) 2 of Some k \<Rightarrow> k AND 0x0f = 0x06 | None \<Rightarrow> False)"

text \<open>The loop of \<open>command\<close> with the attempts left.\<close>

fun retry_command :: "nat \<Rightarrow> 's commands \<Rightarrow> u8 list \<Rightarrow> nat \<Rightarrow> 's \<Rightarrow> outcome result \<times> 's" where
  "retry_command 0 cmd cdb read s = (Inl (Err ''target kept reporting UNIT ATTENTION''), s)"
| "retry_command (Suc n) cmd cdb read s =
     sthen (cmd cdb read s) (\<lambda>r s. if unit_attention r then retry_command n cmd cdb read s else (Inr r, s))"

definition scsi_run :: "'s commands \<Rightarrow> u8 list \<Rightarrow> nat \<Rightarrow> 's \<Rightarrow> outcome result \<times> 's" where
  "scsi_run = retry_command 5"

definition hex_bytes :: "u8 list \<Rightarrow> string" where
  "hex_bytes d = concat (map hex_byte d)"

definition check_status :: "string \<Rightarrow> u8 \<Rightarrow> u8 list \<Rightarrow> unit result" where
  "check_status operation status sense =
     (if status = 0 then Inr ()
      else Inl (Err (operation @ '': SCSI status 0x'' @ hex_byte status @ '', sense ''
             @ (if hex_bytes sense = [] then ''none'' else hex_bytes sense))))"

definition check_outcome :: "string \<Rightarrow> outcome \<Rightarrow> unit result" where
  "check_outcome operation r =
     (if oc_status r = 0 then Inr ()
      else Inl (Err (operation @ '': SCSI status 0x'' @ hex_byte (oc_status r) @ '', sense ''
             @ (if hex_bytes (oc_sense r) = [] then ''none'' else hex_bytes (oc_sense r)))))"

definition get_be16 :: "u8 list \<Rightarrow> nat \<Rightarrow> u16 option" where
  "get_be16 d k = map_option from_be_bytes (get_slice k 2 d)"

definition get_be32 :: "u8 list \<Rightarrow> nat \<Rightarrow> u32 option" where
  "get_be32 d k = map_option from_be_bytes (get_slice k 4 d)"

definition get_be64 :: "u8 list \<Rightarrow> nat \<Rightarrow> u64 option" where
  "get_be64 d k = map_option from_be_bytes (get_slice k 8 d)"

definition else_0 :: "'a::len word option \<Rightarrow> 'a word" where
  "else_0 x = (case x of Some v \<Rightarrow> v | None \<Rightarrow> 0)"

section \<open>What a LUN reports\<close>

record designator =
  dg_kind :: u8
  dg_association :: u8
  dg_value :: string

text \<open>The loop over the descriptors. Its indices are within the data by its guard.\<close>

function designator_loop :: "u8 list \<Rightarrow> nat \<Rightarrow> nat \<Rightarrow> designator list" where
  "designator_loop d bytes i =
     (if i + 4 \<le> min (length d) (4 + bytes)
      then let len = unat (d ! (i + 3))
           in \<lparr>dg_kind = d ! (i + 1) AND 0x0f, dg_association = drop_bit 4 (d ! (i + 1)) AND 3,
               dg_value = (case get_slice (i + 4) len d of Some v \<Rightarrow> hex_bytes v | None \<Rightarrow> [])\<rparr>
              # designator_loop d bytes (i + 4 + len)
      else [])"
  by pat_completeness auto
termination
  by (relation "measure (\<lambda>(d, bytes, i). length d - i)") auto

definition designators :: "'s commands \<Rightarrow> 's \<Rightarrow> designator list result \<times> 's" where
  "designators cmd s =
     sthen (scsi_run cmd [0x12, 0x01, 0x83, 0, 255, 0] 255 s) (\<lambda>r s.
     sthen (check_outcome ''INQUIRY VPD 0x83'' r, s) (\<lambda>_ s.
       (Inr (designator_loop (oc_data r) (unat (else_0 (get_be16 (oc_data r) 2))) 4), s)))"

definition read_capacity_cdb :: "u8 list" where
  "read_capacity_cdb = [0x9e, 0x10, 0, 0, 0, 0, 0, 0, 0, 0, 0, 0, 0, 32, 0, 0]"

definition capacity :: "'s commands \<Rightarrow> 's \<Rightarrow> (nat \<times> nat) result \<times> 's" where
  "capacity cmd s =
     sthen (scsi_run cmd read_capacity_cdb 32 s) (\<lambda>r s.
     sthen (check_outcome ''READ CAPACITY(16)'' r, s) (\<lambda>_ s.
     sthen (ok_or (get_be64 (oc_data r) 0) ''READ CAPACITY(16) data is short'', s) (\<lambda>last_lba s.
     sthen (ok_or (get_be32 (oc_data r) 8) ''READ CAPACITY(16) data is short'', s) (\<lambda>block s.
       (Inr (unat last_lba, unat block), s)))))"

definition block_cdb :: "u8 \<Rightarrow> u32 \<Rightarrow> u16 \<Rightarrow> u8 list" where
  "block_cdb opc lba blocks = [opc, 0] @ to_be_bytes lba @ [0] @ to_be_bytes blocks @ [0]"

definition state_name :: "u8 \<Rightarrow> string" where
  "state_name state =
     (if state = 0x0 then ''active/optimized'' else if state = 0x1 then ''active/non-optimized''
      else if state = 0x2 then ''standby'' else if state = 0x3 then ''unavailable''
      else if state = 0x4 then ''LBA-dependent'' else if state = 0xe then ''offline''
      else if state = 0xf then ''transitioning'' else ''other'')"

record port_group =
  pg_id :: u16
  pg_state :: u8
  pg_status :: u8
  pg_ports :: "u16 list"

function port_group_loop :: "u8 list \<Rightarrow> nat \<Rightarrow> nat \<Rightarrow> port_group list" where
  "port_group_loop d bytes i =
     (if i + 8 \<le> min (length d) (4 + bytes)
      then let count = unat (d ! (i + 7))
           in \<lparr>pg_id = else_0 (get_be16 d (i + 2)), pg_state = d ! i AND 0x0f, pg_status = d ! (i + 5),
               pg_ports = List.map_filter (\<lambda>p. get_be16 d (i + 8 + 4 * p + 2)) [0..<count]\<rparr>
              # port_group_loop d bytes (i + 8 + 4 * count)
      else [])"
  by pat_completeness auto
termination
  by (relation "measure (\<lambda>(d, bytes, i). length d - i)") auto

declare designator_loop.simps [simp del] and port_group_loop.simps [simp del]

definition port_groups :: "'s commands \<Rightarrow> 's \<Rightarrow> port_group list result \<times> 's" where
  "port_groups cmd s =
     sthen (scsi_run cmd [0xa3, 0x0a, 0, 0, 0, 0, 0, 0, 4, 0, 0, 0] 1024 s) (\<lambda>r s.
     sthen (check_outcome ''REPORT TARGET PORT GROUPS'' r, s) (\<lambda>_ s.
       (Inr (port_group_loop (oc_data r) (unat (else_0 (get_be32 (oc_data r) 0))) 4), s)))"

section \<open>Paths\<close>

record iscsi_path =
  ip_portal :: string
  ip_target :: string
  ip_lun :: u16

definition local_path :: "string \<Rightarrow> iscsi_path" where
  "local_path device = \<lparr>ip_portal = [], ip_target = device, ip_lun = 0\<rparr>"

definition is_local :: "iscsi_path \<Rightarrow> bool" where
  "is_local p \<longleftrightarrow> ip_portal p = []"

definition lun_field :: "iscsi_path \<Rightarrow> u64" where
  "lun_field p = push_bit 48 (ucast (if ip_lun p < 256 then ip_lun p else 0x4000 OR (ip_lun p AND 0x3fff)))"

definition parse_path :: "string \<Rightarrow> iscsi_path result" where
  "parse_path text =
     (let refused = Inl (Err (''--iscsi takes HOST[:PORT]/IQN[/LUN], not '' @ text)); slash = (\<lambda>c. c = CHR ''/'')
      in case split_once slash text of
           None \<Rightarrow> refused
         | Some (portal, rest) \<Rightarrow>
             (case (case split_once slash rest of
                      Some (target, lun) \<Rightarrow> map_option (\<lambda>n. (target, n)) (parse_uint 16 lun)
                    | None \<Rightarrow> Some (rest, 0)) of
                None \<Rightarrow> refused
              | Some (target, lun) \<Rightarrow>
                  if portal = [] \<or> strip_prefix ''iqn.'' target = None then refused
                  else Inr \<lparr>ip_portal = portal, ip_target = target, ip_lun = of_nat lun\<rparr>))"

definition for_lun :: "iscsi_path \<Rightarrow> session \<Rightarrow> session" where
  "for_lun p s = s\<lparr>sn_lun := lun_field p\<rparr>"

section \<open>The iSCSI transport\<close>

text \<open>\<open>u16::from_str_radix(_, 16)\<close>\<close>

fun hex_digits_value :: "nat \<Rightarrow> string \<Rightarrow> nat option" where
  "hex_digits_value acc [] = Some acc"
| "hex_digits_value acc (c # cs) =
     (case hex_value c of None \<Rightarrow> None | Some d \<Rightarrow> hex_digits_value (16 * acc + d) cs)"

definition parse_hex_u16 :: "string \<Rightarrow> u16 option" where
  "parse_hex_u16 s =
     (let t = (case s of c # cs \<Rightarrow> if c = CHR ''+'' then cs else s | [] \<Rightarrow> [])
      in if t = [] then None
         else case hex_digits_value 0 t of
                Some n \<Rightarrow> if n < 2 ^ 16 then Some (of_nat n) else None | None \<Rightarrow> None)"

text \<open>The tier a portal's group gives it, and \<open>access_tier\<close>.\<close>

definition group_tier :: "designator list \<Rightarrow> port_group list \<Rightarrow> nat option" where
  "group_tier ds groups =
     (case Option.bind (find (\<lambda>d. dg_kind d = 4 \<and> dg_association d = 1) ds) (\<lambda>d. parse_hex_u16 (dg_value d)) of
        None \<Rightarrow> None
      | Some port \<Rightarrow>
          (case find (\<lambda>g. port \<in> set (pg_ports g)) groups of
             None \<Rightarrow> None
           | Some g \<Rightarrow> Some (if pg_state g = 0x0 then tier_optimized
                        else if pg_state g = 0x1 \<or> pg_state g = 0x4 then tier_non_optimized else tier_standby)))"

definition access_tier :: "'s commands \<Rightarrow> 's \<Rightarrow> nat option result \<times> 's" where
  "access_tier cmd s =
     sthen (designators cmd s) (\<lambda>ds s.
       case port_groups cmd s of
         (Inl Panic, s) \<Rightarrow> (Inl Panic, s)
       | (Inl (Err _), s) \<Rightarrow> (Inr None, s)
       | (Inr groups, s) \<Rightarrow> (Inr (group_tier ds groups), s))"

definition session_commands :: "session commands" where
  "session_commands cdb read s = command cdb read None s"

type_synonym credentials = "string \<times> u8 list"

text \<open>Logging in without security first; the credentials are used only after an authentication failure.\<close>

definition login_with_fallback ::
  "network \<Rightarrow> u32 \<Rightarrow> iscsi_path \<Rightarrow> string \<Rightarrow> credentials option \<Rightarrow> string \<Rightarrow> nat \<Rightarrow> session result" where
  "login_with_fallback net pid path initiator chap digest now =
     (case login net pid now 0 (ip_portal path) (ip_target path) initiator None digest of
        Inr s \<Rightarrow> Inr (for_lun path s)
      | Inl (Err e) \<Rightarrow>
          if chap \<noteq> None \<and> contains ''authentication failure'' e
          then and_then (login net pid now 1 (ip_portal path) (ip_target path) initiator chap digest)
                 (\<lambda>s. Inr (for_lun path s))
          else Inl (Err e)
      | Inl Panic \<Rightarrow> Inl Panic)"

definition iscsi_label :: "iscsi_path \<Rightarrow> string" where
  "iscsi_label p = ip_portal p @ '' '' @ ip_target p"

text \<open>What \<open>open\<close> asks the session after login.\<close>

definition read_lun :: "session \<Rightarrow> geometry result \<times> session" where
  "read_lun s =
     sthen (access_tier session_commands s) (\<lambda>tier s.
     sthen (capacity session_commands (s\<lparr>sn_access_tier := tier\<rparr>)) (\<lambda>(last_lba, block_len) s.
       if 2 ^ 64 \<le> (last_lba + 1) * block_len then (Inl Panic, s)
       else (Inr \<lparr>ge_block_len = block_len, ge_capacity_bytes = (last_lba + 1) * block_len\<rparr>, s)))"

definition iscsi_open ::
  "network \<Rightarrow> u32 \<Rightarrow> string \<Rightarrow> credentials option \<Rightarrow> iscsi_path \<Rightarrow> nat \<Rightarrow> (session \<times> geometry) result" where
  "iscsi_open net pid initiator chap path now =
     and_then (login_with_fallback net pid path initiator chap ''CRC32C,None'' now) (\<lambda>s.
       let (r, s) = read_lun s in and_then r (\<lambda>g. Inr (s, g)))"

definition iscsi_check :: "session \<Rightarrow> io \<Rightarrow> unit result" where
  "iscsi_check s io =
     (if 2 ^ 32 \<le> io_lba io then Inl (Err ''LBA beyond READ(10) range'')
      else if 2 ^ 16 \<le> io_blocks io then Inl (Err ''transfer beyond READ(10) range'') else Inr ())"

definition iscsi_submit :: "session \<Rightarrow> nat \<Rightarrow> io \<Rightarrow> nat \<Rightarrow> nat \<Rightarrow> memory \<Rightarrow> session result" where
  "iscsi_submit s tag io buf len m =
     (let cdb = block_cdb (if io_write io then 0x2a else 0x28) (of_nat (io_lba io)) (of_nat (io_blocks io));
          (r, s) = submit cdb tag buf len (io_write io) s
      in and_then r (\<lambda>_. Inr s))"

definition iscsi_poll :: "session \<Rightarrow> memory \<Rightarrow> (finished \<times> session) result \<times> memory" where
  "iscsi_poll s m = (let (r, s, m) = poll s m in (and_then r (\<lambda>dn. Inr (dn, s)), m))"

text \<open>\<open>unwrap_err\<close> is only reached for a status other than GOOD.\<close>

definition iscsi_failure :: "session \<Rightarrow> io \<Rightarrow> finished \<Rightarrow> string" where
  "iscsi_failure s io dn =
     (case check_status (if io_write io then ''WRITE(10)'' else ''READ(10)'') (dn_status dn) (dn_sense dn) of
        Inl (Err e) \<Rightarrow> e | _ \<Rightarrow> [])"

definition sense_byte :: "finished \<Rightarrow> nat \<Rightarrow> u8" where
  "sense_byte dn i = (case get (dn_sense dn) i of Some b \<Rightarrow> b | None \<Rightarrow> 0)"

definition iscsi_unavailable :: "session \<Rightarrow> finished \<Rightarrow> string" where
  "iscsi_unavailable s dn = ''ASC '' @ hex_byte (sense_byte dn 12) @ ''/'' @ hex_byte (sense_byte dn 13)"

text \<open>A session has no keep-alive of its own: \<open>tick\<close> is the trait's, which does nothing.\<close>

definition iscsi_transport :: "session transport" where
  "iscsi_transport = \<lparr>tp_can_submit = can_submit, tp_inflight = inflight_count, tp_tier = sn_access_tier,
     tp_check = iscsi_check, tp_submit = iscsi_submit, tp_poll = iscsi_poll, tp_tick = Inr,
     tp_failure = iscsi_failure, tp_unavailable = iscsi_unavailable\<rparr>"

definition iscsi_fabric ::
  "network \<Rightarrow> u32 \<Rightarrow> string \<Rightarrow> credentials option \<Rightarrow> (iscsi_path, session) fabric" where
  "iscsi_fabric net pid initiator chap =
     \<lparr>fb_transport = iscsi_transport, fb_label = iscsi_label, fb_open = iscsi_open net pid initiator chap\<rparr>"

section \<open>The pool's contract\<close>

text \<open>A predicate that every command keeps, over the loops of the commands.\<close>

definition keeps_pred :: "('s \<Rightarrow> bool) \<Rightarrow> 's commands \<Rightarrow> bool" where
  "keeps_pred P cmd \<longleftrightarrow> (\<forall>cdb read s. P s \<longrightarrow> P (snd (cmd cdb read s)))"

lemma sthen_snd:
  assumes "P (snd r)" and "\<And>y u. r = (Inr y, u) \<Longrightarrow> P u \<Longrightarrow> P (snd (f y u))"
  shows "P (snd (sthen r f))"
  using assms by (cases r; cases "fst r") (auto simp: sthen_def)

lemma retry_command_keeps:
  assumes k: "keeps_pred P cmd"
  shows "P s \<Longrightarrow> P (snd (retry_command n cmd cdb read s))"
proof (induction n arbitrary: s)
  case (Suc n)
  have "P (snd (cmd cdb read s))" using k Suc.prems by (simp add: keeps_pred_def)
  then show ?case using Suc.IH by (simp add: sthen_snd)
qed simp

lemma scsi_run_keeps: "keeps_pred P cmd \<Longrightarrow> P s \<Longrightarrow> P (snd (scsi_run cmd cdb read s))"
  by (simp add: scsi_run_def retry_command_keeps)

lemma sthen_snd_pure: "P u \<Longrightarrow> (\<And>y. P (snd (f y u))) \<Longrightarrow> P (snd (sthen (x, u) f))"
  by (cases x) (simp_all add: sthen_def)

lemma commands_keep:
  assumes k: "keeps_pred P cmd" and s: "P s"
  shows "P (snd (designators cmd s))" "P (snd (port_groups cmd s))" "P (snd (capacity cmd s))"
  unfolding designators_def port_groups_def capacity_def
  by (rule sthen_snd [where P = P, OF scsi_run_keeps [OF k s]], simp add: sthen_snd_pure)+

lemma access_tier_keeps:
  assumes k: "keeps_pred P cmd" and s: "P s"
  shows "P (snd (access_tier cmd s))"
  unfolding access_tier_def
proof (rule sthen_snd)
  show "P (snd (designators cmd s))" by (rule commands_keep(1) [OF k s])
  fix ds u assume "P u"
  then have "P (snd (port_groups cmd u))" by (rule commands_keep(2) [OF k])
  then show "P (snd (case port_groups cmd u of
         (Inl Panic, s) \<Rightarrow> (Inl Panic, s)
       | (Inl (Err _), s) \<Rightarrow> (Inr None, s)
       | (Inr groups, s) \<Rightarrow> (Inr (group_tier ds groups), s)))"
    by (auto split: prod.splits sum.splits error.splits)
qed

lemma session_commands_idle: "keeps_pred (\<lambda>s. sn_inflight s = []) session_commands"
  unfolding keeps_pred_def
proof (intro allI impI)
  fix cdb read and s :: session assume "sn_inflight s = []"
  moreover obtain x t data where c: "command_into cdb (replicate read 0) None s = (x, t, data)" by (metis prod_cases3)
  ultimately have "sn_inflight t = []" using command_into_idle(1) by blast
  then show "sn_inflight (snd (session_commands cdb read s)) = []"
    by (simp add: session_commands_def command_def c split: sum.splits)
qed

lemma read_lun_keeps:
  assumes k: "keeps_pred P session_commands" and s: "P s" and tier: "\<And>s t. P (s\<lparr>sn_access_tier := t\<rparr>) = P s"
  shows "P (snd (read_lun s))"
  unfolding read_lun_def
proof (rule sthen_snd [where P = P, OF access_tier_keeps [OF k s]])
  fix t u assume "P u"
  then have "P (snd (capacity session_commands (u\<lparr>sn_access_tier := t\<rparr>)))" using commands_keep(3) [OF k] tier by simp
  then show "P (snd (sthen (capacity session_commands (u\<lparr>sn_access_tier := t\<rparr>)) (\<lambda>(last_lba, block_len) s.
       if 2 ^ 64 \<le> (last_lba + 1) * block_len then (Inl Panic, s)
       else (Inr \<lparr>ge_block_len = block_len, ge_capacity_bytes = (last_lba + 1) * block_len\<rparr>, s))))"
    by (rule sthen_snd [where P = P]) (auto split: prod.splits)
qed

lemma iscsi_open_idle:
  assumes "iscsi_open net pid initiator chap path now = Inr (s, g)"
  shows "sn_inflight s = []"
proof -
  from assms obtain s0 where s0: "login_with_fallback net pid path initiator chap ''CRC32C,None'' now = Inr s0" and s: "snd (read_lun s0) = s"
    by (cases "login_with_fallback net pid path initiator chap ''CRC32C,None'' now")
      (auto simp: iscsi_open_def and_then_eq_Inr Let_def split: prod.splits)
  have "sn_inflight s0 = []"
    using s0 by (auto simp: login_with_fallback_def and_then_eq_Inr for_lun_def login_idle
        split: sum.splits error.splits if_splits)
  then show ?thesis using read_lun_keeps [OF session_commands_idle, of s0] s by simp
qed

interpretation iscsi: fabric_contract "iscsi_fabric net pid initiator chap" tags_of sound for net pid initiator chap
proof (standard, goal_cases)
  case (1 path now s g)
  then show ?case using iscsi_open_idle by (simp add: iscsi_fabric_def tags_of_def)
next
  case (2 s tag io buf len m s')
  then show ?case
    using submit_Inr(1) by (fastforce simp: iscsi_fabric_def iscsi_transport_def iscsi_submit_def and_then_eq_Inr split: prod.splits)
next
  case (3 s m dn s' m')
  then show ?case
    using poll_tags by (fastforce simp: iscsi_fabric_def iscsi_transport_def iscsi_poll_def and_then_eq_Inr split: prod.splits)
next
  case (4 s s')
  then show ?case by (simp add: iscsi_fabric_def iscsi_transport_def)
next
  case (5 s)
  show ?case by (simp add: iscsi_fabric_def iscsi_transport_def inflight_count_def tags_of_def)
next
  case (6 s io)
  show ?case by (simp add: iscsi_fabric_def iscsi_transport_def iscsi_check_def)
next
  case (7 s tag io buf len m)
  then show ?case
    using submit_no_panic
    by (fastforce simp: iscsi_fabric_def iscsi_transport_def iscsi_submit_def and_then_def split: prod.splits sum.splits)
next
  case (8 s tag io buf len m s')
  then show ?case
    using submit_Inr(2) sound_same_input
    by (fastforce simp: iscsi_fabric_def iscsi_transport_def iscsi_submit_def and_then_eq_Inr split: prod.splits)
next
  case (9 s m m')
  then show ?case
    using poll_sound by (fastforce simp: iscsi_fabric_def iscsi_transport_def iscsi_poll_def and_then_def split: prod.splits sum.splits)
next
  case (10 s m dn s' m')
  then show ?case
    using poll_sound by (fastforce simp: iscsi_fabric_def iscsi_transport_def iscsi_poll_def and_then_eq_Inr split: prod.splits)
next
  case (11 s)
  show ?case by (simp add: iscsi_fabric_def iscsi_transport_def)
next
  case (12 s s')
  then show ?case by (simp add: iscsi_fabric_def iscsi_transport_def)
qed

text \<open>So the pool's invariant holds for every run over iSCSI.\<close>

lemma iscsi_drive_run:
  assumes "opens_sound (iscsi_fabric net pid initiator chap) sound"
    and "pool_open (iscsi_fabric net pid initiator chap) now paths policy seed = Inr p" and "0 < ge_block_len (pl_geometry p)"
  shows "\<exists>d. drive_run (iscsi_fabric net pid initiator chap) C False ts (drive_start (set_race race (reserve t depth p)) m c) = Inr d
    \<and> drive_ok tags_of sound d"
  by (rule iscsi.drive_run_ok [OF assms(1) iscsi.drive_start_ok [OF assms]])

end
