(* ===== verification/Any_Paths.thy ===== *)
theory Any_Paths
  imports Nvme_Session Scsi
begin

text \<open>
  \<open>src/rust/src/paths/any.rs\<close>: a pool whose paths are iSCSI portals and NVMe-oF controllers in any mix. A path
  and a session are sums of the two transports', and every operation goes to the one the session is of. The
  lemmas show that both transports, and so their sum, keep the promise of \<open>Transport::submit\<close>: whatever the
  targets send, no byte changes but in the buffers of reads in flight.
\<close>

section \<open>Paths of either transport\<close>

datatype path_spec = Iscsi iscsi_path | Nvmeof nvme_path

datatype any_session = Iscsi_Session session | Nvme_Session nvme_session

definition path_label ::
  "(iscsi_path, session) fabric \<Rightarrow> (nvme_path, nvme_session) fabric \<Rightarrow> path_spec \<Rightarrow> string" where
  "path_label iscsi nvme path = (case path of Iscsi p \<Rightarrow> fb_label iscsi p | Nvmeof p \<Rightarrow> fb_label nvme p)"

definition path_open ::
  "(iscsi_path, session) fabric \<Rightarrow> (nvme_path, nvme_session) fabric \<Rightarrow> path_spec \<Rightarrow> nat \<Rightarrow> (any_session \<times> geometry) result" where
  "path_open iscsi nvme path now =
     (case path of
        Iscsi p \<Rightarrow> and_then (fb_open iscsi p now) (\<lambda>(session, geometry). Inr (Iscsi_Session session, geometry))
      | Nvmeof p \<Rightarrow> and_then (fb_open nvme p now) (\<lambda>(session, geometry). Inr (Nvme_Session session, geometry)))"

definition any_can_submit :: "any_session \<Rightarrow> bool" where
  "any_can_submit s = (case s of Iscsi_Session s \<Rightarrow> tp_can_submit iscsi_transport s
     | Nvme_Session s \<Rightarrow> tp_can_submit nvme_transport s)"

definition any_inflight :: "any_session \<Rightarrow> nat" where
  "any_inflight s = (case s of Iscsi_Session s \<Rightarrow> tp_inflight iscsi_transport s
     | Nvme_Session s \<Rightarrow> tp_inflight nvme_transport s)"

definition any_tier :: "any_session \<Rightarrow> nat option" where
  "any_tier s = (case s of Iscsi_Session s \<Rightarrow> tp_tier iscsi_transport s | Nvme_Session s \<Rightarrow> tp_tier nvme_transport s)"

definition any_check :: "any_session \<Rightarrow> io \<Rightarrow> unit result" where
  "any_check s io = (case s of Iscsi_Session s \<Rightarrow> tp_check iscsi_transport s io
     | Nvme_Session s \<Rightarrow> tp_check nvme_transport s io)"

definition any_submit :: "any_session \<Rightarrow> nat \<Rightarrow> io \<Rightarrow> nat \<Rightarrow> nat \<Rightarrow> memory \<Rightarrow> any_session result" where
  "any_submit s tag io buf len m =
     (case s of
        Iscsi_Session s \<Rightarrow> and_then (tp_submit iscsi_transport s tag io buf len m) (\<lambda>s. Inr (Iscsi_Session s))
      | Nvme_Session s \<Rightarrow> and_then (tp_submit nvme_transport s tag io buf len m) (\<lambda>s. Inr (Nvme_Session s)))"

definition any_poll :: "any_session \<Rightarrow> memory \<Rightarrow> (finished \<times> any_session) result \<times> memory" where
  "any_poll s m =
     (case s of
        Iscsi_Session s \<Rightarrow> (let (r, m) = tp_poll iscsi_transport s m in (and_then r (\<lambda>(d, s). Inr (d, Iscsi_Session s)), m))
      | Nvme_Session s \<Rightarrow> (let (r, m) = tp_poll nvme_transport s m in (and_then r (\<lambda>(d, s). Inr (d, Nvme_Session s)), m)))"

definition any_tick :: "any_session \<Rightarrow> any_session result" where
  "any_tick s =
     (case s of
        Iscsi_Session s \<Rightarrow> and_then (tp_tick iscsi_transport s) (\<lambda>s. Inr (Iscsi_Session s))
      | Nvme_Session s \<Rightarrow> and_then (tp_tick nvme_transport s) (\<lambda>s. Inr (Nvme_Session s)))"

definition any_failure :: "any_session \<Rightarrow> io \<Rightarrow> finished \<Rightarrow> string" where
  "any_failure s io d = (case s of Iscsi_Session s \<Rightarrow> tp_failure iscsi_transport s io d
     | Nvme_Session s \<Rightarrow> tp_failure nvme_transport s io d)"

definition any_unavailable :: "any_session \<Rightarrow> finished \<Rightarrow> string" where
  "any_unavailable s d = (case s of Iscsi_Session s \<Rightarrow> tp_unavailable iscsi_transport s d
     | Nvme_Session s \<Rightarrow> tp_unavailable nvme_transport s d)"

definition any_transport :: "any_session transport" where
  "any_transport = \<lparr>tp_can_submit = any_can_submit, tp_inflight = any_inflight, tp_tier = any_tier,
     tp_check = any_check, tp_submit = any_submit, tp_poll = any_poll, tp_tick = any_tick,
     tp_failure = any_failure, tp_unavailable = any_unavailable\<rparr>"

definition path_fabric ::
  "(iscsi_path, session) fabric \<Rightarrow> (nvme_path, nvme_session) fabric \<Rightarrow> (path_spec, any_session) fabric" where
  "path_fabric iscsi nvme =
     \<lparr>fb_transport = any_transport, fb_label = path_label iscsi nvme, fb_open = path_open iscsi nvme\<rparr>"

definition open_paths ::
  "path_spec list \<Rightarrow> (iscsi_path, session) fabric \<Rightarrow> (nvme_path, nvme_session) fabric \<Rightarrow> policy \<Rightarrow> u64 \<Rightarrow> nat \<Rightarrow>
   (path_spec, any_session) pool result" where
  "open_paths paths iscsi nvme policy seed now = pool_open (path_fabric iscsi nvme) now paths policy seed"

section \<open>Both keep the promise\<close>

lemma poll_keys:
  "poll s m = (x, s', m') \<Longrightarrow> buffers_fit s m \<Longrightarrow> x = Inr d \<Longrightarrow> buffer_keys s' \<subseteq> buffer_keys s"
proof (induction rule: poll_induct)
  case (ended s m bhs t r s' m')
  have k: "buffer_keys t = buffer_keys s" using recv_Inr(3) [OF ended(1)] by (simp add: buffer_keys_def same_state_def)
  then have "buffers_fit t m" using ended(3) by (simp add: buffers_fit_def)
  from poll_pdu_memory [OF ended(2) this] show ?case using k by simp
next
  case (step s m bhs t u m1 x s' m')
  have k: "buffer_keys t = buffer_keys s" using recv_Inr(3) [OF step(1)] by (simp add: buffer_keys_def same_state_def)
  then have "buffers_fit t m" using step(5) by (simp add: buffers_fit_def)
  from poll_pdu_memory [OF step(2) this] have o: "only_reads s m m1" "buffer_keys u \<subseteq> buffer_keys s"
    using k by (simp_all add: only_reads_def)
  then have "buffers_fit u m1" using buffers_fit_lengths [OF _ o(2) step(5)] by (simp add: only_reads_def)
  from step(4) [OF this step(6)] show ?case using o(2) by blast
qed simp

lemma submit_keys:
  assumes "submit cdb tag buf len write s = (Inr u, s')"
  shows "buffer_keys s' = insert (buf, len, write) (buffer_keys s)"
proof -
  have "sn_inflight s' = sn_inflight s @ [\<lparr>if_itt = fst (next_itt s), if_tag = tag, if_buf = buf, if_len = len,
      if_received = 0, if_write = write, if_status = None, if_sense = []\<rparr>]"
    using assms
    by (auto simp: submit_def Let_def sthen_Inr frame_Inr next_itt_def split: if_splits)
  then show ?thesis by (auto simp: buffer_keys_def)
qed

lemma buffers_fit_eq: "buffers_fit s m \<longleftrightarrow> bufs_fit (buffer_keys s) m"
  by (simp add: buffers_fit_def bufs_fit_def)

lemma only_reads_eq: "only_reads s m m' \<longleftrightarrow> changes_only (buffer_keys s) m m'"
  by (simp add: only_reads_def changes_only_def)

interpretation iscsi_buffers: buffer_contract iscsi_transport buffer_keys
proof (standard, goal_cases)
  case (1 s tag io buf len m s')
  then show ?case
    using submit_keys by (fastforce simp: iscsi_transport_def iscsi_submit_def and_then_eq_Inr split: prod.splits)
next
  case (2 s m r m')
  then show ?case
    using poll_memory by (fastforce simp: iscsi_transport_def iscsi_poll_def buffers_fit_eq only_reads_eq split: prod.splits)
next
  case (3 s m d s' m')
  then show ?case
    using poll_keys by (fastforce simp: iscsi_transport_def iscsi_poll_def and_then_eq_Inr buffers_fit_eq split: prod.splits)
next
  case (4 s s')
  then show ?case by (simp add: iscsi_transport_def)
qed

definition any_bufs :: "any_session \<Rightarrow> buffers" where
  "any_bufs s = (case s of Iscsi_Session s \<Rightarrow> buffer_keys s | Nvme_Session s \<Rightarrow> nvme_bufs s)"

interpretation any: buffer_contract any_transport any_bufs
proof (standard, goal_cases)
  case (1 s tag io buf len m s')
  then show ?case
    using iscsi_buffers.submit_bufs nvme.submit_bufs
    by (fastforce simp: any_transport_def any_submit_def any_bufs_def and_then_eq_Inr split: any_session.splits)
next
  case (2 s m r m')
  then show ?case
    using iscsi_buffers.poll_memory nvme.poll_memory
    by (fastforce simp: any_transport_def any_poll_def any_bufs_def Let_def split: any_session.splits prod.splits)
next
  case (3 s m d s' m')
  then show ?case
    using iscsi_buffers.poll_bufs nvme.poll_bufs
    by (fastforce simp: any_transport_def any_poll_def any_bufs_def and_then_eq_Inr Let_def split: any_session.splits prod.splits)
next
  case (4 s s')
  then show ?case
    using iscsi_buffers.tick_bufs nvme.tick_bufs
    by (fastforce simp: any_transport_def any_tick_def any_bufs_def and_then_eq_Inr split: any_session.splits)
qed

text \<open>
  C8: Whatever mix of transports a pool runs over and whatever the targets send, any sequence of calls on a
  session (submitting commands with their buffers, waiting for completions, Keep Alive) leaves every buffer of
  the caller its length and changes no buffer but those of reads: the ones in flight at the start and the ones
  handed over in the calls. In particular the data of a write in flight, and every buffer the session was not
  given, is untouched, also when a call fails.\<close>

theorem paths_write_only_reads:
  assumes "calls any_transport cs s m = (so, m')"
    and "\<forall>(buf, len, write)\<in>any_bufs s \<union> handed cs. buf < length m \<and> len \<le> length (m ! buf)"
  shows "map length m' = map length m
    \<and> (\<forall>b < length m. (\<forall>len. (b, len, False) \<notin> any_bufs s \<union> handed cs) \<longrightarrow> m' ! b = m ! b)"
  using any.calls_change_only [OF assms(1)] assms(2) by (simp add: bufs_fit_def changes_only_def)

text \<open>A controller that answers the read in slot 0 with four bytes and success.\<close>

definition example_c2h :: "u8 list" where
  "example_c2h = encode c2h_data_type (flag_last OR flag_success) (h2c_fields 0 0 0 4 (replicate 24 0)) [1, 2, 3, 4]"

definition example_paths_session :: any_session where
  "example_paths_session = Nvme_Session ((example_nvme example_c2h)\<lparr>
     ns_pending := [Some \<lparr>pd_buf = 0, pd_len = 4, pd_write = False\<rparr>], ns_inflight := 1\<rparr>)"

theorem paths_write_only_reads_witness:
  "\<exists>so m'. calls any_transport [Poll] example_paths_session [[0, 0, 0, 0], [5]] = (so, m')
    \<and> m' ! 0 = [1, 2, 3, 4] \<and> m' ! 1 = [5]"
proof -
  have m: "snd (calls any_transport [Poll] example_paths_session [[0, 0, 0, 0], [5]]) ! 0 = [1, 2, 3, 4]" by code_simp
  obtain so m' where c: "calls any_transport [Poll] example_paths_session [[0, 0, 0, 0], [5]] = (so, m')" by fastforce
  have b: "any_bufs example_paths_session \<union> handed [Poll] = {(0, 4, False)}"
    by (auto simp: any_bufs_def example_paths_session_def nvme_bufs_def)
  have "m' ! 1 = [[0, 0, 0, 0], [5]] ! 1" using paths_write_only_reads [OF c] unfolding b by simp
  then show ?thesis using c m by auto
qed

end
