(* ===== verification/Iscsi_Slots.thy ===== *)
theory Iscsi_Slots
  imports Pool_Payload Any_Paths
begin

text \<open>
  The iSCSI transport keeps the contract with buffers: the tag, the buffer, the length and the direction of a
  task (\<open>src/rust/src/iscsi/session.rs\<close>, \<open>InFlight\<close>) do not change between its submission and its completion. So
  what \<open>Pool_Payload\<close> shows of the pool holds of every run over iSCSI.
\<close>

definition slots_of :: "session \<Rightarrow> slot_buffer multiset" where
  "slots_of s = image_mset (\<lambda>i. (if_tag i, if_buf i, if_len i, if_write i)) (mset (sn_inflight s))"

lemma slots_of_tags: "image_mset fst (slots_of s) = tags_of s"
  by (simp add: slots_of_def tags_of_def multiset.map_comp comp_def)

lemma slots_of_keys: "snd ` set_mset (slots_of s) = buffer_keys s"
  by (auto simp: slots_of_def buffer_keys_def image_image)

lemma same_tasks_slots: "same_tasks s t \<Longrightarrow> slots_of t = slots_of s"
  by (simp add: slots_of_def same_tasks_def)

lemma poll_data_in_slots:
  assumes "poll_data_in bhs s m = (r, s', m')"
  shows "set_mset (slots_of s') \<subseteq> set_mset (slots_of s)"
proof (cases "find_task (be32 bhs 16) s")
  case (Inl e)
  then show ?thesis using assms by (simp add: poll_data_in_def)
next
  case (Inr idx)
  define u where "u = (if bhs ! 1 AND 0x01 \<noteq> 0 then observe (sequence_of bhs) s else s)"
  have u: "same_tasks s u" by (simp add: u_def)
  define i' where "i' = (sn_inflight u ! idx)\<lparr>if_received := if_received (sn_inflight u ! idx) + length (sn_rx s),
                            if_status := if bhs ! 1 AND 0x01 \<noteq> 0 then Some (bhs ! 3) else if_status (sn_inflight u ! idx)\<rparr>"
  let ?key = "\<lambda>i. (if_tag i, if_buf i, if_len i, if_write i)"
  have idx: "idx < length (sn_inflight u)" using find_task_Inr [OF Inr] same_tasks_simps(1) [OF u] by simp
  have keys: "?key ` set ((sn_inflight u)[idx := i']) \<subseteq> ?key ` set (sn_inflight u)"
    by (rule keys_update [OF idx]) (simp add: i'_def)
  have rx: "sn_rx u = sn_rx s" using same_tasks_simps(2) [OF u] .
  have us: "slots_of u = slots_of s" by (rule same_tasks_slots [OF u])
  have r: "set (swap_remove idx ((sn_inflight u)[idx := i'])) \<subseteq> set ((sn_inflight u)[idx := i'])" by (rule set_swap_remove)
  have "sn_inflight s' \<in> {sn_inflight s, sn_inflight u, (sn_inflight u)[idx := i'], swap_remove idx ((sn_inflight u)[idx := i'])}"
    using assms
    unfolding poll_data_in_def Inr u_def [symmetric] Let_def sum.case rx i'_def [symmetric]
    by (auto split: if_splits)
  moreover have "sn_inflight u = sn_inflight s" by (rule same_tasks_simps(1) [OF u])
  ultimately have "set (sn_inflight s') \<subseteq> set (sn_inflight u) \<union> set ((sn_inflight u)[idx := i'])" using r by auto
  from image_mono [OF this, of ?key] keys have "set_mset (slots_of s') \<subseteq> set_mset (slots_of u)"
    unfolding slots_of_def by (simp add: image_Un subset_Un_eq Un_absorb2)
  then show ?thesis using us by simp
qed

lemma poll_pdu_slots:
  assumes p: "poll_pdu bhs s m = (r, s', m')"
  shows "set_mset (slots_of s') \<subseteq> set_mset (slots_of s)"
proof (cases "opcode bhs = op_data_in")
  case True
  then show ?thesis using poll_data_in_slots [of bhs s m r s' m'] p by (simp add: poll_pdu_def)
next
  case False
  have response: "set_mset (slots_of s') \<subseteq> set_mset (slots_of s)" if "poll_response bhs s m = (r, s', m')"
    using that set_swap_remove [of _ "sn_inflight s"]
    by (fastforce simp: poll_response_def Let_def observe_def slots_of_def split: sum.splits if_splits)
  have r2t: "set_mset (slots_of s') \<subseteq> set_mset (slots_of s)" if "poll_r2t bhs s m = (r, s', m')"
    using that same_tasks_slots [OF observe_tasks [of s]]
    by (auto simp: poll_r2t_def Let_def dest!: send_write_tasks same_tasks_slots split: sum.splits if_splits prod.splits)
  have reject: "set_mset (slots_of t) \<subseteq> set_mset (slots_of s)" if "poll_reject bhs s = (x, t)" for x t
    using that by (auto simp: poll_reject_def Let_def observe_def slots_of_def split: if_splits)
  have nop: "slots_of t = slots_of s" if "answer_nop bhs s = (x, t)" for x t
    by (rule same_tasks_slots [OF answer_nop_tasks [OF that]])
  show ?thesis
    using p False response r2t reject nop by (auto simp: poll_pdu_def split: if_splits prod.splits sum.splits)
qed

lemma poll_slots: "poll s m = (x, s', m') \<Longrightarrow> x = Inr dn \<Longrightarrow> set_mset (slots_of s') \<subseteq> set_mset (slots_of s)"
proof (induction rule: poll_induct)
  case (ended s m bhs t r s' m')
  have "slots_of t = slots_of s" using recv_Inr(3) [OF ended(1)] by (simp add: slots_of_def same_state_def)
  then show ?case using poll_pdu_slots [OF ended(2)] by simp
next
  case (step s m bhs t u m1 x s' m')
  have "slots_of t = slots_of s" using recv_Inr(3) [OF step(1)] by (simp add: slots_of_def same_state_def)
  then show ?case using poll_pdu_slots [OF step(2)] step(4) [OF step(5)] by auto
qed simp

lemma submit_slots:
  assumes "submit cdb tag buf len write s = (Inr u, s')"
  shows "slots_of s' = add_mset (tag, buf, len, write) (slots_of s)"
proof -
  have "sn_inflight s' = sn_inflight s @ [\<lparr>if_itt = fst (next_itt s), if_tag = tag, if_buf = buf, if_len = len,
      if_received = 0, if_write = write, if_status = None, if_sense = []\<rparr>]"
    using assms
    by (auto simp: submit_def Let_def sthen_Inr frame_Inr next_itt_def split: if_splits)
  then show ?thesis by (simp add: slots_of_def)
qed

interpretation iscsi_slots: buffered_fabric "iscsi_fabric net pid initiator chap" tags_of sound slots_of
  for net pid initiator chap
proof (standard, goal_cases)
  case (1 s)
  show ?case by (simp add: slots_of_tags)
next
  case (2 s tag io buf len m s')
  then show ?case
    using submit_slots by (fastforce simp: iscsi_fabric_def iscsi_transport_def iscsi_submit_def and_then_eq_Inr split: prod.splits)
next
  case (3 s m dn s' m')
  then show ?case
    using poll_slots by (fastforce simp: iscsi_fabric_def iscsi_transport_def iscsi_poll_def and_then_eq_Inr split: prod.splits)
next
  case (4 s s')
  then show ?case by (simp add: iscsi_fabric_def iscsi_transport_def)
next
  case (5 s m r m')
  then show ?case
    using iscsi_buffers.poll_memory [of s m r m'] by (simp add: iscsi_fabric_def slots_of_keys)
qed

end
