(* ===== verification/Nvme_Logs.thy ===== *)
theory Nvme_Logs
  imports Nvme_Session "HOL-Library.List_Lexorder" "HOL-Library.Product_Lexorder"
begin

text \<open>
  The data structures an NVMe controller returns and the commands built for the tests: the identification
  descriptors of \<open>src/rust/src/nvme/identify.rs\<close>, the ANA log page of \<open>ana_log.rs\<close>, reservation commands,
  report and access table of \<open>reservation.rs\<close>, the I/O commands of \<open>nvm.rs\<close>, the single-command host of \<open>host.rs\<close>
  and the path syntax of \<open>mod.rs\<close>. The lemmas show that a list or page laid out as the specification says
  parses back to what it lists, and what every accepted list satisfies.
\<close>

unbundle bit_operations_syntax

section \<open>Identification descriptors\<close>

definition nidt_eui64 :: u8 where "nidt_eui64 = 1"
definition nidt_nguid :: u8 where "nidt_nguid = 2"
definition nidt_uuid :: u8 where "nidt_uuid = 3"
definition nidt_csi :: u8 where "nidt_csi = 4"

lemmas nidt = nidt_eui64_def nidt_nguid_def nidt_uuid_def nidt_csi_def

type_synonym descriptor = "u8 \<times> u8 list"

definition wanted_len :: "u8 \<Rightarrow> nat option" where
  "wanted_len kind =
     (if kind = nidt_eui64 then Some 8 else if kind = nidt_nguid \<or> kind = nidt_uuid then Some 16
      else if kind = nidt_csi then Some 1 else None)"

function descriptors_loop :: "u8 list \<Rightarrow> nat \<Rightarrow> descriptor list \<Rightarrow> descriptor list result" where
  "descriptors_loop d i out =
     (if i + 4 \<le> length d \<and> d ! (i + 1) \<noteq> 0 then
        let kind = d ! i; len = unat (d ! (i + 1))
        in if (case wanted_len kind of Some w \<Rightarrow> w \<noteq> len | None \<Rightarrow> False)
           then Inl (Err (''type '' @ show_nat (unat kind) @ '' has length '' @ show_nat len))
           else if list_ex (\<lambda>(k, _). k = kind) out
           then Inl (Err (''type '' @ show_nat (unat kind) @ '' appears twice''))
           else case get_slice (i + 4) len d of
                  None \<Rightarrow> Inl (Err (''type '' @ show_nat (unat kind) @ '' runs past the list''))
                | Some v \<Rightarrow> descriptors_loop d (i + (4 + len)) (out @ [(kind, v)])
      else Inr out)"
  by pat_completeness auto

termination by (relation "measure (\<lambda>(d, i, out). length d - i)") auto

declare descriptors_loop.simps [simp del]

definition parse_descriptors :: "u8 list \<Rightarrow> descriptor list result" where
  "parse_descriptors d = descriptors_loop d 0 []"

text \<open>The order of \<open>(u8, Vec<u8>)\<close> is lexicographic.\<close>

definition unique_ids :: "descriptor list \<Rightarrow> descriptor list" where
  "unique_ids ds = sort (filter (\<lambda>(k, v). (k = nidt_eui64 \<or> k = nidt_nguid \<or> k = nidt_uuid) \<and> list_ex (\<lambda>b. b \<noteq> 0) v) ds)"

definition same_id :: "descriptor list \<Rightarrow> u8 \<Rightarrow> u8 list \<Rightarrow> bool" where
  "same_id ds kind v =
     (let zero = list_all (\<lambda>b. b = 0) v
      in case find (\<lambda>(k, _). k = kind) ds of Some (_, w) \<Rightarrow> \<not> zero \<and> w = v | None \<Rightarrow> zero)"

definition agrees :: "namespace_info \<Rightarrow> descriptor list \<Rightarrow> bool" where
  "agrees ns ds \<longleftrightarrow> same_id ds nidt_nguid (ni_nguid ns) \<and> same_id ds nidt_eui64 (ni_eui64 ns)"

section \<open>The ANA log page\<close>

definition log_ana :: u8 where "log_ana = 0x0c"
definition log_len :: nat where "log_len = 4096"

record ana_group =
  ag_id :: u32
  ag_state :: u8
  ag_nsids :: "u32 list"

text \<open>\<open>g\<close> counts the groups read so far, \<open>n\<close> those to come, \<open>i\<close> is the place in the page.\<close>

fun ana_groups :: "u8 list \<Rightarrow> nat \<Rightarrow> nat \<Rightarrow> nat \<Rightarrow> ana_group list result" where
  "ana_groups d g 0 i = Inr []"
| "ana_groups d g (Suc n) i =
     (case get_slice i 32 d of
        None \<Rightarrow> Inl (Err (''descriptor '' @ show_nat g @ '' runs past the page''))
      | Some desc \<Rightarrow>
          let id = (field 0 4 desc :: u32); k = unat (field 4 4 desc :: u32)
          in (case get_slice (i + 32) (4 * k) d of
                None \<Rightarrow> Inl (Err (''group '' @ show_nat (unat id) @ '' lists '' @ show_nat k @ '' namespaces past the page''))
              | Some nsids \<Rightarrow>
                  and_then (ana_groups d (g + 1) n (i + (32 + 4 * k))) (\<lambda>gs.
                    Inr (\<lparr>ag_id = id, ag_state = desc ! 16 AND 0x0f, ag_nsids = map from_le_bytes (chunks 4 nsids)\<rparr> # gs))))"

definition ana_parse :: "u8 list \<Rightarrow> ana_group list result" where
  "ana_parse d = (if length d < 10 then Inl Panic else ana_groups d 0 (unat (field 8 2 d :: u16)) 16)"

definition ana_state_name :: "u8 \<Rightarrow> string" where
  "ana_state_name st =
     (if st = 0x1 then ''optimized'' else if st = 0x2 then ''non-optimized'' else if st = 0x3 then ''inaccessible''
      else if st = 0x4 then ''persistent loss'' else if st = 0xf then ''change'' else ''reserved'')"

definition anacap_bit :: "u8 \<Rightarrow> u8 option" where
  "anacap_bit st =
     (if st = 0x1 then Some 0x01 else if st = 0x2 then Some 0x02 else if st = 0x3 then Some 0x04
      else if st = 0x4 then Some 0x08 else if st = 0xf then Some 0x10 else None)"

section \<open>Commands of the NVM command set\<close>

definition op_flush :: u8 where "op_flush = 0x00"
definition op_write_zeroes :: u8 where "op_write_zeroes = 0x08"
definition op_dataset_management :: u8 where "op_dataset_management = 0x09"
definition op_resv_register :: u8 where "op_resv_register = 0x0d"
definition op_resv_report :: u8 where "op_resv_report = 0x0e"
definition op_resv_acquire :: u8 where "op_resv_acquire = 0x11"
definition op_resv_release :: u8 where "op_resv_release = 0x15"
definition fua_bit :: u8 where "fua_bit = 0x40"
definition attr_deallocate :: u32 where "attr_deallocate = 0x04"

definition block_command :: "u8 \<Rightarrow> u32 \<Rightarrow> u64 \<Rightarrow> u16 \<Rightarrow> bool \<Rightarrow> nvme_command" where
  "block_command op nsid lba blocks fua =
     (let cmd = command_new op 0;
          cmd = set_nsid nsid cmd;
          cmd = set_u64 40 lba cmd;
          cmd = set_u16 48 (if blocks = 0 then 0 else blocks - 1) cmd
      in if fua then set_u8 51 fua_bit cmd else cmd)"

definition nvm_read :: "u32 \<Rightarrow> u64 \<Rightarrow> u16 \<Rightarrow> nvme_command" where
  "nvm_read nsid lba blocks = block_command op_read nsid lba blocks False"

definition nvm_write :: "u32 \<Rightarrow> u64 \<Rightarrow> u16 \<Rightarrow> nvme_command" where
  "nvm_write nsid lba blocks = block_command op_write nsid lba blocks False"

definition write_zeroes :: "u32 \<Rightarrow> u64 \<Rightarrow> u16 \<Rightarrow> nvme_command" where
  "write_zeroes nsid lba blocks = block_command op_write_zeroes nsid lba blocks False"

definition nvm_flush :: "u32 \<Rightarrow> nvme_command" where
  "nvm_flush nsid = set_nsid nsid (command_new op_flush 0)"

definition deallocate :: "u32 \<Rightarrow> nvme_command" where
  "deallocate nsid = set_u32 44 attr_deallocate (set_u32 40 0 (set_nsid nsid (command_new op_dataset_management 0)))"

definition dsm_range :: "u64 \<Rightarrow> u32 \<Rightarrow> u8 list" where
  "dsm_range lba blocks = copy_at 8 (to_le_bytes lba) (copy_at 4 (to_le_bytes blocks) (replicate 16 0))"

section \<open>Reservations\<close>

definition resv_register :: "u32 \<Rightarrow> u8 \<Rightarrow> bool \<Rightarrow> nvme_command" where
  "resv_register nsid action ignore_key =
     set_u32 40 (ucast action OR push_bit 3 (of_bool ignore_key)) (set_nsid nsid (command_new op_resv_register 0))"

definition resv_acquire :: "u32 \<Rightarrow> u8 \<Rightarrow> u8 \<Rightarrow> nvme_command" where
  "resv_acquire nsid action rtype =
     set_u32 40 (ucast action OR push_bit 8 (ucast rtype)) (set_nsid nsid (command_new op_resv_acquire 0))"

definition resv_release :: "u32 \<Rightarrow> u8 \<Rightarrow> u8 \<Rightarrow> nvme_command" where
  "resv_release nsid action rtype =
     set_u32 40 (ucast action OR push_bit 8 (ucast rtype)) (set_nsid nsid (command_new op_resv_release 0))"

definition resv_report :: "u32 \<Rightarrow> nat \<Rightarrow> bool \<Rightarrow> nvme_command result" where
  "resv_report nsid len extended =
     (if len < 4 then Inl Panic
      else Inr (set_u32 44 (of_bool extended) (set_u32 40 (of_nat (len div 4 - 1)) (set_nsid nsid (command_new op_resv_report 0)))))"

definition two_keys :: "u64 \<Rightarrow> u64 \<Rightarrow> u8 list" where
  "two_keys a b = copy_at 8 (to_le_bytes b) (copy_at 0 (to_le_bytes a) (replicate 16 0))"

record registrant =
  rg_cntlid :: u16
  rg_holds :: bool
  rg_key :: u64
  rg_hostid :: "u8 list"

record resv_status =
  rs_generation :: u32
  rs_rtype :: u8
  rs_registrants :: "registrant list"

definition registrant_of :: "u8 list \<Rightarrow> registrant" where
  "registrant_of e = \<lparr>rg_cntlid = field 0 2 e, rg_holds = (e ! 2 AND 1 \<noteq> 0), rg_key = field 8 8 e, rg_hostid = slice 16 16 e\<rparr>"

definition parse_report :: "u8 list \<Rightarrow> resv_status result" where
  "parse_report d =
     (if length d < 7 then Inl Panic
      else Inr \<lparr>rs_generation = field 0 4 d, rs_rtype = d ! 4,
                rs_registrants = map registrant_of
                  (List.map_filter (\<lambda>i. get_slice (64 + 64 * i) 64 d) [0..<unat (field 5 2 d :: u16)])\<rparr>)"

text \<open>May a host that does not hold the reservation read, and write?\<close>

definition allowed :: "u8 \<Rightarrow> bool \<Rightarrow> bool \<times> bool" where
  "allowed rtype registered =
     (if rtype = 1 then (True, False) else if rtype = 2 then (False, False)
      else if rtype = 3 \<or> rtype = 5 then (True, registered)
      else if rtype = 4 \<or> rtype = 6 then (registered, registered) else (True, True))"

section \<open>A host that runs one command at a time\<close>

record nvme_host =
  ho_admin :: controller
  ho_io :: link
  ho_cid :: u16
  ho_inline :: nat
  ho_due :: "bool list"

definition host_sqsize :: u16 where
  "host_sqsize = 31"

definition read_host :: "(nat \<Rightarrow> bool) \<Rightarrow> controller \<Rightarrow> (u16 \<times> nat) result \<times> controller" where
  "read_host late c =
     sthen (property_get prop_cap True c) (\<lambda>cap c.
     sthen (enable late c) (\<lambda>_ c.
     sthen (identify cns_controller 0 c) (\<lambda>d c.
     sthen (parse_controller d, c) (\<lambda>ci c.
       (Inr (min host_sqsize (ucast (cap AND 0xffff)), ci_inline_bytes ci), c)))))"

definition host_open ::
  "network \<Rightarrow> (nat \<Rightarrow> bool) \<Rightarrow> bool list \<Rightarrow> nat \<Rightarrow> association \<Rightarrow> nvme_host result" where
  "host_open net late due now a =
     and_then (controller_connect net now 0 a) (\<lambda>admin.
       let (r, admin) = read_host late admin
       in and_then r (\<lambda>(sqsize, inline).
          and_then (connect_io_queue net now 1 a (ct_cntlid admin) 1 sqsize) (\<lambda>io.
            Inr \<lparr>ho_admin = admin, ho_io = io, ho_cid = 1, ho_inline = inline, ho_due = due\<rparr>)))"

definition host_keep_alive :: "nvme_host \<Rightarrow> unit result \<times> nvme_host" where
  "host_keep_alive h =
     (case ho_due h of
        [] \<Rightarrow> (Inr (), h)
      | due # later \<Rightarrow>
          let h = h\<lparr>ho_due := later\<rparr>
          in if due then (let (r, c) = keep_alive (ho_admin h) in (r, h\<lparr>ho_admin := c\<rparr>)) else (Inr (), h))"

definition host_io :: "nvme_command \<Rightarrow> link_data \<Rightarrow> nvme_host \<Rightarrow> (nvme_completion \<times> u8 list option) result \<times> nvme_host" where
  "host_io cmd data h =
     sthen (host_keep_alive h) (\<lambda>_ h.
       let cid = max (ho_cid h + 1) 1; (r, l, sink) = link_submit cid cmd data (ho_io h)
       in (and_then r (\<lambda>d. Inr (d, sink)), h\<lparr>ho_cid := cid, ho_io := l\<rparr>))"

definition host_send :: "nvme_command \<Rightarrow> u8 list \<Rightarrow> nvme_host \<Rightarrow> (nvme_completion \<times> u8 list option) result \<times> nvme_host" where
  "host_send cmd data h = host_io cmd (if length data \<le> ho_inline h then Data_Inline data else Data_Out data) h"

section \<open>Paths\<close>

definition nvme_default_port :: string where
  "nvme_default_port = ''4420''"

definition nvme_with_port :: "string \<Rightarrow> string" where
  "nvme_with_port host =
     (if 1 < length (filter (\<lambda>c. c = CHR '':'') host) \<and> strip_prefix ''['' host = None
      then ''['' @ host @ '']:'' @ nvme_default_port
      else if CHR '':'' \<in> set host then host else host @ '':'' @ nvme_default_port)"

text \<open>\<open>resolve\<close> is the system's name resolution: the addresses of a name, or its error.\<close>

definition host_address :: "(string \<Rightarrow> string list result) \<Rightarrow> string \<Rightarrow> string result" where
  "host_address resolve host =
     and_then (map_err (''--nvmeof '' @ host @ '': '') (resolve (nvme_with_port host))) (\<lambda>addrs.
       ok_or (get addrs 0) (''--nvmeof '' @ host @ '': no address''))"

definition nvme_parse_path :: "(string \<Rightarrow> string list result) \<Rightarrow> string \<Rightarrow> nvme_path result" where
  "nvme_parse_path resolve text =
     (let slash = (\<lambda>c. c = CHR ''/'');
          (host, rest) = (case split_once slash text of Some (h, r) \<Rightarrow> (h, Some r) | None \<Rightarrow> (text, None));
          (nqn, last) = (case rest of None \<Rightarrow> (None, None)
            | Some r \<Rightarrow> (case split_once slash r of Some (n, l) \<Rightarrow> (Some n, Some l) | None \<Rightarrow> (Some r, None)))
      in case nqn of
           None \<Rightarrow> Inl (Err (''--nvmeof takes HOST[:PORT]/NQN[/NSID], not '' @ text))
         | Some n \<Rightarrow>
             if n = [] then Inl (Err (''--nvmeof takes HOST[:PORT]/NQN[/NSID], not '' @ text))
             else and_then (case last of None \<Rightarrow> Inr None
                    | Some t \<Rightarrow> (case parse_uint 32 t of Some k \<Rightarrow> Inr (Some (of_nat k))
                        | None \<Rightarrow> Inl (Err (''--nvmeof '' @ text @ '': the namespace ID is not a number'')))) (\<lambda>nsid.
                  and_then (host_address resolve host) (\<lambda>addr.
                    Inr \<lparr>pa_addr = addr, pa_subnqn = n, pa_nsid = nsid\<rparr>)))"

section \<open>Pages as the specification lays them out\<close>

text \<open>A group descriptor: identifier, number of namespaces, change count, state, reserved bytes, namespaces.\<close>

definition ana_layout :: "u64 \<Rightarrow> ana_group \<Rightarrow> u8 list" where
  "ana_layout chgcnt g = to_le_bytes (ag_id g) @ to_le_bytes (of_nat (length (ag_nsids g)) :: u32) @ to_le_bytes chgcnt
     @ [ag_state g] @ replicate 15 0 @ concat (map to_le_bytes (ag_nsids g))"

lemma length_nsids: "length (concat (map (to_le_bytes :: u32 \<Rightarrow> u8 list) ns)) = 4 * length ns"
  by (induction ns) auto

lemma chunks_nsids: "map from_le_bytes (chunks 4 (concat (map to_le_bytes ns))) = (ns :: u32 list)"
proof (induction ns)
  case (Cons n ns)
  have "to_le_bytes n @ concat (map to_le_bytes ns) \<noteq> []" using length_to_le_bytes [of n] by force
  then show ?case using Cons by (simp add: chunks_Cons byte_simps)
qed simp

lemma get_slice_append:
  "i = length pre \<Longrightarrow> n = length xs \<Longrightarrow> get_slice i n (pre @ xs @ rest) = Some xs"
  by (simp add: get_slice_def slice_def)

lemma ana_groups_layout:
  assumes "\<forall>g\<in>set gs. length (ag_nsids g) < 2 ^ 32 \<and> ag_state g AND 0x0f = ag_state g"
  shows "ana_groups (pre @ concat (map (ana_layout chgcnt) gs) @ rest) k (length gs) (length pre) = Inr gs"
  using assms
proof (induction gs arbitrary: pre k)
  case (Cons g gs)
  let ?head = "to_le_bytes (ag_id g) @ to_le_bytes (of_nat (length (ag_nsids g)) :: u32) @ to_le_bytes chgcnt
     @ [ag_state g] @ replicate 15 0"
  let ?list = "concat (map to_le_bytes (ag_nsids g))" and ?more = "concat (map (ana_layout chgcnt) gs) @ rest"
  have d: "pre @ concat (map (ana_layout chgcnt) (g # gs)) @ rest = pre @ ?head @ ?list @ ?more"
    by (simp add: ana_layout_def)
  have h: "get_slice (length pre) 32 (pre @ ?head @ ?list @ ?more) = Some ?head" by (rule get_slice_append) auto
  have l: "get_slice (length pre + 32) (4 * length (ag_nsids g)) (pre @ ?head @ ?list @ ?more) = Some ?list"
    using get_slice_append [of "length pre + 32" "pre @ ?head" "4 * length (ag_nsids g)" ?list ?more]
    by (simp add: length_nsids)
  have f: "field 0 4 ?head = ag_id g" "unat (field 4 4 ?head :: u32) = length (ag_nsids g)" "?head ! 16 = ag_state g"
    using Cons.prems by (simp_all add: field_def slice_def byte_simps unat_of_nat take_bit_nat_eq_self nth_append)
  have "ana_groups (pre @ ?head @ ?list @ ?more) (k + 1) (length gs) (length pre + (32 + 4 * length (ag_nsids g))) = Inr gs"
    using Cons.IH [of "pre @ ?head @ ?list" "k + 1"] Cons.prems by (simp add: length_nsids add.assoc)
  then show ?case
    using Cons.prems unfolding d by (simp add: h l f chunks_nsids Let_def del: append_assoc append.simps)
qed simp

text \<open>A descriptor: type, length, two reserved bytes, value.\<close>

definition descriptor_layout :: "descriptor \<Rightarrow> u8 list" where
  "descriptor_layout e = [fst e, of_nat (length (snd e)), 0, 0] @ snd e"

definition descriptor_ok :: "descriptor \<Rightarrow> bool" where
  "descriptor_ok e \<longleftrightarrow> 0 < length (snd e) \<and> length (snd e) < 256
     \<and> (case wanted_len (fst e) of Some w \<Rightarrow> length (snd e) = w | None \<Rightarrow> True)"

lemma list_ex_type: "list_ex (\<lambda>(k', _). k' = k) out \<longleftrightarrow> k \<in> fst ` set out"
  by (induction out) auto

lemma descriptors_layout:
  assumes "\<forall>e\<in>set ds. descriptor_ok e" and "distinct (map fst (out @ ds))"
  shows "descriptors_loop (pre @ concat (map descriptor_layout ds) @ replicate n 0) (length pre) out = Inr (out @ ds)"
  using assms
proof (induction ds arbitrary: pre out)
  case Nil
  have "\<not> (length pre + 4 \<le> length (pre @ replicate n 0) \<and> (pre @ replicate n 0 :: u8 list) ! (length pre + 1) \<noteq> 0)"
    by (auto simp: nth_append)
  then show ?case by (subst descriptors_loop.simps) (simp only: list.map concat.simps append_Nil append_Nil2 if_False)
next
  case (Cons e ds)
  obtain k v where e: "e = (k, v)" by fastforce
  let ?more = "concat (map descriptor_layout ds) @ replicate n 0"
  let ?d = "pre @ [k, of_nat (length v), 0, 0] @ v @ ?more"
  have d: "pre @ concat (map descriptor_layout (e # ds)) @ replicate n 0 = ?d" by (simp add: descriptor_layout_def e)
  have v: "0 < length v" "length v < 256" "case wanted_len k of Some w \<Rightarrow> length v = w | None \<Rightarrow> True"
    using Cons.prems(1) by (auto simp: descriptor_ok_def e split: option.splits)
  have u: "unat (of_nat (length v) :: u8) = length v" using v by (simp add: unat_of_nat take_bit_nat_eq_self)
  then have nz: "(of_nat (length v) :: u8) \<noteq> 0" using v(1) by (metis less_numeral_extra(3) unat_0)
  have n: "?d ! length pre = k" "?d ! (length pre + 1) = of_nat (length v)" by (simp_all add: nth_append)
  have new: "\<not> list_ex (\<lambda>(k', _). k' = k) out" using Cons.prems(2) unfolding list_ex_type by (simp add: e)
  have wl: "\<not> (case wanted_len k of Some w \<Rightarrow> w \<noteq> length v | None \<Rightarrow> False)" using v(3) by (simp split: option.splits)
  have sl: "get_slice (length pre + 4) (length v) ?d = Some v"
    using get_slice_append [of "length pre + 4" "pre @ [k, of_nat (length v), 0, 0]" "length v" v ?more] by simp
  have "descriptors_loop ((pre @ [k, of_nat (length v), 0, 0] @ v) @ ?more) (length (pre @ [k, of_nat (length v), 0, 0] @ v))
      (out @ [(k, v)]) = Inr ((out @ [(k, v)]) @ ds)" by (rule Cons.IH) (use Cons.prems in \<open>auto simp: e\<close>)
  moreover have "length (pre @ [k, of_nat (length v), 0, 0] @ v) = length pre + (4 + length v)" by simp
  ultimately have ih: "descriptors_loop ?d (length pre + (4 + length v)) (out @ [(k, v)]) = Inr ((out @ [(k, v)]) @ ds)"
    by (simp only: append_assoc)
  have "length pre + 4 \<le> length ?d" by simp
  then have "descriptors_loop ?d (length pre) out = Inr ((out @ [(k, v)]) @ ds)"
    unfolding descriptors_loop.simps [of ?d "length pre" out] n Let_def u sl option.case ih using new wl nz by simp
  then show ?case unfolding d by (simp add: e)
qed

text \<open>What every accepted list satisfies.\<close>

lemma descriptors_accepted:
  "descriptors_loop d i out = Inr ds \<Longrightarrow> distinct (map fst out) \<Longrightarrow> (\<forall>e\<in>set out. descriptor_ok e) \<Longrightarrow>
   distinct (map fst ds) \<and> (\<forall>e\<in>set ds. descriptor_ok e)"
proof (induction d i out rule: descriptors_loop.induct)
  case (1 d i out)
  show ?case
  proof (cases "i + 4 \<le> length d \<and> d ! (i + 1) \<noteq> 0")
    case False
    then show ?thesis using 1(2-4) by (subst (asm) descriptors_loop.simps) (simp only: if_False sum.inject)
  next
    case True
    let ?k = "d ! i" and ?n = "unat (d ! (i + 1))"
    let ?wrong = "case wanted_len ?k of Some w \<Rightarrow> w \<noteq> ?n | None \<Rightarrow> False"
    note u = 1(2) [unfolded descriptors_loop.simps [of d i out] if_P [OF True] Let_def]
    have w: "\<not> ?wrong"
    proof
      assume ?wrong
      from u [unfolded if_P [OF this]] show False by simp
    qed
    have x: "\<not> list_ex (\<lambda>(k, _). k = ?k) out"
    proof
      assume "list_ex (\<lambda>(k, _). k = ?k) out"
      from u [unfolded if_not_P [OF w] if_P [OF this]] show False by simp
    qed
    note r = u [unfolded if_not_P [OF w] if_not_P [OF x]]
    from r obtain v where sl: "get_slice (i + 4) ?n d = Some v" by (cases "get_slice (i + 4) ?n d") simp_all
    have rest: "descriptors_loop d (i + (4 + ?n)) (out @ [(?k, v)]) = Inr ds" using r [unfolded sl option.case] .
    note ok = w x sl
    have "length v = ?n" using ok(3) by (auto simp: get_slice_def split: if_splits)
    moreover have "?n < 256" using unsigned_less [of "d ! (i + 1)"] by simp
    moreover have "0 < ?n" using True by (simp add: unat_gt_0)
    ultimately have "descriptor_ok (?k, v)"
      using w unfolding descriptor_ok_def fst_conv snd_conv by (cases "wanted_len ?k") simp_all
    then have all: "\<forall>e\<in>set (out @ [(?k, v)]). descriptor_ok e" using 1(4) by simp
    have "?k \<notin> fst ` set out" using x unfolding list_ex_type .
    then have "distinct (map fst (out @ [(?k, v)]))" using 1(3) by simp
    from 1(1) [OF True refl refl ok rest this all] show ?thesis .
  qed
qed

text \<open>
  The identification descriptor list of a namespace is parsed exactly: a list laid out as the specification
  says, with distinct types of their defined lengths and zero bytes after it, parses to its descriptors in
  order; and whatever list is accepted has distinct types with values of their defined, positive lengths.\<close>

theorem descriptors_exact:
  shows "((\<forall>e\<in>set ds. descriptor_ok e) \<and> distinct (map fst ds) \<longrightarrow>
        parse_descriptors (concat (map descriptor_layout ds) @ replicate n 0) = Inr ds)
    \<and> (\<forall>es. parse_descriptors d = Inr es \<longrightarrow> distinct (map fst es) \<and> (\<forall>e\<in>set es. descriptor_ok e))"
  using descriptors_layout [of ds "[]" "[]" n] descriptors_accepted [of d 0 "[]"] by (auto simp: parse_descriptors_def)

theorem descriptors_exact_witness:
  "parse_descriptors (descriptor_layout (nidt_csi, [0]) @ descriptor_layout (nidt_eui64, [1, 2, 3, 4, 5, 6, 7, 8]) @ replicate 40 0)
    = Inr [(nidt_csi, [0]), (nidt_eui64, [1, 2, 3, 4, 5, 6, 7, 8])]"
  using descriptors_exact [of "[(nidt_csi, [0]), (nidt_eui64, [1, 2, 3, 4, 5, 6, 7, 8])]" 40]
  by (simp add: descriptor_ok_def wanted_len_def nidt)

text \<open>
  An ANA log page laid out as the specification says parses to the groups it lists, with their states and
  namespaces in order, whatever follows the last group.\<close>

theorem ana_page_round_trip:
  assumes "length gs < 2 ^ 16" and "\<forall>g\<in>set gs. length (ag_nsids g) < 2 ^ 32 \<and> ag_state g AND 0x0f = ag_state g"
    and "length reserved = 6"
  shows "ana_parse (to_le_bytes (chgcnt :: u64) @ to_le_bytes (of_nat (length gs) :: u16) @ reserved
      @ concat (map (ana_layout chgcnt) gs) @ rest) = Inr gs"
proof -
  let ?pre = "to_le_bytes chgcnt @ to_le_bytes (of_nat (length gs) :: u16) @ reserved"
  have "field 8 2 (?pre @ concat (map (ana_layout chgcnt) gs) @ rest) = (of_nat (length gs) :: u16)"
    by (simp add: field_def slice_def byte_simps)
  then show ?thesis
    using ana_groups_layout [OF assms(2), of ?pre chgcnt rest 0] assms(1,3)
    by (simp add: ana_parse_def unat_of_nat take_bit_nat_eq_self)
qed

theorem ana_page_round_trip_witness:
  "ana_parse (to_le_bytes (7 :: u64) @ to_le_bytes (1 :: u16) @ [0, 0, 0, 0, 0, 0]
      @ ana_layout 7 \<lparr>ag_id = 1, ag_state = 2, ag_nsids = [1, 5]\<rparr>) = Inr [\<lparr>ag_id = 1, ag_state = 2, ag_nsids = [1, 5]\<rparr>]"
  using ana_page_round_trip [of "[\<lparr>ag_id = 1, ag_state = 2, ag_nsids = [1, 5]\<rparr>]" "[0, 0, 0, 0, 0, 0]" 7 "[]"] by simp

text \<open>The same identifiers in any order give the same list, so two paths are compared by it.\<close>

lemma unique_ids_canonical: "mset ds = mset es \<Longrightarrow> unique_ids ds = unique_ids es"
  unfolding unique_ids_def by (simp flip: sorted_list_of_multiset_mset)

text \<open>Registering never takes access away, and whoever may write may read.\<close>

lemma allowed_order:
  "fst (allowed t False) \<longrightarrow> fst (allowed t True)" "snd (allowed t False) \<longrightarrow> snd (allowed t True)"
  "snd (allowed t r) \<longrightarrow> fst (allowed t r)"
  by (auto simp: allowed_def)

end
