(* ===== verification/F64_Floor.thy ===== *)
theory F64_Floor
  imports Units
begin

text \<open>
  When a quotient of \<open>f64\<close> values may be truncated: dividing a number of seconds by sixty and rounding does not move
  it across a whole minute, although the division is not exact in general. Whole numbers below \<open>2^53\<close> are exact.
\<close>

section \<open>Binades\<close>

lemma two_pow_mono: "a \<le> b \<Longrightarrow> two_pow a \<le> two_pow b"
  using two_pow_add [of a "b - a"] two_pow_ge_1 [of "b - a"] two_pow_pos [of a] by simp

lemma two_pow_less_iff: "two_pow a < two_pow b \<longleftrightarrow> a < b"
proof -
  have "a < b \<Longrightarrow> two_pow a < two_pow b"
    using two_pow_add [of a "b - a"] two_pow_gt_1 [of "b - a"] two_pow_pos [of a] by simp
  then show ?thesis using two_pow_mono [of b a] by (meson linorder_not_less)
qed

lemma two_pow_1 [simp]: "two_pow 1 = 2"
  by (simp add: two_pow_def)

lemma less_floor_log2:
  assumes "0 < x"
  shows "x < two_pow (floor_log2 x + 1)"
proof -
  obtain a b where ab: "quotient_of x = (a, b)" by fastforce
  then have b: "0 < b" by (rule quotient_of_denom_pos)
  have x: "x = of_int a / of_int b" using quotient_of_div [OF ab] .
  with assms b have a: "0 < a" by (simp add: zero_less_divide_iff)
  show ?thesis
  proof (cases "two_pow (bitlen a - bitlen b) \<le> x")
    case True
    have ba: "a < 2 ^ nat (bitlen a)" and bb: "2 ^ nat (bitlen b - 1) \<le> b"
      using a b bitlen_bounds [of a] bitlen_bounds [of b] by simp_all
    have pb: "0 < bitlen b" "0 \<le> bitlen a" using b bitlen_eq_zero_iff [of b] bitlen_nonneg [of b] bitlen_nonneg [of a] by simp_all
    have "of_int a < two_pow (bitlen a)" using ba pb by (simp add: two_pow_def)
    moreover have "two_pow (bitlen b - 1) \<le> of_int b" using bb pb by (simp add: two_pow_def)
    ultimately have "of_int a / of_int b < two_pow (bitlen a) / two_pow (bitlen b - 1)"
      using a b by (intro frac_less) simp_all
    also have "\<dots> = two_pow (bitlen a - bitlen b + 1)"
      using two_pow_add [of "bitlen a" "- (bitlen b - 1)"] two_pow_minus [of "bitlen b - 1"] by (simp add: algebra_simps)
    finally show ?thesis using True unfolding x [symmetric] by (simp add: floor_log2_def ab Let_def)
  qed (simp add: floor_log2_def ab Let_def)
qed

lemma floor_log2_ge: "two_pow e \<le> x \<Longrightarrow> e \<le> floor_log2 x"
  using less_floor_log2 [of x] two_pow_pos [of e] two_pow_less_iff [of e "floor_log2 x + 1"] by linarith

lemma floor_log2_less: "0 < x \<Longrightarrow> x < two_pow e \<Longrightarrow> floor_log2 x < e"
  using floor_log2_le [of x] two_pow_less_iff [of "floor_log2 x" e] by linarith

text \<open>The unit in the last place of a positive number below \<open>2^53\<close> divides every whole number.\<close>

definition ulp :: "rat \<Rightarrow> rat" where
  "ulp x = two_pow (max (floor_log2 x) (- 1022) - 52)"

lemma ulp_pos [simp]: "0 < ulp x"
  by (simp add: ulp_def)

lemma ulp_divides:
  assumes "0 < x" and "x < 2 ^ 53"
  obtains k :: int where "of_int k * ulp x = of_nat n" and "0 \<le> k"
proof -
  define e where "e = max (floor_log2 x) (- 1022) - 52"
  have "floor_log2 x < 53" using floor_log2_less [OF assms(1), of 53] assms(2) by (simp add: two_pow_def)
  then have e: "e \<le> 0" by (simp add: e_def)
  then have "two_pow (- e) * two_pow e = 1" using two_pow_add [of "- e" e] by simp
  moreover have "two_pow (- e) = of_int (2 ^ nat (- e))" using e by (simp add: two_pow_def)
  ultimately have "of_int (int n * 2 ^ nat (- e)) * ulp x = of_nat n" by (simp add: ulp_def e_def [symmetric])
  then show ?thesis by (rule that) simp
qed

lemma f64_of_rat_pos:
  assumes "0 < x" and "x < 2 ^ 53"
  shows "f64_of_rat x = Finite (of_int (round_half_even (x / ulp x)) * ulp x)"
proof -
  obtain k where k: "of_int k * ulp x = of_nat (2 ^ 53)" "0 \<le> k" using ulp_divides [OF assms] by blast
  then have "x / ulp x \<le> of_int k" using assms(2) by (simp add: pos_divide_le_eq)
  then have "round_half_even (x / ulp x) \<le> k" using round_half_even_mono round_half_even_of_int by metis
  then have "of_int (round_half_even (x / ulp x)) * ulp x \<le> 2 ^ 53"
    using k(1) by (metis mult_right_mono of_int_le_iff of_nat_numeral of_nat_power order_less_imp_le ulp_pos)
  also have "(2 :: rat) ^ 53 < two_pow 1024" using two_pow_less_iff [of 53 1024] by (simp add: two_pow_def)
  finally show ?thesis using assms(1) by (simp add: f64_of_rat_def Let_def ulp_def)
qed

lemma f64_of_nat_exact:
  assumes "n < 2 ^ 53"
  shows "f64_of_rat (of_nat n) = Finite (of_nat n)"
proof (cases "n = 0")
  case False
  have b: "0 < (of_nat n :: rat)" "(of_nat n :: rat) < 2 ^ 53"
    using False assms by (simp_all add: of_nat_less_numeral_power_cancel_iff)
  obtain k where k: "of_int k * ulp (of_nat n) = of_nat n" using ulp_divides [OF b] by blast
  then have "of_nat n / ulp (of_nat n) = of_int k" by (metis less_irrefl nonzero_eq_divide_eq ulp_pos)
  then show ?thesis using f64_of_rat_pos [OF b] k by simp
qed (simp add: f64_of_rat_def)

section \<open>Dividing by sixty\<close>

text \<open>\<open>x as u64\<close> of a value that is not negative.\<close>

definition f64_to_u64 :: "f64 \<Rightarrow> nat" where
  "f64_to_u64 v = (case v of NaN \<Rightarrow> 0 | NegInfinity \<Rightarrow> 0 | Infinity \<Rightarrow> 2 ^ 64 - 1 | Finite y \<Rightarrow> min (nat \<lfloor>y\<rfloor>) (2 ^ 64 - 1))"

definition is_f64 :: "rat \<Rightarrow> bool" where
  "is_f64 x \<longleftrightarrow> f64_of_rat x = Finite x"

lemma is_f64_ulp:
  assumes "is_f64 x" and "0 < x" and "x < 2 ^ 53"
  obtains k :: int where "x = of_int k * ulp x"
  using assms f64_of_rat_pos [OF assms(2,3)] by (simp add: is_f64_def) metis

text \<open>Below a whole number of minutes the quotient is more than half a unit below the whole number.\<close>

lemma sixty_gap:
  assumes x: "is_f64 x" "0 < x" "x < 2 ^ 53" and k: "x < 60 * of_nat k" "60 * k < 2 ^ 53"
  shows "ulp (x / 60) / 2 < of_nat k - x / 60"
proof (cases "- 1022 \<le> floor_log2 (x / 60)")
  case True
  define e where "e = floor_log2 (x / 60)"
  have y: "0 < x / 60" using x(2) by simp
  have "two_pow (e + 5) = 32 * two_pow e" using two_pow_add [of 5 e] by (simp add: two_pow_def add.commute)
  also have "\<dots> \<le> x" using floor_log2_le [OF y] two_pow_pos [of e] unfolding e_def by linarith
  finally have "e + 5 \<le> floor_log2 x" by (rule floor_log2_ge)
  then have "two_pow 5 * two_pow (e - 52) \<le> ulp x"
    using two_pow_add [of 5 "e - 52"] two_pow_mono [of "5 + (e - 52)" "floor_log2 x - 52"] True by (simp add: ulp_def e_def)
  then have u: "32 * ulp (x / 60) \<le> ulp x" using True by (simp add: ulp_def e_def two_pow_def)
  obtain a where a: "x = of_int a * ulp x" by (rule is_f64_ulp [OF x])
  obtain b where b: "of_int b * ulp x = of_nat (60 * k)" by (rule ulp_divides [OF x(2,3)])
  have "of_int a * ulp x < of_int b * ulp x" using k(1) a b by simp
  then have "a + 1 \<le> b" by simp
  then have "of_int (a + 1) * ulp x \<le> of_int b * ulp x" by (intro mult_right_mono) (simp_all add: less_imp_le)
  then have "x + ulp x \<le> 60 * of_nat k" using a b by (simp add: distrib_right)
  then have "60 * (of_nat k - x / 60) \<ge> 32 * ulp (x / 60)" using u by simp
  moreover have "0 < u \<Longrightarrow> 32 * u \<le> 60 * d \<Longrightarrow> u / 2 < d" for u d :: rat by simp
  ultimately show ?thesis using ulp_pos by blast
next
  case False
  then have y: "x / 60 < two_pow (- 1021)" using less_floor_log2 [of "x / 60"] x(2) two_pow_mono [of "floor_log2 (x / 60) + 1" "- 1021"] by simp
  have "two_pow (- 1021) \<le> two_pow (- 2)" "two_pow (- 1074) \<le> two_pow (- 2)" by (rule two_pow_mono, simp)+
  moreover have "two_pow (- 2) = 1 / 4" by (simp add: two_pow_def)
  moreover have "ulp (x / 60) = two_pow (- 1074)" using False by (simp add: ulp_def)
  moreover have "1 \<le> (of_nat k :: rat)" using k(1) x(2) by (cases k) auto
  ultimately show ?thesis using y by simp
qed

lemma whole_minutes:
  assumes x: "is_f64 x" "0 \<le> x" "x < 2 ^ 53" and k: "60 * k < 2 ^ 53"
  obtains y where "f64_of_rat (x / 60) = Finite y" and "of_nat k \<le> y \<longleftrightarrow> 60 * of_nat k \<le> x" and "0 \<le> y"
proof (cases "x = 0")
  case True
  then show ?thesis using that [of 0] by (simp add: f64_of_rat_def)
next
  case False
  then have p: "0 < x" "0 < x / 60" "x / 60 < 2 ^ 53" using x(2,3) by simp_all
  define u where "u = ulp (x / 60)"
  define r where "r = round_half_even (x / 60 / u)"
  have u: "0 < u" by (simp add: u_def)
  have f: "f64_of_rat (x / 60) = Finite (of_int r * u)" using f64_of_rat_pos [OF p(2,3)] by (simp add: u_def r_def)
  obtain b where b: "of_int b * u = of_nat k" using ulp_divides [OF p(2,3), of k] unfolding u_def by blast
  have "of_nat k \<le> of_int r * u \<longleftrightarrow> 60 * of_nat k \<le> x"
  proof
    assume "60 * of_nat k \<le> x"
    then have "of_int b \<le> x / 60 / u" using b u by (simp add: pos_le_divide_eq)
    then have "b \<le> r" unfolding r_def using round_half_even_mono round_half_even_of_int by metis
    then show "of_nat k \<le> of_int r * u" using b u by (metis mult_right_mono of_int_le_iff less_imp_le)
  next
    assume le: "of_nat k \<le> of_int r * u"
    show "60 * of_nat k \<le> x"
    proof (rule ccontr)
      assume "\<not> 60 * of_nat k \<le> x"
      then have "u / 2 < of_nat k - x / 60" using sixty_gap [OF x(1) p(1) x(3), of k] k by (simp add: u_def)
      then have "x / 60 / u < of_int b - 1 / 2" using b u by (simp add: field_simps)
      then have "r \<le> b - 1" unfolding r_def round_half_even_def Let_def by (auto simp: floor_less_iff; linarith)
      then have "of_int r * u \<le> of_int (b - 1) * u" using u by (intro mult_right_mono) simp_all
      then show False using le b u by (simp add: algebra_simps)
    qed
  qed
  moreover have "0 \<le> r" unfolding r_def using round_half_even_mono [of 0 "x / 60 / u"] p u by simp
  ultimately show ?thesis using that f u by simp
qed

text \<open>\<open>(seconds / 60.) as u64\<close> is the number of whole minutes.\<close>

lemma minute_floor:
  assumes "is_f64 x" and "0 \<le> x" and "x < 2 ^ 52"
  shows "f64_to_u64 (f64_of_rat (x / 60)) = nat \<lfloor>x / 60\<rfloor>"
proof -
  define k where "k = nat \<lfloor>x / 60\<rfloor>"
  have k: "60 * of_nat k \<le> x" "x < 60 * of_nat (k + 1)"
    using assms(2) floor_correct [of "x / 60"] by (auto simp: k_def)
  have "(60 * of_nat k :: rat) < 2 ^ 52" using k(1) assms(3) by linarith
  then have n: "60 * k < 2 ^ 52" by (metis of_nat_less_numeral_power_cancel_iff of_nat_mult of_nat_numeral)
  then have n': "60 * k < 2 ^ 53" "60 * (k + 1) < 2 ^ 53" by simp_all
  have x3: "x < 2 ^ 53" using assms(3) by simp
  obtain y where y: "f64_of_rat (x / 60) = Finite y" "of_nat k \<le> y" using whole_minutes [OF assms(1,2) x3 n'(1)] k(1) by metis
  moreover have "y < of_nat (k + 1)" using whole_minutes [OF assms(1,2) x3 n'(2)] k(2) y(1) by (metis f64.inject linorder_not_less)
  ultimately have "\<lfloor>y\<rfloor> = int k" by (simp add: floor_eq_iff)
  then show ?thesis using y(1) n by (simp add: f64_to_u64_def k_def [symmetric])
qed

text \<open>Rounding does not go below a whole number.\<close>

lemma f64_of_rat_ge:
  assumes "0 < x" and "x < 2 ^ 53" and "of_nat n \<le> x"
  obtains y where "f64_of_rat x = Finite y" and "of_nat n \<le> y"
proof -
  obtain b where b: "of_int b * ulp x = of_nat n" using ulp_divides [OF assms(1,2), of n] by blast
  then have "of_int b \<le> x / ulp x" using assms(3) by (simp add: pos_le_divide_eq)
  then have "b \<le> round_half_even (x / ulp x)" using round_half_even_mono round_half_even_of_int by metis
  then have "of_int b * ulp x \<le> of_int (round_half_even (x / ulp x)) * ulp x" by (intro mult_right_mono) (simp_all add: less_imp_le)
  then show ?thesis using that [OF f64_of_rat_pos [OF assms(1,2)]] b by simp
qed

end
