(* ===== verification/Utc.thy ===== *)
theory Utc
  imports Workload Pdu
begin

text \<open>
  The UTC stamps of recordings and logs (\<open>src/rust/src/cctv_files.rs\<close>): \<open>leap\<close>, \<open>utc\<close> and \<open>valid_stamp\<close>. A date is
  related to the seconds since 1970 by the closed form of the Gregorian calendar; the lemmas show that \<open>utc\<close>
  inverts it, that its stamps are valid, and that stamps are ordered as strings the way the times are ordered,
  which retention relies on.
\<close>

section \<open>The code\<close>

definition leap :: "nat \<Rightarrow> bool" where
  "leap y \<longleftrightarrow> y mod 4 = 0 \<and> (y mod 100 \<noteq> 0 \<or> y mod 400 = 0)"

definition year_days :: "nat \<Rightarrow> nat" where
  "year_days year = (if leap year then 366 else 365)"

function year_loop :: "nat \<Rightarrow> nat \<Rightarrow> nat \<times> nat" where
  "year_loop year days =
     (if year_days year \<le> days then year_loop (year + 1) (days - year_days year) else (year, days))"
  by pat_completeness auto
termination
  by (relation "measure snd") (auto simp: year_days_def)

definition month_lengths :: "nat \<Rightarrow> nat list" where
  "month_lengths year = [31, if leap year then 29 else 28, 31, 30, 31, 30, 31, 31, 30, 31, 30, 31]"

text \<open>\<open>while days >= lengths[month]\<close>; None is the index past the end.\<close>

fun month_loop :: "nat list \<Rightarrow> nat \<Rightarrow> nat \<Rightarrow> (nat \<times> nat) option" where
  "month_loop [] month days = None"
| "month_loop (l # ls) month days = (if l \<le> days then month_loop ls (month + 1) (days - l) else Some (month, days))"

text \<open>\<open>{n:0w}\<close>.\<close>

definition zero_pad :: "nat \<Rightarrow> nat \<Rightarrow> string" where
  "zero_pad w n = replicate (w - length (show_nat n)) (CHR ''0'') @ show_nat n"

definition utc :: "nat \<Rightarrow> bool \<Rightarrow> string result" where
  "utc seconds is_iso =
     (let (year, days) = year_loop 1970 (seconds div 86400) in
      case month_loop (month_lengths year) 0 days of
        None \<Rightarrow> Inl Panic
      | Some (month, days) \<Rightarrow>
          let hour = seconds mod 86400 div 3600; minute = seconds mod 3600 div 60; second = seconds mod 60
          in Inr (if is_iso then
               zero_pad 4 year @ ''-'' @ zero_pad 2 (month + 1) @ ''-'' @ zero_pad 2 (days + 1) @ ''T''
                 @ zero_pad 2 hour @ '':'' @ zero_pad 2 minute @ '':'' @ zero_pad 2 second @ ''Z''
             else
               zero_pad 4 year @ zero_pad 2 (month + 1) @ zero_pad 2 (days + 1) @ ''T''
                 @ zero_pad 2 hour @ zero_pad 2 minute @ zero_pad 2 second @ ''Z''))"

text \<open>\<open>s[a..b].parse::<u32>().unwrap()\<close>.\<close>

definition stamp_field :: "string \<Rightarrow> nat \<Rightarrow> nat \<Rightarrow> nat result" where
  "stamp_field s a b = (case parse_uint 32 (slice a (b - a) s) of None \<Rightarrow> Inl Panic | Some v \<Rightarrow> Inr v)"

definition valid_stamp :: "string \<Rightarrow> bool result" where
  "valid_stamp s =
     (if \<not> is_ascii s \<or> length s \<noteq> 16 \<or> slice 8 1 s \<noteq> ''T'' \<or> drop 15 s \<noteq> ''Z''
         \<or> \<not> list_all is_digit (slice 0 8 s @ slice 9 6 s)
      then Inr False
      else and_then (stamp_field s 0 4) (\<lambda>y. and_then (stamp_field s 4 6) (\<lambda>m. and_then (stamp_field s 6 8) (\<lambda>d.
           and_then (stamp_field s 9 11) (\<lambda>hour. and_then (stamp_field s 11 13) (\<lambda>minute. and_then (stamp_field s 13 15) (\<lambda>second.
             Inr (1970 \<le> y \<and> 1 \<le> m \<and> m \<le> 12 \<and> 1 \<le> d \<and> d \<le> month_lengths y ! (m - 1)
                  \<and> hour < 24 \<and> minute < 60 \<and> second < 60))))))))"

text \<open>The order of \<open>str\<close>: byte by byte.\<close>

fun str_less :: "string \<Rightarrow> string \<Rightarrow> bool" where
  "str_less [] t = (t \<noteq> [])"
| "str_less (c # s) [] = False"
| "str_less (c # s) (d # t) = ((of_char c :: nat) < of_char d \<or> c = d \<and> str_less s t)"

section \<open>The calendar\<close>

text \<open>Days from 1970-01-01 to the first of January of a year, by the Gregorian rule.\<close>

definition days_before :: "nat \<Rightarrow> nat" where
  "days_before y = 365 * (y - 1970) + ((y - 1) div 4 + (y - 1) div 400) - ((y - 1) div 100 + 477)"

definition days_of :: "nat \<Rightarrow> nat \<Rightarrow> nat \<Rightarrow> nat" where
  "days_of y month day = days_before y + sum_list (take month (month_lengths y)) + day"

text \<open>A date: year, month and day counted from zero, hour, minute, second.\<close>

type_synonym date = "nat \<times> nat \<times> nat \<times> nat \<times> nat \<times> nat"

fun valid_date :: "date \<Rightarrow> bool" where
  "valid_date (y, mo, d, h, mi, s) \<longleftrightarrow>
     1970 \<le> y \<and> mo < 12 \<and> d < month_lengths y ! mo \<and> h < 24 \<and> mi < 60 \<and> s < 60"

fun seconds_of :: "date \<Rightarrow> nat" where
  "seconds_of (y, mo, d, h, mi, s) = days_of y mo d * 86400 + h * 3600 + mi * 60 + s"

definition date_of :: "nat \<Rightarrow> date option" where
  "date_of t =
     (let (year, days) = year_loop 1970 (t div 86400) in
      map_option (\<lambda>(month, day). (year, month, day, t mod 86400 div 3600, t mod 3600 div 60, t mod 60))
        (month_loop (month_lengths year) 0 days))"

declare year_loop.simps [simp del]

lemma length_month_lengths [simp]: "length (month_lengths y) = 12"
  by (simp add: month_lengths_def)

lemma sum_month_lengths: "sum_list (month_lengths y) = year_days y"
  by (simp add: month_lengths_def year_days_def)

lemma days_before_1970 [simp]: "days_before 1970 = 0"
  by (simp add: days_before_def)

lemma leap_dvd: "leap y \<longleftrightarrow> 4 dvd y \<and> (\<not> 100 dvd y \<or> 400 dvd y)"
  by (simp add: leap_def dvd_eq_mod_eq_0)

lemma div_pred:
  assumes "0 < n" and "0 < k"
  shows "n div k = (n - 1) div k + (if k dvd n then 1 else 0 :: nat)"
  using assms by (cases n) (simp_all add: div_Suc dvd_eq_mod_eq_0)

lemma leap_count:
  assumes "0 < y"
  shows "y div 4 + y div 400 + (y - 1) div 100 = (y - 1) div 4 + (y - 1) div 400 + y div 100 + (if leap y then 1 else 0)"
proof -
  have "400 dvd y \<Longrightarrow> 100 dvd y" "100 dvd y \<Longrightarrow> 4 dvd y"
    using dvd_trans [of 100 400 y] dvd_trans [of 4 100 y] by simp_all
  then have l: "(if 4 dvd y then 1 else 0) + (if 400 dvd y then 1 else 0) = (if 100 dvd y then 1 else 0) + (if leap y then 1 else 0 :: nat)"
    unfolding leap_dvd by (cases "4 dvd y"; cases "100 dvd y"; cases "400 dvd y") simp_all
  have sum: "a' = a + p \<Longrightarrow> b' = b + q \<Longrightarrow> c' = c + r \<Longrightarrow> p + q = r + l \<Longrightarrow> a' + b' + c = a + b + c' + l"
    for a a' b b' c c' p q r l :: nat by simp
  show ?thesis by (rule sum [OF div_pred div_pred div_pred l]) (use assms in simp_all)
qed

lemma leap_years_1970:
  fixes y :: nat
  assumes "1970 \<le> y"
  shows "(y - 1) div 100 + 477 \<le> (y - 1) div 4 + (y - 1) div 400"
proof -
  have "(1970 + k - 1) div 100 + 477 \<le> (1970 + k - 1) div 4 + (1970 + k - 1) div 400" for k :: nat
  proof (induction k)
    case (Suc k)
    have step: "c + 477 \<le> a + b \<Longrightarrow> a' + b' + c = a + b + c' + l \<Longrightarrow> c' + 477 \<le> a' + b'" for a a' b b' c c' l :: nat by simp
    have "1970 + Suc k - 1 = 1970 + k" by simp
    then show ?case using step [OF Suc leap_count [of "1970 + k"]] by (simp only:)
  qed simp
  moreover obtain k where "y = 1970 + k" using le_Suc_ex [OF assms] by blast
  ultimately show ?thesis by (simp only:)
qed

lemma days_before_Suc:
  assumes "1970 \<le> y"
  shows "days_before (y + 1) = days_before y + year_days y"
proof -
  define a b c a' b' c' where "a = (y - 1) div 4" "b = (y - 1) div 400" "c = (y - 1) div 100"
    "a' = y div 4" "b' = y div 400" "c' = y div 100"
  note d = this
  have "c + 477 \<le> a + b" "c' + 477 \<le> a' + b'"
    using leap_years_1970 [of y] leap_years_1970 [of "y + 1"] assms by (simp_all add: d)
  moreover have "a' + b' + c = a + b + c' + (if leap y then 1 else 0)" using leap_count [of y] assms by (simp add: d)
  moreover have "days_before y = 365 * (y - 1970) + (a + b) - (c + 477)"
    "days_before (y + 1) = 365 * (y - 1970) + 365 + (a' + b') - (c' + 477)"
    using Suc_diff_le [OF assms] by (simp_all add: days_before_def d)
  ultimately show ?thesis by (simp add: year_days_def split: if_splits)
qed

lemma days_before_mono:
  assumes "1970 \<le> y" and "y \<le> y'"
  shows "days_before y \<le> days_before y'"
proof -
  have "days_before y \<le> days_before (y + k)" for k
  proof (induction k)
    case (Suc k)
    then show ?case using days_before_Suc [of "y + k"] assms(1) by simp
  qed simp
  then show ?thesis using assms(2) by (metis le_add_diff_inverse)
qed

lemma year_loop_days:
  "year_loop y n = (y', r) \<Longrightarrow> 1970 \<le> y \<Longrightarrow>
   1970 \<le> y' \<and> r < year_days y' \<and> days_before y + n = days_before y' + r"
proof (induction y n rule: year_loop.induct)
  case (1 y n)
  show ?case
  proof (cases "year_days y \<le> n")
    case True
    then have "year_loop (y + 1) (n - year_days y) = (y', r)" using 1 by (simp add: year_loop.simps [of y n])
    from 1(1) [OF True this] show ?thesis using 1(3) True days_before_Suc [of y] by simp
  next
    case False
    then show ?thesis using 1(2,3) by (auto simp: year_loop.simps [of y n])
  qed
qed

lemma month_loop_Some:
  "n < sum_list ls \<Longrightarrow> \<exists>j r. month_loop ls m n = Some (m + j, r) \<and> j < length ls \<and> r < ls ! j \<and> n = sum_list (take j ls) + r"
proof (induction ls arbitrary: m n)
  case (Cons l ls)
  show ?case
  proof (cases "l \<le> n")
    case True
    then obtain j r where "month_loop ls (m + 1) (n - l) = Some (m + 1 + j, r)" "j < length ls" "r < ls ! j" "n - l = sum_list (take j ls) + r"
      using Cons.IH [of "n - l" "m + 1"] Cons.prems by (metis (no_types, lifting) add.commute le_add_diff_inverse less_diff_conv2 sum_list.Cons)
    then show ?thesis using True by (intro exI [of _ "Suc j"] exI [of _ r]) auto
  next
    case False
    then show ?thesis by (intro exI [of _ 0] exI [of _ n]) simp
  qed
qed simp

lemma date_of_exact: "\<exists>d. date_of t = Some d \<and> valid_date d \<and> seconds_of d = t"
proof -
  obtain y r where yr: "year_loop 1970 (t div 86400) = (y, r)" by fastforce
  from year_loop_days [OF this] have y: "1970 \<le> y" "r < year_days y" "t div 86400 = days_before y + r" by simp_all
  from month_loop_Some [of r "month_lengths y" 0] y(2) obtain j d where
    m: "month_loop (month_lengths y) 0 r = Some (j, d)" "j < 12" "d < month_lengths y ! j" "r = sum_list (take j (month_lengths y)) + d"
    by (auto simp: sum_month_lengths)
  have "days_of y j d = t div 86400" using y(3) m(4) by (simp add: days_of_def)
  moreover have "t mod 86400 = t mod 86400 div 3600 * 3600 + t mod 3600 div 60 * 60 + t mod 60"
  proof -
    have "t mod 86400 = t mod 86400 div 3600 * 3600 + t mod 86400 mod 3600" by (metis div_mult_mod_eq)
    moreover have "t mod 86400 mod 3600 = t mod 3600" by (simp add: mod_mod_cancel)
    moreover have "t mod 3600 = t mod 3600 div 60 * 60 + t mod 60" using div_mult_mod_eq [of "t mod 3600" 60] by (simp add: mod_mod_cancel)
    ultimately show ?thesis by simp
  qed
  moreover have "t = t div 86400 * 86400 + t mod 86400" by simp
  moreover have "t mod 86400 div 3600 < 24" "t mod 3600 div 60 < 60" "t mod 60 < 60" by (simp_all add: div_less_iff_less_mult)
  ultimately have "days_of y j d * 86400 + t mod 86400 div 3600 * 3600 + t mod 3600 div 60 * 60 + t mod 60 = t"
    "t mod 86400 div 3600 < 24" "t mod 3600 div 60 < 60" "t mod 60 < 60" by linarith+
  then show ?thesis using yr m(1-3) y(1) by (simp add: date_of_def)
qed

section \<open>The order of dates\<close>

fun date_less :: "date \<Rightarrow> date \<Rightarrow> bool" where
  "date_less (y, mo, d, h, mi, s) (y', mo', d', h', mi', s') \<longleftrightarrow>
     y < y' \<or> y = y' \<and> (mo < mo' \<or> mo = mo' \<and> (d < d' \<or> d = d' \<and> (h < h' \<or> h = h' \<and> (mi < mi' \<or> mi = mi' \<and> s < s'))))"

lemma sum_list_take_mono: "i \<le> j \<Longrightarrow> sum_list (take i ls) \<le> sum_list (take j ls :: nat list)"
  by (metis le_add1 le_add_diff_inverse sum_list.append take_add)

lemma days_of_next_month:
  assumes "mo < 12" and "d < month_lengths y ! mo" and "mo < mo'"
  shows "days_of y mo d < days_of y mo' 0"
  using sum_list_take_mono [of "Suc mo" mo' "month_lengths y"] assms by (simp add: days_of_def take_Suc_conv_app_nth)

lemma days_of_next_year:
  assumes "1970 \<le> y" and "mo < 12" and "d < month_lengths y ! mo" and "y < y'"
  shows "days_of y mo d < days_before y'"
proof -
  have "days_of y mo d < days_of y 12 0" by (rule days_of_next_month [OF assms(2,3,2)])
  also have "\<dots> = days_before (y + 1)" using days_before_Suc [OF assms(1)] by (simp add: days_of_def sum_month_lengths)
  also have "\<dots> \<le> days_before y'" using days_before_mono [of "y + 1" y'] assms by simp
  finally show ?thesis .
qed

lemma days_of_less:
  assumes "1970 \<le> y" and "mo < 12" and "d < month_lengths y ! mo"
    and "y < y' \<or> y = y' \<and> (mo < mo' \<or> mo = mo' \<and> d < d')"
  shows "days_of y mo d < days_of y' mo' d'"
  using assms(4) days_of_next_year [OF assms(1-3), of y'] days_of_next_month [OF assms(2,3), of mo']
  by (auto simp: days_of_def)

lemma seconds_of_less:
  assumes "valid_date a" and "date_less a b"
  shows "seconds_of a < seconds_of b"
proof -
  obtain y mo d h mi s y' mo' d' h' mi' s' where ab: "a = (y, mo, d, h, mi, s)" "b = (y', mo', d', h', mi', s')"
    by (metis prod_cases6)
  note v = assms(1) [unfolded ab, simplified]
  have t: "h * 3600 + mi * 60 + s < 86400" using v by linarith
  consider "days_of y mo d < days_of y' mo' d'" | "(y, mo, d) = (y', mo', d')" "h < h' \<or> h = h' \<and> (mi < mi' \<or> mi = mi' \<and> s < s')"
    using assms(2) ab v days_of_less [of y mo d y' mo' d'] by (auto simp del: days_of_def)
  then show ?thesis
  proof cases
    case 1
    then have "(days_of y mo d + 1) * 86400 \<le> days_of y' mo' d' * 86400" by (simp only: mult_le_mono1 Suc_eq_plus1 [symmetric] Suc_leI)
    then show ?thesis using t ab by simp
  next
    case 2
    then have "h * 3600 + mi * 60 + s < h' * 3600 + mi' * 60 + s'" using v by linarith
    then show ?thesis using 2(1) ab by simp
  qed
qed

lemma date_less_linear: "date_less a b \<or> a = b \<or> date_less b a"
  by (cases a rule: prod_cases6; cases b rule: prod_cases6) auto

lemma seconds_of_order:
  assumes "valid_date a" and "valid_date b"
  shows "date_less a b \<longleftrightarrow> seconds_of a < seconds_of b"
  using seconds_of_less assms date_less_linear by (metis less_irrefl not_less_iff_gr_or_eq)

section \<open>The order of strings\<close>

lemma str_less_append:
  "length a = length a' \<Longrightarrow> str_less (a @ s) (a' @ s') \<longleftrightarrow> str_less a a' \<or> a = a' \<and> str_less s s'"
  by (induction a a' rule: list_induct2) auto

lemma str_less_irrefl [simp]: "\<not> str_less s s"
  by (induction s) auto

text \<open>A number in exactly \<open>w\<close> digits.\<close>

fun fixed_digits :: "nat \<Rightarrow> nat \<Rightarrow> string" where
  "fixed_digits 0 n = []"
| "fixed_digits (Suc w) n = fixed_digits w (n div 10) @ [digit_char (n mod 10)]"

lemma length_fixed_digits [simp]: "length (fixed_digits w n) = w"
  by (induction w arbitrary: n) auto

lemma digit_char_0: "digit_char 0 = CHR ''0''"
  by code_simp

lemma fixed_digits_0: "fixed_digits w 0 = replicate w (CHR ''0'')"
  by (induction w) (simp_all add: digit_char_0 replicate_append_same)

lemma zero_pad_fixed:
  "n < 10 ^ w \<Longrightarrow> 0 < w \<Longrightarrow> zero_pad w n = fixed_digits w n"
proof (induction w arbitrary: n)
  case (Suc w)
  show ?case
  proof (cases "n < 10")
    case True
    then show ?thesis by (simp add: zero_pad_def show_nat.simps [of n] fixed_digits_0)
  next
    case False
    then have "n div 10 < 10 ^ w" "0 < w" using Suc.prems by (auto simp: div_less_iff_less_mult mult.commute intro: gr0I)
    from Suc.IH [OF this] show ?thesis using False by (simp add: zero_pad_def show_nat.simps [of n])
  qed
qed simp

lemma digit_char_less: "d < 10 \<Longrightarrow> d' < 10 \<Longrightarrow> (of_char (digit_char d) :: nat) < of_char (digit_char d') \<longleftrightarrow> d < d'"
  by (simp add: digit_char_def)

lemma digit_char_eq: "d < 10 \<Longrightarrow> d' < 10 \<Longrightarrow> digit_char d = digit_char d' \<longleftrightarrow> d = d'"
  by (metis digit_char_simps(2))

lemma fixed_digits_order:
  "n < 10 ^ w \<Longrightarrow> n' < 10 ^ w \<Longrightarrow>
   (str_less (fixed_digits w n) (fixed_digits w n') \<longleftrightarrow> n < n') \<and> (fixed_digits w n = fixed_digits w n' \<longleftrightarrow> n = n')"
proof (induction w arbitrary: n n')
  case (Suc w)
  have d: "n div 10 < 10 ^ w" "n' div 10 < 10 ^ w" using Suc.prems by (simp_all add: div_less_iff_less_mult mult.commute)
  have m: "n mod 10 < 10" "n' mod 10 < 10" by simp_all
  have split: "r < 10 \<Longrightarrow> r' < 10 \<Longrightarrow> (q * 10 + r < q' * 10 + r' \<longleftrightarrow> q < q' \<or> q = q' \<and> r < r')
      \<and> (q * 10 + r = q' * 10 + r' \<longleftrightarrow> q = q' \<and> r = r')" for q r q' r' :: nat
    by (cases q q' rule: linorder_cases) auto
  have "n < n' \<longleftrightarrow> n div 10 < n' div 10 \<or> n div 10 = n' div 10 \<and> n mod 10 < n' mod 10"
    "n = n' \<longleftrightarrow> n div 10 = n' div 10 \<and> n mod 10 = n' mod 10"
    using split [OF m, of "n div 10" "n' div 10"] unfolding div_mult_mod_eq by blast+
  then show ?case
    using Suc.IH [OF d] digit_char_less [OF m] digit_char_eq [OF m] by (simp add: str_less_append)
qed simp

lemma zero_pad_order:
  assumes "n < 10 ^ w" and "n' < 10 ^ w" and "0 < w"
  shows "str_less (zero_pad w n @ s) (zero_pad w n' @ s') \<longleftrightarrow> n < n' \<or> n = n' \<and> str_less s s'"
  using fixed_digits_order [OF assms(1,2)] by (simp add: zero_pad_fixed assms str_less_append)

section \<open>Stamps\<close>

fun stamp_of :: "date \<Rightarrow> string" where
  "stamp_of (y, mo, d, h, mi, s) =
     zero_pad 4 y @ zero_pad 2 (mo + 1) @ zero_pad 2 (d + 1) @ ''T'' @ zero_pad 2 h @ zero_pad 2 mi @ zero_pad 2 s @ ''Z''"

lemma month_length_le: "mo < 12 \<Longrightarrow> month_lengths y ! mo \<le> 31"
proof -
  have "\<forall>l\<in>set (month_lengths y). l \<le> 31" by (simp add: month_lengths_def)
  then show "mo < 12 \<Longrightarrow> ?thesis" by simp
qed

lemma utc_date: "date_of t = Some d \<Longrightarrow> utc t False = Inr (stamp_of d)"
  by (auto simp: date_of_def utc_def Let_def split: prod.splits)

lemma stamp_of_order:
  assumes "valid_date a" and "valid_date b" and "fst a < 10000" and "fst b < 10000"
  shows "str_less (stamp_of a) (stamp_of b) \<longleftrightarrow> date_less a b"
proof -
  obtain y mo d h mi s y' mo' d' h' mi' s' where ab: "a = (y, mo, d, h, mi, s)" "b = (y', mo', d', h', mi', s')"
    by (metis prod_cases6)
  note v = assms [unfolded ab, simplified]
  have "d + 1 < 100" "d' + 1 < 100" using v month_length_le [of mo y] month_length_le [of mo' y'] by auto
  then show ?thesis using v by (auto simp: ab zero_pad_order)
qed

text \<open>The last second of the year 9999.\<close>

lemma days_before_10000: "days_before 10000 = 2932897"
  by (simp add: days_before_def)

lemma date_of_year: "date_of t = Some d \<Longrightarrow> t < 253402300800 \<Longrightarrow> fst d < 10000"
proof -
  assume d: "date_of t = Some d" and t: "t < 253402300800"
  from date_of_exact [of t] d have v: "valid_date d" "seconds_of d = t" by auto
  obtain y mo day h mi s where e: "d = (y, mo, day, h, mi, s)" by (metis prod_cases6)
  show ?thesis
  proof (rule ccontr)
    assume "\<not> fst d < 10000"
    then have "2932897 \<le> days_before y" using days_before_mono [of 10000 y] e by (simp add: days_before_10000)
    then show False using v t e by (simp add: days_of_def)
  qed
qed

lemma utc_total: obtains d where "utc t False = Inr (stamp_of d)" "valid_date d" "seconds_of d = t" "date_of t = Some d"
  using date_of_exact [of t] utc_date by blast

lemma utc_order:
  assumes "s < 253402300800" and "t < 253402300800" and "utc s False = Inr a" and "utc t False = Inr b"
  shows "str_less a b \<longleftrightarrow> s < t"
proof -
  obtain d where d: "utc s False = Inr (stamp_of d)" "valid_date d" "seconds_of d = s" "date_of s = Some d" by (rule utc_total)
  obtain e where e: "utc t False = Inr (stamp_of e)" "valid_date e" "seconds_of e = t" "date_of t = Some e" by (rule utc_total)
  show ?thesis
    using stamp_of_order [OF d(2) e(2) date_of_year [OF d(4) assms(1)] date_of_year [OF e(4) assms(2)]]
      seconds_of_order [OF d(2) e(2)] assms(3,4) d e by simp
qed

text \<open>Every stamp \<open>utc\<close> prints up to the year 9999 is valid.\<close>

lemma fixed_digits_digits: "list_all is_digit (fixed_digits w n)"
  by (induction w arbitrary: n) auto

lemma digits_value_fixed: "n < 10 ^ w \<Longrightarrow> digits_value 0 (fixed_digits w n) = Some n"
proof (induction w arbitrary: n)
  case (Suc w)
  then show ?case using Suc.IH [of "n div 10"] by (simp add: digits_value_append div_less_iff_less_mult mult.commute)
qed simp

lemma parse_fixed: "n < 10 ^ w \<Longrightarrow> 0 < w \<Longrightarrow> n < 2 ^ bits \<Longrightarrow> parse_uint bits (fixed_digits w n) = Some n"
  using parse_uint_digits [OF fixed_digits_digits, of w n bits] digits_value_fixed [of n w] by (cases w) auto

lemma digits_ascii: "list_all is_digit s \<Longrightarrow> is_ascii s"
  by (auto simp: is_ascii_def is_digit_def list_all_iff)

lemma valid_stamp_of:
  assumes "valid_date a" and "fst a < 10000"
  shows "valid_stamp (stamp_of a) = Inr True" and "length (stamp_of a) = 16"
proof -
  obtain y mo d h mi s where a: "a = (y, mo, d, h, mi, s)" by (metis prod_cases6)
  note v = assms [unfolded a, simplified]
  have d: "d + 1 < 10 ^ 2" using v month_length_le [of mo y] by auto
  let ?f = "fixed_digits"
  have st: "stamp_of a = ?f 4 y @ ?f 2 (mo + 1) @ ?f 2 (d + 1) @ ''T'' @ ?f 2 h @ ?f 2 mi @ ?f 2 s @ ''Z''"
    using v d by (simp add: a zero_pad_fixed)
  show "length (stamp_of a) = 16" by (simp add: st)
  have asc: "is_ascii (stamp_of a)"
    using digits_ascii [OF fixed_digits_digits] by (simp add: st is_ascii_def)
  have sl: "slice 0 4 (stamp_of a) = ?f 4 y" "slice 4 2 (stamp_of a) = ?f 2 (mo + 1)" "slice 6 2 (stamp_of a) = ?f 2 (d + 1)"
    "slice 9 2 (stamp_of a) = ?f 2 h" "slice 11 2 (stamp_of a) = ?f 2 mi" "slice 13 2 (stamp_of a) = ?f 2 s"
    "slice 8 1 (stamp_of a) = ''T''" "drop 15 (stamp_of a) = ''Z''"
    "slice 0 8 (stamp_of a) = ?f 4 y @ ?f 2 (mo + 1) @ ?f 2 (d + 1)" "slice 9 6 (stamp_of a) = ?f 2 h @ ?f 2 mi @ ?f 2 s"
    by (simp_all add: st slice_def)
  show "valid_stamp (stamp_of a) = Inr True"
    using asc v d \<open>length (stamp_of a) = 16\<close>
    by (simp add: valid_stamp_def sl sl(7) [unfolded One_nat_def] fixed_digits_digits stamp_field_def parse_fixed)
qed

end
