(* ===== verification/Recordings.thy ===== *)
theory Recordings
  imports Utc
begin

text \<open>
  The files of the camera workload (\<open>src/rust/src/cctv_files.rs\<close>): the owner marker, the name and the header of a
  recording, what \<open>finish\<close> does with a recording that is closed, and \<open>prune\<close>, which deletes the recordings that
  are older than the retention window. A directory entry carries what the system calls on it return, errors
  included; the lemmas show that \<open>prune\<close> deletes exactly the expired recordings of its own owner.
\<close>

type_synonym u128 = "128 word"

section \<open>Hexadecimal numbers\<close>

text \<open>\<open>{n:032x}\<close> of a 128-bit number and \<open>u128::from_str_radix(s, 16)\<close>.\<close>

fun fixed_hex :: "nat \<Rightarrow> nat \<Rightarrow> string" where
  "fixed_hex 0 n = []"
| "fixed_hex (Suc w) n = fixed_hex w (n div 16) @ [hex_digit (n mod 16)]"

fun hex_fold :: "nat \<Rightarrow> string \<Rightarrow> nat option" where
  "hex_fold acc [] = Some acc"
| "hex_fold acc (c # cs) = (case hex_value c of None \<Rightarrow> None | Some v \<Rightarrow> hex_fold (16 * acc + v) cs)"

definition parse_hex128 :: "string \<Rightarrow> u128 option" where
  "parse_hex128 s =
     (let t = (case s of c # cs \<Rightarrow> if c = CHR ''+'' then cs else s | [] \<Rightarrow> [])
      in if t = [] then None
         else case hex_fold 0 t of None \<Rightarrow> None | Some v \<Rightarrow> if v < 2 ^ 128 then Some (of_nat v) else None)"

section \<open>Names and headers\<close>

record namespace =
  ns_prefix :: string
  ns_owner :: u128
  ns_run :: u128

definition header :: "u128 \<Rightarrow> nat \<Rightarrow> u128 \<Rightarrow> nat \<Rightarrow> u8 list" where
  "header owner camera run seq =
     copy_at 48 (to_le_bytes (of_nat seq :: u64))
      (copy_at 32 (to_le_bytes run)
       (copy_at 24 (to_le_bytes (of_nat camera :: u64))
        (copy_at 8 (to_le_bytes owner)
         (copy_at 0 (bytes_of ''SPITCAM1'') (replicate 64 0)))))"

definition recording_name :: "namespace \<Rightarrow> nat \<Rightarrow> nat \<Rightarrow> nat \<Rightarrow> bool \<Rightarrow> string result" where
  "recording_name ns camera seq stamp pending =
     and_then (utc stamp False) (\<lambda>date. Inr (ns_prefix ns @ ''.cam'' @ zero_pad 6 camera @ ''.'' @ date
       @ ''.r'' @ fixed_hex 32 (unat (ns_run ns)) @ ''.s'' @ zero_pad 10 seq @ ''.spitcam'' @ (if pending then ''.pending'' else [])))"

text \<open>The owner marker of a prefix: what \<open>open\<close> writes into a new one and reads from an old one.\<close>

definition owner_line :: "u128 \<Rightarrow> string" where
  "owner_line run = ''SPIT-CCTV-OWNER-1 '' @ fixed_hex 32 (unat run) @ [CHR 0x0A]"

text \<open>\<open>trim_end\<close> on the bytes in reverse order: how many bytes of white space come first, by the table of Unicode.\<close>

definition space_len :: "u8 list \<Rightarrow> nat" where
  "space_len bs =
     (case bs of
        [] \<Rightarrow> 0
      | a # as \<Rightarrow>
          if a \<in> {0x09, 0x0A, 0x0B, 0x0C, 0x0D, 0x20} then 1
          else case as of
                 [] \<Rightarrow> 0
               | b # cs \<Rightarrow>
                   if b = 0xC2 \<and> a \<in> {0x85, 0xA0} then 2
                   else case cs of
                          [] \<Rightarrow> 0
                        | c # _ \<Rightarrow>
                            if c = 0xE1 \<and> b = 0x9A \<and> a = 0x80
                               \<or> c = 0xE2 \<and> b = 0x80 \<and> (0x80 \<le> a \<and> a \<le> 0x8A \<or> a \<in> {0xA8, 0xA9, 0xAF})
                               \<or> c = 0xE2 \<and> b = 0x81 \<and> a = 0x9F
                               \<or> c = 0xE3 \<and> b = 0x80 \<and> a = 0x80
                            then 3 else 0)"

function trim_spaces :: "u8 list \<Rightarrow> u8 list" where
  "trim_spaces bs = (if bs = [] \<or> space_len bs = 0 then bs else trim_spaces (drop (space_len bs) bs))"
  by pat_completeness auto
termination
  by (relation "measure length") auto

definition trim_end :: "u8 list \<Rightarrow> u8 list" where
  "trim_end bs = rev (trim_spaces (rev bs))"

definition read_owner :: "u8 list \<Rightarrow> u128 result" where
  "read_owner content =
     (let bytes = take 128 content in
      ok_or (if is_utf8 bytes then
               Option.bind (strip_prefix ''SPIT-CCTV-OWNER-1 '' (string_of (trim_end bytes)))
                 (\<lambda>s. if length s = 32 then parse_hex128 s else None)
             else None)
        ''invalid CCTV ownership marker; choose another prefix'')"

section \<open>Closing a recording\<close>

text \<open>The directory as the contents by name.\<close>

type_synonym directory = "string \<rightharpoonup> u8 list"

record prepared_file =
  pp_path :: string
  pp_camera :: nat
  pp_sequence :: nat
  pp_used :: bool

text \<open>\<open>finish\<close>: a recording with nothing in it is removed, another takes its final name, never that of another file.\<close>

definition finish_recording :: "namespace \<Rightarrow> nat \<Rightarrow> prepared_file \<Rightarrow> nat \<Rightarrow> directory \<Rightarrow> directory result" where
  "finish_recording ns now p written dir =
     (if written = 0 then
        (if dir (pp_path p) = None then Inl (Err ''remove_file'') else Inr (dir(pp_path p := None)))
      else and_then (recording_name ns (pp_camera p) (pp_sequence p) now False) (\<lambda>target.
        if dir target \<noteq> None then Inl (Err ''CCTV recording collision; refusing overwrite'')
        else case dir (pp_path p) of
               None \<Rightarrow> Inl (Err ''rename'')
             | Some content \<Rightarrow> Inr (dir(pp_path p := None, target := Some content))))"

section \<open>Retention\<close>

datatype opened = Opened "u8 list" | NotFound | OpenFailed string

record dir_entry =
  de_name :: "string option"
  de_is_file :: "bool result"
  de_modified :: "nat option result"
  de_open :: opened
  de_remove :: "unit result"

text \<open>The fields of a name that may be deleted: camera, run, sequence and whether it is pending.\<close>

definition expired_name :: "string \<Rightarrow> string \<Rightarrow> string \<Rightarrow> (nat \<times> u128 \<times> nat \<times> bool) option result" where
  "expired_name prefix cutoff name =
     (case strip_prefix (prefix @ ''.cam'') name of
        None \<Rightarrow> Inr None
      | Some rest \<Rightarrow>
          (case split_on (\<lambda>c. c = CHR ''.'') rest of
             camera # stamp # run # seq # extension # tail_fields \<Rightarrow>
               and_then (if length camera \<noteq> 6 \<or> \<not> list_all is_digit camera then Inr False else valid_stamp stamp) (\<lambda>valid.
               if \<not> valid \<or> \<not> str_less stamp cutoff \<or> length run \<noteq> 33 \<or> take 1 run \<noteq> ''r'' \<or> length seq \<noteq> 11 \<or> take 1 seq \<noteq> ''s''
                  \<or> \<not> list_all is_digit (drop 1 seq) \<or> extension \<noteq> ''spitcam''
               then Inr None
               else Inr (Option.bind (case tail_fields of [] \<Rightarrow> Some False | p # ps \<Rightarrow> if p = ''pending'' \<and> ps = [] then Some True else None) (\<lambda>pending.
                      case (parse_uint 64 camera, parse_hex128 (drop 1 run), parse_uint 64 (drop 1 seq)) of
                        (Some camera, Some run, Some seq) \<Rightarrow> Some (camera, run, seq, pending)
                      | _ \<Rightarrow> None)))
           | _ \<Rightarrow> Inr None))"

text \<open>One entry of the directory: whether it was removed.\<close>

definition prune_entry :: "namespace \<Rightarrow> nat \<Rightarrow> string \<Rightarrow> dir_entry \<Rightarrow> bool result" where
  "prune_entry ns cutoff_seconds cutoff e =
     (case de_name e of
        None \<Rightarrow> Inr False
      | Some name \<Rightarrow>
          and_then (expired_name (ns_prefix ns) cutoff name) (\<lambda>fields.
            case fields of
              None \<Rightarrow> Inr False
            | Some (camera, run, seq, pending) \<Rightarrow>
                if camera = 0 \<or> 1024 < camera \<or> (pending \<and> run = ns_run ns) then Inr False
                else and_then (de_is_file e) (\<lambda>file.
                  if \<not> file then Inr False
                  else and_then (if pending then de_modified e else Inr (Some 0)) (\<lambda>modified.
                    if pending \<and> (case modified of None \<Rightarrow> True | Some age \<Rightarrow> cutoff_seconds \<le> age) then Inr False
                    else (case de_open e of
                            NotFound \<Rightarrow> Inr False
                          | OpenFailed m \<Rightarrow> Inl (Err m)
                          | Opened content \<Rightarrow>
                              if length content < 64 \<or> take 64 content \<noteq> header (ns_owner ns) camera run seq then Inr False
                              else and_then (de_remove e) (\<lambda>_. Inr True))))))"

text \<open>The loop over the directory: the count or the error, and the entries removed.\<close>

fun prune_loop :: "namespace \<Rightarrow> nat \<Rightarrow> string \<Rightarrow> dir_entry result list \<Rightarrow> nat \<Rightarrow> dir_entry list \<Rightarrow> nat result \<times> dir_entry list" where
  "prune_loop ns cutoff_seconds cutoff [] deleted gone = (Inr deleted, gone)"
| "prune_loop ns cutoff_seconds cutoff (x # xs) deleted gone =
     (case and_then x (prune_entry ns cutoff_seconds cutoff) of
        Inl e \<Rightarrow> (Inl e, gone)
      | Inr False \<Rightarrow> prune_loop ns cutoff_seconds cutoff xs deleted gone
      | Inr True \<Rightarrow> prune_loop ns cutoff_seconds cutoff xs (deleted + 1) (gone @ [projr x]))"

definition prune :: "namespace \<Rightarrow> nat \<Rightarrow> dir_entry result list result \<Rightarrow> nat result \<times> dir_entry list" where
  "prune ns cutoff_seconds entries =
     (case utc cutoff_seconds False of
        Inl e \<Rightarrow> (Inl e, [])
      | Inr cutoff \<Rightarrow> (case entries of Inl e \<Rightarrow> (Inl e, []) | Inr xs \<Rightarrow> prune_loop ns cutoff_seconds cutoff xs 0 []))"

text \<open>Closing a recording changes no other file and keeps its bytes.\<close>

lemma finish_recording_keeps:
  assumes "finish_recording ns now p written dir = Inr dir'" and "0 < written"
  obtains target content where "recording_name ns (pp_camera p) (pp_sequence p) now False = Inr target" "dir target = None"
    "dir (pp_path p) = Some content" "dir' target = Some content" "\<And>n. n \<noteq> pp_path p \<Longrightarrow> n \<noteq> target \<Longrightarrow> dir' n = dir n"
  using assms by (auto simp: finish_recording_def and_then_eq_Inr split: if_splits option.splits)

section \<open>Round trips\<close>

declare trim_spaces.simps [simp del]

lemma length_fixed_hex [simp]: "length (fixed_hex w n) = w"
  by (induction w arbitrary: n) auto

lemma hex_fold_append: "hex_fold acc (s @ t) = Option.bind (hex_fold acc s) (\<lambda>v. hex_fold v t)"
  by (induction s arbitrary: acc) (auto split: option.splits)

lemma hex_fold_fixed: "n < 16 ^ w \<Longrightarrow> hex_fold 0 (fixed_hex w n) = Some n"
proof (induction w arbitrary: n)
  case (Suc w)
  then show ?case using Suc.IH [of "n div 16"] by (simp add: hex_fold_append div_less_iff_less_mult mult.commute)
qed simp

definition is_hex :: "char \<Rightarrow> bool" where
  "is_hex c \<longleftrightarrow> hex_value c \<noteq> None \<and> c \<noteq> CHR ''.'' \<and> c \<noteq> CHR ''+'' \<and> (of_char c :: nat) < 128 \<and> 32 < (of_char c :: nat)"

lemma is_hex_digit: "d < 16 \<Longrightarrow> is_hex (hex_digit d)"
proof -
  have "list_all (\<lambda>d. is_hex (hex_digit d)) [0..<16]" by code_simp
  then show "d < 16 \<Longrightarrow> ?thesis" by (auto simp: list_all_iff)
qed

lemma fixed_hex_chars: "list_all is_hex (fixed_hex w n)"
  by (induction w arbitrary: n) (auto simp: is_hex_digit)

lemma parse_hex128_fixed: "parse_hex128 (fixed_hex 32 (unat r)) = Some r"
proof -
  let ?s = "fixed_hex 32 (unat r)"
  have "length ?s = 32" by simp
  then obtain c cs where s: "?s = c # cs" by (cases ?s) auto
  then have "c \<noteq> CHR ''+''" using fixed_hex_chars [of 32 "unat r"] by (simp add: is_hex_def)
  moreover have "unat r < 16 ^ 32" using unsigned_less [of r, where 'a = nat] by simp
  then have "hex_fold 0 ?s = Some (unat r)" by (rule hex_fold_fixed)
  ultimately show ?thesis using unsigned_less [of r, where 'a = nat] by (simp add: parse_hex128_def s Let_def)
qed

lemma is_utf8_ascii: "list_all (\<lambda>b. b < 0x80) bs \<Longrightarrow> is_utf8 bs"
  by (induction bs) auto

lemma hex_ascii: "is_hex c \<Longrightarrow> (of_char c :: u8) < 0x80"
  by (simp add: is_hex_def word_less_nat_alt)

lemma trim_end_newline:
  assumes "s \<noteq> []" and "is_hex (last s)"
  shows "trim_end (bytes_of (s @ [CHR 0x0A])) = bytes_of s"
proof -
  obtain t c where s: "s = t @ [c]" using assms(1) by (metis append_butlast_last_id)
  then have c: "32 < (of_char c :: nat)" "(of_char c :: nat) < 128" using assms(2) by (simp_all add: is_hex_def)
  then have u: "\<not> (of_char c :: u8) \<in> {9, 10, 11, 12, 13, 32}" "(of_char c :: u8) < 0x80"
    by (auto simp: word_less_nat_alt word_unat_eq_iff)
  then have "(of_char c :: u8) \<notin> {0x85, 0xA0, 0x9F, 0xA8, 0xA9, 0xAF, 0x80} \<and> \<not> 0x80 \<le> (of_char c :: u8)" by auto
  then have "space_len (of_char c # map of_char (rev t)) = 0"
    using u by (auto simp: space_len_def split: list.splits)
  moreover have "space_len (0x0A # of_char c # map of_char (rev t)) = 1" by (simp add: space_len_def)
  ultimately show ?thesis
    by (simp add: trim_end_def bytes_of_def s rev_map trim_spaces.simps [of "0x0A # _"] trim_spaces.simps [of "of_char c # _"])
qed

theorem owner_round_trip: "read_owner (bytes_of (owner_line run)) = Inr run"
proof -
  let ?s = "''SPIT-CCTV-OWNER-1 '' @ fixed_hex 32 (unat run)"
  have l: "owner_line run = ?s @ [CHR 0x0A]" by (simp add: owner_line_def)
  have ne: "fixed_hex 32 (unat run) \<noteq> []" by (metis length_fixed_hex length_0_conv zero_neq_numeral)
  have "last ?s = last (fixed_hex 32 (unat run))" using ne by simp
  then have "is_hex (last ?s)" using fixed_hex_chars [of 32 "unat run"] ne by (metis last_in_set list_all_iff)
  then have t: "trim_end (bytes_of (owner_line run)) = bytes_of ?s" unfolding l by (intro trim_end_newline) simp_all
  have "list_all (\<lambda>b. b < 0x80) (bytes_of (fixed_hex 32 (unat run)))"
    using fixed_hex_chars [of 32 "unat run"] hex_ascii by (auto simp: bytes_of_def list_all_iff)
  then have "list_all (\<lambda>b. b < 0x80) (bytes_of (owner_line run))"
    by (simp add: owner_line_def bytes_of_def)
  moreover have "take 128 (bytes_of (owner_line run)) = bytes_of (owner_line run)"
    by (simp add: owner_line_def bytes_of_def)
  ultimately show ?thesis
    using t by (simp add: read_owner_def Let_def is_utf8_ascii parse_hex128_fixed)
qed

section \<open>Which names expire\<close>

lemma no_dot_digits: "list_all is_digit s \<Longrightarrow> list_all (\<lambda>c. \<not> c = CHR ''.'') s"
  by (auto simp: list_all_iff is_digit_def)

lemma no_dot_hex: "list_all is_hex s \<Longrightarrow> list_all (\<lambda>c. \<not> c = CHR ''.'') s"
  by (auto simp: list_all_iff is_hex_def)

lemma no_dot_stamp:
  assumes "valid_date a" and "fst a < 10000"
  shows "list_all (\<lambda>c. \<not> c = CHR ''.'') (stamp_of a)"
proof -
  obtain y mo d h mi s where a: "a = (y, mo, d, h, mi, s)" by (metis prod_cases6)
  note v = assms [unfolded a, simplified]
  have d: "d + 1 < 10 ^ 2" using v month_length_le [of mo y] by auto
  have st: "stamp_of a = fixed_digits 4 y @ fixed_digits 2 (mo + 1) @ fixed_digits 2 (d + 1) @ ''T'' @ fixed_digits 2 h @ fixed_digits 2 mi
      @ fixed_digits 2 s @ ''Z''"
    using v d by (simp add: a zero_pad_fixed)
  show ?thesis by (simp add: st no_dot_digits [OF fixed_digits_digits])
qed

text \<open>The pieces of a recording's name, between the dots.\<close>

lemma name_fields:
  assumes "valid_date a" and "fst a < 10000"
  shows "split_on (\<lambda>c. c = CHR ''.'') (fixed_digits 6 camera @ ''.'' @ stamp_of a @ ''.r'' @ fixed_hex 32 n @ ''.s'' @ fixed_digits 10 sq
      @ ''.spitcam'' @ (if pending then ''.pending'' else []))
    = [fixed_digits 6 camera, stamp_of a, CHR ''r'' # fixed_hex 32 n, CHR ''s'' # fixed_digits 10 sq, ''spitcam'']
      @ (if pending then [''pending''] else [])"
proof -
  have dot: "split_on (\<lambda>c. c = CHR ''.'') (x @ CHR ''.'' # rest) = x # split_on (\<lambda>c. c = CHR ''.'') rest"
    if "list_all (\<lambda>c. \<not> c = CHR ''.'') x" for x rest
    using split_on_append [of "\<lambda>c. c = CHR ''.''" x "CHR ''.''" rest] that by simp
  have "list_all (\<lambda>c. \<not> c = CHR ''.'') (CHR ''r'' # fixed_hex 32 n)" "list_all (\<lambda>c. \<not> c = CHR ''.'') (CHR ''s'' # fixed_digits 10 sq)"
    "list_all (\<lambda>c. \<not> c = CHR ''.'') (fixed_digits 6 camera)"
    using no_dot_hex [OF fixed_hex_chars, of 32 n] no_dot_digits [OF fixed_digits_digits] by simp_all
  note d = this [THEN dot] no_dot_stamp [OF assms, THEN dot]
  show ?thesis using d(1,2) by (cases pending) (simp_all add: d(3,4) del: fixed_digits.simps fixed_hex.simps)
qed

lemma expired_recording:
  assumes "recording_name ns camera sq t pending = Inr name" and "camera < 10 ^ 6" and "sq < 10 ^ 10"
    and "t < 253402300800" and "cutoff < 253402300800" and "utc cutoff False = Inr c"
  shows "expired_name (ns_prefix ns) c name = Inr (if t < cutoff then Some (camera, ns_run ns, sq, pending) else None)"
proof -
  obtain a where a: "utc t False = Inr (stamp_of a)" "valid_date a" "seconds_of a = t" "date_of t = Some a" by (rule utc_total)
  have y: "fst a < 10000" by (rule date_of_year [OF a(4) assms(4)])
  have pads: "zero_pad 6 camera = fixed_digits 6 camera" "zero_pad 10 sq = fixed_digits 10 sq"
    using assms(2,3) by (simp_all add: zero_pad_fixed)
  let ?rest = "fixed_digits 6 camera @ ''.'' @ stamp_of a @ ''.r'' @ fixed_hex 32 (unat (ns_run ns)) @ ''.s'' @ fixed_digits 10 sq
      @ ''.spitcam'' @ (if pending then ''.pending'' else [])"
  have name: "name = (ns_prefix ns @ ''.cam'') @ ?rest"
    using assms(1) a(1) by (simp add: recording_name_def pads)
  have parsed: "parse_uint 64 (fixed_digits 6 camera) = Some camera" "parse_uint 64 (fixed_digits 10 sq) = Some sq"
    using parse_fixed [of camera 6 64] parse_fixed [of sq 10 64] assms(2,3) by simp_all
  have order: "str_less (stamp_of a) c \<longleftrightarrow> t < cutoff" using utc_order [OF assms(4,5) a(1) assms(6)] .
  show ?thesis
    unfolding expired_name_def name strip_prefix_append option.case name_fields [OF a(2) y]
    by (simp add: fixed_digits_digits valid_stamp_of [OF a(2) y] order parsed parse_hex128_fixed del: fixed_digits.simps fixed_hex.simps)
qed

section \<open>What is deleted\<close>

lemma prune_loop_gone:
  "prune_loop ns cs c xs d g = (r, gone) \<Longrightarrow>
   set gone \<subseteq> set g \<union> {e. Inr e \<in> set xs \<and> prune_entry ns cs c e = Inr True}
   \<and> (\<forall>n. r = Inr n \<longrightarrow> set gone = set g \<union> {e. Inr e \<in> set xs \<and> prune_entry ns cs c e = Inr True} \<and> n + length g = d + length gone
        \<and> (\<forall>e. Inr e \<in> set xs \<longrightarrow> is_ok (prune_entry ns cs c e)))"
proof (induction xs arbitrary: d g)
  case (Cons x xs)
  show ?case
  proof (cases "and_then x (prune_entry ns cs c)")
    case (Inl e)
    then show ?thesis using Cons.prems by auto
  next
    case (Inr b)
    then obtain e where e: "x = Inr e" "prune_entry ns cs c e = Inr b" by (auto simp: and_then_eq_Inr)
    show ?thesis
      using Cons.IH [of d g] Cons.IH [of "d + 1" "g @ [e]"] Cons.prems e by (cases b) (auto; blast)+
  qed
qed auto

lemma prune_entry_True:
  assumes "prune_entry ns cs c e = Inr True"
  obtains name camera run sq pending content where "de_name e = Some name"
    "expired_name (ns_prefix ns) c name = Inr (Some (camera, run, sq, pending))" "0 < camera" "camera \<le> 1024"
    "de_is_file e = Inr True" "de_open e = Opened content" "take 64 content = header (ns_owner ns) camera run sq"
    "pending \<longrightarrow> run \<noteq> ns_run ns \<and> (\<exists>age. de_modified e = Inr (Some age) \<and> age < cs)"
proof -
  obtain name where n: "de_name e = Some name" using assms by (cases "de_name e") (simp_all add: prune_entry_def)
  obtain camera run sq pending where f: "expired_name (ns_prefix ns) c name = Inr (Some (camera, run, sq, pending))"
    using assms n by (auto simp: prune_entry_def and_then_eq_Inr split: option.splits)
  note p = assms [unfolded prune_entry_def n option.case f and_then_Inr prod.case if_err_eq_Inr]
  have 1: "\<not> (camera = 0 \<or> 1024 < camera \<or> pending \<and> run = ns_run ns)" using p by (auto split: if_splits)
  then obtain modified where 2: "de_is_file e = Inr True" "(if pending then de_modified e else Inr (Some 0)) = Inr modified"
    using p by (auto simp: and_then_eq_Inr split: if_splits)
  then have 3: "\<not> (pending \<and> (case modified of None \<Rightarrow> True | Some age \<Rightarrow> cs \<le> age))" using p 1 by (auto split: if_splits)
  then obtain content where "de_open e = Opened content" "take 64 content = header (ns_owner ns) camera run sq"
    using p 1 2 by (auto split: opened.splits if_splits)
  with that [OF n f] 1 2 3 show ?thesis by (cases modified) (auto split: if_splits)
qed

lemma split_on_first:
  "split_on p s = x # xs \<Longrightarrow> xs \<noteq> [] \<Longrightarrow> \<exists>c s'. s = x @ c # s' \<and> p c \<and> split_on p s' = xs"
proof (induction s arbitrary: x)
  case (Cons a s)
  show ?case
  proof (cases "p a")
    case False
    obtain y ys where y: "split_on p s = y # ys" by (metis list.exhaust split_on_not_Nil)
    then show ?thesis using Cons False by (auto intro!: Cons_eq_appendI)
  qed (use Cons.prems in auto)
qed simp

lemma split_on_single: "split_on p s = [x] \<Longrightarrow> s = x"
  by (induction s arbitrary: x) (auto split: if_splits list.splits)

lemma expired_name_Some:
  assumes "expired_name prefix c name = Inr (Some (camera, run, sq, pending))"
  obtains cam stamp hex digits where
    "name = prefix @ ''.cam'' @ cam @ ''.'' @ stamp @ ''.r'' @ hex @ ''.s'' @ digits @ ''.spitcam'' @ (if pending then ''.pending'' else [])"
    "valid_stamp stamp = Inr True" "str_less stamp c" "parse_uint 64 cam = Some camera" "length cam = 6" "list_all is_digit cam"
    "length hex = 32" "parse_hex128 hex = Some run" "length digits = 10" "list_all is_digit digits" "parse_uint 64 digits = Some sq"
proof -
  let ?dot = "\<lambda>ch. ch = CHR ''.''"
  obtain rest where rest: "name = prefix @ ''.cam'' @ rest" "strip_prefix (prefix @ ''.cam'') name = Some rest"
    using assms by (auto simp: expired_name_def strip_prefix_Some split: option.splits)
  obtain cam stamp r s x more where sp: "split_on ?dot rest = cam # stamp # r # s # x # more"
    using assms rest(2) by (auto simp: expired_name_def split: list.splits)
  note e = assms [unfolded expired_name_def rest(2) option.case sp list.case]
  have f: "valid_stamp stamp = Inr True" "str_less stamp c" "x = ''spitcam''" "parse_uint 64 cam = Some camera"
    "more = (if pending then [''pending''] else [])" "length cam = 6" "list_all is_digit cam"
    and g: "length r = 33" "take 1 r = ''r''" "parse_hex128 (drop 1 r) = Some run"
      "length s = 11" "take 1 s = ''s''" "list_all is_digit (drop 1 s)" "parse_uint 64 (drop 1 s) = Some sq"
    using e by (auto simp: and_then_eq_Inr bind_eq_Some_conv split: if_splits list.splits option.splits)
  have r: "r = ''r'' @ drop 1 r" and s: "s = ''s'' @ drop 1 s" using g(2,5) append_take_drop_id by metis+
  obtain s1 where 1: "rest = cam @ CHR ''.'' # s1" "split_on ?dot s1 = stamp # r # s # x # more" using split_on_first [OF sp] by auto
  obtain s2 where 2: "s1 = stamp @ CHR ''.'' # s2" "split_on ?dot s2 = r # s # x # more" using split_on_first [OF 1(2)] by auto
  obtain s3 where 3: "s2 = r @ CHR ''.'' # s3" "split_on ?dot s3 = s # x # more" using split_on_first [OF 2(2)] by auto
  obtain s4 where 4: "s3 = s @ CHR ''.'' # s4" "split_on ?dot s4 = x # more" using split_on_first [OF 3(2)] by auto
  have "s4 = ''spitcam'' @ (if pending then ''.pending'' else [])"
  proof (cases pending)
    case True
    then obtain s5 where "s4 = x @ CHR ''.'' # s5" "split_on ?dot s5 = [''pending'']" using split_on_first [OF 4(2)] f(5) by auto
    then show ?thesis using True f(3) split_on_single by fastforce
  next
    case False
    then show ?thesis using 4(2) f(3,5) split_on_single by fastforce
  qed
  then have "name = prefix @ ''.cam'' @ cam @ ''.'' @ stamp @ ''.'' @ r @ ''.'' @ s @ ''.spitcam'' @ (if pending then ''.pending'' else [])"
    using rest(1) 1(1) 2(1) 3(1) 4(1) by simp
  then have "name = prefix @ ''.cam'' @ cam @ ''.'' @ stamp @ ''.r'' @ drop 1 r @ ''.s'' @ drop 1 s @ ''.spitcam''
      @ (if pending then ''.pending'' else [])"
    by (subst (asm) r, subst (asm) s) simp
  then show ?thesis by (rule that) (use f g in simp_all)
qed

lemma prune_entry_recording:
  assumes "de_name e = Some name" and "recording_name (ns\<lparr>ns_run := run\<rparr>) camera sq t False = Inr name"
    and "0 < camera" and "camera \<le> 1024" and "sq < 10 ^ 10" and "t < 253402300800" and "cutoff < 253402300800"
    and "de_is_file e = Inr True" and "de_open e = Opened content" and "take 64 content = header (ns_owner ns) camera run sq"
    and "64 \<le> length content" and c: "utc cutoff False = Inr c"
  shows "prune_entry ns cutoff c e = (if t < cutoff then and_then (de_remove e) (\<lambda>_. Inr True) else Inr False)"
proof -
  have "expired_name (ns_prefix ns) c name = Inr (if t < cutoff then Some (camera, run, sq, False) else None)"
    using expired_recording [OF assms(2) _ assms(5-7) c] assms(4) by simp
  then show ?thesis using assms(1,3,4,8-11) by (simp add: prune_entry_def)
qed

text \<open>
  C25: retention deletes exactly what has expired. When \<open>prune\<close> runs to its end, a closed recording of the prefix
  (made by any run, with its header in place) is deleted if and only if its stamp is before the cutoff, for every
  time up to the year 9999: the code compares the stamps as strings.\<close>

theorem prune_deletes_expired:
  assumes "prune ns cutoff (Inr xs) = (Inr n, gone)" and "Inr e \<in> set xs" and "de_name e = Some name"
    and "recording_name (ns\<lparr>ns_run := run\<rparr>) camera sq t False = Inr name"
    and "0 < camera" and "camera \<le> 1024" and "sq < 10 ^ 10" and "t < 253402300800" and "cutoff < 253402300800"
    and "de_is_file e = Inr True" and "de_open e = Opened content" and "take 64 content = header (ns_owner ns) camera run sq"
    and "64 \<le> length content"
  shows "(e \<in> set gone \<longleftrightarrow> t < cutoff) \<and> n = length gone"
proof -
  obtain c where c: "utc cutoff False = Inr c" using utc_total by metis
  with assms(1) have loop: "prune_loop ns cutoff c xs 0 [] = (Inr n, gone)" by (simp add: prune_def)
  from prune_loop_gone [OF this] assms(2)
  have g: "set gone = {e. Inr e \<in> set xs \<and> prune_entry ns cutoff c e = Inr True}" "n = length gone" "is_ok (prune_entry ns cutoff c e)"
    by simp_all
  have "prune_entry ns cutoff c e = (if t < cutoff then and_then (de_remove e) (\<lambda>_. Inr True) else Inr False)"
    by (rule prune_entry_recording [OF assms(3-13) c])
  then show ?thesis using g assms(2) by (cases "de_remove e") (auto split: if_splits)
qed

text \<open>
  C26: retention touches nothing else. Whatever the directory holds and whichever call fails, every file that
  \<open>prune\<close> removed is a regular file with the full name of a recording: the prefix, a six-digit camera of 1 to
  1024, a valid stamp that sorts before the cutoff, a run of 32 characters that parse as a hex number, a
  ten-digit sequence number and the extension, or the extension of a pending file. It begins with a header of
  this owner with that camera, run and sequence; and a pending file is only removed when it is of another run
  and was last written before the cutoff.\<close>

theorem prune_removes_only_own:
  assumes "prune ns cutoff entries = (r, gone)" and "e \<in> set gone" and "utc cutoff False = Inr c"
  shows "\<exists>cam stamp hex digits pending camera run sq content.
      de_name e = Some (ns_prefix ns @ ''.cam'' @ cam @ ''.'' @ stamp @ ''.r'' @ hex @ ''.s'' @ digits @ ''.spitcam''
        @ (if pending then ''.pending'' else []))
    \<and> length cam = 6 \<and> list_all is_digit cam \<and> parse_uint 64 cam = Some camera \<and> 0 < camera \<and> camera \<le> 1024
    \<and> valid_stamp stamp = Inr True \<and> str_less stamp c
    \<and> length hex = 32 \<and> parse_hex128 hex = Some run
    \<and> length digits = 10 \<and> list_all is_digit digits \<and> parse_uint 64 digits = Some sq
    \<and> de_is_file e = Inr True \<and> de_open e = Opened content \<and> take 64 content = header (ns_owner ns) camera run sq
    \<and> (pending \<longrightarrow> run \<noteq> ns_run ns \<and> (\<exists>age. de_modified e = Inr (Some age) \<and> age < cutoff))"
proof -
  obtain xs where xs: "entries = Inr xs" using assms by (cases entries) (auto simp: prune_def)
  then have "prune_loop ns cutoff c xs 0 [] = (r, gone)" using assms(1,3) by (simp add: prune_def)
  from prune_loop_gone [OF this] assms(2) have "prune_entry ns cutoff c e = Inr True" by auto
  then obtain name camera run sq pending content where
    e: "de_name e = Some name" "expired_name (ns_prefix ns) c name = Inr (Some (camera, run, sq, pending))" "0 < camera" "camera \<le> 1024"
      "de_is_file e = Inr True" "de_open e = Opened content" "take 64 content = header (ns_owner ns) camera run sq"
    and pend: "pending \<longrightarrow> run \<noteq> ns_run ns \<and> (\<exists>age. de_modified e = Inr (Some age) \<and> age < cutoff)"
    by (rule prune_entry_True)
  from e(2) show ?thesis by (rule expired_name_Some) (use e(1,3-) pend in blast)
qed

section \<open>A directory\<close>

text \<open>Two recordings of an earlier run, of the first of January 1970 and of the day after.\<close>

definition example_ns :: namespace where
  "example_ns = \<lparr>ns_prefix = ''cam'', ns_owner = 7, ns_run = 9\<rparr>"

definition example_entry :: "nat \<Rightarrow> nat \<Rightarrow> dir_entry" where
  "example_entry sq t =
     \<lparr>de_name = (case recording_name (example_ns\<lparr>ns_run := 3\<rparr>) 1 sq t False of Inl _ \<Rightarrow> None | Inr n \<Rightarrow> Some n),
      de_is_file = Inr True, de_modified = Inr (Some 0), de_open = Opened (header 7 1 3 sq @ [5]), de_remove = Inr ()\<rparr>"

definition example_dir :: "dir_entry result list" where
  "example_dir = [Inr (example_entry 1 10), Inr (example_entry 2 90000)]"

lemma length_header [simp]: "length (header owner camera run sq) = 64"
  by (simp add: header_def bytes_of_def)

lemma example_name:
  obtains name where "recording_name (example_ns\<lparr>ns_run := 3\<rparr>) 1 sq t False = Inr name" "de_name (example_entry sq t) = Some name"
proof -
  obtain d where "utc t False = Inr (stamp_of d)" by (rule utc_total)
  then obtain name where "recording_name (example_ns\<lparr>ns_run := 3\<rparr>) 1 sq t False = Inr name" by (simp add: recording_name_def)
  then show ?thesis using that by (simp add: example_entry_def)
qed

lemma example_prune_entry:
  assumes "sq < 10 ^ 10" and "t < 253402300800" and "utc 86400 False = Inr c"
  shows "prune_entry example_ns 86400 c (example_entry sq t) = Inr (t < 86400)"
proof -
  obtain name where n: "recording_name (example_ns\<lparr>ns_run := 3\<rparr>) 1 sq t False = Inr name" "de_name (example_entry sq t) = Some name"
    by (rule example_name)
  from prune_entry_recording [OF n(2,1) _ _ assms(1,2) _ _ _ _ _ assms(3), of "header 7 1 3 sq @ [5]"]
  show ?thesis by (simp add: example_entry_def example_ns_def)
qed

lemma example_prune: "prune example_ns 86400 (Inr example_dir) = (Inr 1, [example_entry 1 10])"
proof -
  obtain c where c: "utc 86400 False = Inr c" using utc_total by metis
  show ?thesis using example_prune_entry [OF _ _ c] by (simp add: prune_def c example_dir_def)
qed

theorem prune_deletes_expired_witness:
  "prune example_ns 86400 (Inr example_dir) = (Inr 1, [example_entry 1 10]) \<and> example_entry 2 90000 \<notin> set [example_entry 1 10]"
proof -
  obtain name where n: "recording_name (example_ns\<lparr>ns_run := 3\<rparr>) 1 2 90000 False = Inr name" "de_name (example_entry 2 90000) = Some name"
    by (rule example_name)
  have "Inr (example_entry 2 90000) \<in> set example_dir" by (simp add: example_dir_def)
  from prune_deletes_expired [OF example_prune this n(2,1), of "header 7 1 3 2 @ [5]"] example_prune
  show ?thesis by (simp add: example_entry_def [of 2] example_ns_def)
qed

theorem prune_removes_only_own_witness:
  "\<exists>cam stamp hex digits pending. valid_stamp stamp = Inr True \<and> length cam = 6 \<and> length hex = 32 \<and> length digits = 10
    \<and> de_name (example_entry 1 10) = Some (''cam.cam'' @ cam @ ''.'' @ stamp @ ''.r'' @ hex @ ''.s'' @ digits @ ''.spitcam''
        @ (if pending then ''.pending'' else []))"
proof -
  obtain c where c: "utc 86400 False = Inr c" using utc_total by metis
  have "example_entry 1 10 \<in> set [example_entry 1 10]" by simp
  from prune_removes_only_own [OF example_prune this c] show ?thesis
    by (fastforce simp: example_ns_def)
qed

end
