(* ===== verification/Cctv_Stats.thy ===== *)
theory Cctv_Stats
  imports F64_Floor Recordings
begin

text \<open>
  The minute and hour logs of the camera workload (\<open>src/rust/src/cctv_stats.rs\<close>, and \<open>Shared::record\<close> and
  \<open>Logs::advance\<close> of \<open>cctv.rs\<close>). Cameras record measurements into two slots, one per minute of either parity; the main thread drains
  the slots of past minutes and writes one row per minute and per hour. Counters are machine words that wrap, as
  in the release build; times are \<open>f64\<close> values. A row is kept as its data; only its text is left out. The locale
  \<open>metric_fold\<close> states what the accounting needs of a counter, and is interpreted for the sums and the maxima.
\<close>

section \<open>Metrics\<close>

record write_tag =
  wt_camera :: nat
  wt_sequence :: nat
  wt_offset :: nat
  wt_submitted_ns :: u64
  wt_completed_ns :: u64

record metrics =
  mt_writes :: u64
  mt_bytes :: u64
  mt_write_ns :: u128
  mt_max_write_ns :: u64
  mt_allocations :: u64
  mt_allocation_ns :: u128
  mt_max_allocation_ns :: u64
  mt_deleted :: u64
  mt_rotations :: u64
  mt_preallocation_waits :: u64
  mt_preallocation_wait_ns :: u128
  mt_max_preallocation_wait_ns :: u64
  mt_max_write_tag :: write_tag
  mt_writes_over_200ms :: u64
  mt_gen_ns :: u128
  mt_max_gen_ns :: u64
  mt_closes :: u64
  mt_close_ns :: u128
  mt_max_close_ns :: u64
  mt_max_close_queue :: u64

definition write_tag_default :: write_tag where
  "write_tag_default = \<lparr>wt_camera = 0, wt_sequence = 0, wt_offset = 0, wt_submitted_ns = 0, wt_completed_ns = 0\<rparr>"

definition metrics_default :: metrics where
  "metrics_default = \<lparr>mt_writes = 0, mt_bytes = 0, mt_write_ns = 0, mt_max_write_ns = 0, mt_allocations = 0,
     mt_allocation_ns = 0, mt_max_allocation_ns = 0, mt_deleted = 0, mt_rotations = 0, mt_preallocation_waits = 0,
     mt_preallocation_wait_ns = 0, mt_max_preallocation_wait_ns = 0, mt_max_write_tag = write_tag_default,
     mt_writes_over_200ms = 0, mt_gen_ns = 0, mt_max_gen_ns = 0, mt_closes = 0, mt_close_ns = 0, mt_max_close_ns = 0,
     mt_max_close_queue = 0\<rparr>"

definition merge :: "metrics \<Rightarrow> metrics \<Rightarrow> metrics" where
  "merge a b =
     \<lparr>mt_writes = mt_writes a + mt_writes b,
      mt_bytes = mt_bytes a + mt_bytes b,
      mt_write_ns = mt_write_ns a + mt_write_ns b,
      mt_max_write_ns = max (mt_max_write_ns a) (mt_max_write_ns b),
      mt_allocations = mt_allocations a + mt_allocations b,
      mt_allocation_ns = mt_allocation_ns a + mt_allocation_ns b,
      mt_max_allocation_ns = max (mt_max_allocation_ns a) (mt_max_allocation_ns b),
      mt_deleted = mt_deleted a + mt_deleted b,
      mt_rotations = mt_rotations a + mt_rotations b,
      mt_preallocation_waits = mt_preallocation_waits a + mt_preallocation_waits b,
      mt_preallocation_wait_ns = mt_preallocation_wait_ns a + mt_preallocation_wait_ns b,
      mt_max_preallocation_wait_ns = max (mt_max_preallocation_wait_ns a) (mt_max_preallocation_wait_ns b),
      mt_max_write_tag = (if 0 < mt_writes b \<and> (mt_writes a = 0 \<or> mt_max_write_ns a < mt_max_write_ns b)
                          then mt_max_write_tag b else mt_max_write_tag a),
      mt_writes_over_200ms = mt_writes_over_200ms a + mt_writes_over_200ms b,
      mt_gen_ns = mt_gen_ns a + mt_gen_ns b,
      mt_max_gen_ns = max (mt_max_gen_ns a) (mt_max_gen_ns b),
      mt_closes = mt_closes a + mt_closes b,
      mt_close_ns = mt_close_ns a + mt_close_ns b,
      mt_max_close_ns = max (mt_max_close_ns a) (mt_max_close_ns b),
      mt_max_close_queue = max (mt_max_close_queue a) (mt_max_close_queue b)\<rparr>"

section \<open>The store\<close>

record metrics_store =
  ms_slots :: "(nat \<times> metrics) option list"
  ms_total :: metrics

definition store_default :: metrics_store where
  "store_default = \<lparr>ms_slots = [None, None], ms_total = metrics_default\<rparr>"

text \<open>\<open>(seconds / 60.) as u64\<close>.\<close>

definition minute_of :: "rat \<Rightarrow> nat" where
  "minute_of seconds = f64_to_u64 (f64_of_rat (seconds / 60))"

definition drains_slot :: "nat \<Rightarrow> bool \<Rightarrow> (nat \<times> metrics) option \<Rightarrow> bool" where
  "drains_slot minute finished slot = (case slot of None \<Rightarrow> False | Some (k, _) \<Rightarrow> k < minute \<or> finished \<and> k = minute)"

text \<open>\<open>drain\<close>: the drained slots as a store, and the store they were taken from.\<close>

definition drain :: "metrics_store \<Rightarrow> rat \<Rightarrow> bool \<Rightarrow> metrics_store \<times> metrics_store" where
  "drain s seconds finished =
     (let minute = minute_of seconds
      in (store_default\<lparr>ms_slots := map (\<lambda>x. if drains_slot minute finished x then x else None) (ms_slots s)\<rparr>,
          s\<lparr>ms_slots := map (\<lambda>x. if drains_slot minute finished x then None else x) (ms_slots s)\<rparr>))"

definition record_metrics :: "metrics_store \<Rightarrow> rat \<Rightarrow> metrics \<Rightarrow> metrics_store result" where
  "record_metrics s seconds value =
     (let minute = minute_of seconds; i = minute mod 2
      in case ms_slots s ! i of
           None \<Rightarrow> Inr \<lparr>ms_slots = (ms_slots s)[i := Some (minute, merge metrics_default value)], ms_total = merge (ms_total s) value\<rparr>
         | Some (k, stats) \<Rightarrow>
             if k \<noteq> minute then Inl (Err ''CCTV log writer fell over a minute behind; refusing to lose latency samples'')
             else Inr \<lparr>ms_slots = (ms_slots s)[i := Some (k, merge stats value)], ms_total = merge (ms_total s) value\<rparr>)"

text \<open>
  \<open>Shared::record\<close>, which the cameras call: from the deadline on a measurement is only counted as late. The
  time is read under the lock; the result says whether the measurement was recorded.
\<close>

definition shared_record :: "rat option \<Rightarrow> rat \<Rightarrow> metrics \<Rightarrow> metrics_store \<times> u64 \<Rightarrow> (bool \<times> metrics_store \<times> u64) result" where
  "shared_record duration elapsed m sl =
     (let (s, late) = sl
      in if (case duration of Some limit \<Rightarrow> limit \<le> elapsed | None \<Rightarrow> False) then Inr (False, s, late + mt_writes m)
         else and_then (record_metrics s elapsed m) (\<lambda>s. Inr (True, s, late)))"

definition take_minute :: "metrics_store \<Rightarrow> nat \<Rightarrow> metrics \<times> metrics_store" where
  "take_minute s minute =
     (case ms_slots s ! (minute mod 2) of
        Some (k, m) \<Rightarrow> if k = minute then (m, s\<lparr>ms_slots := (ms_slots s)[minute mod 2 := None]\<rparr>) else (metrics_default, s)
      | None \<Rightarrow> (metrics_default, s))"

section \<open>Rows\<close>

record log_row =
  rw_index :: nat
  rw_start :: nat
  rw_seconds :: rat
  rw_complete :: bool
  rw_metrics :: metrics

record periods =
  pd_minute :: nat
  pd_hour :: nat
  pd_hour_metrics :: metrics
  pd_minutes :: "log_row list"
  pd_hours :: "log_row list"
  pd_wrote_hour :: bool

definition periods_default :: periods where
  "periods_default = \<lparr>pd_minute = 0, pd_hour = 0, pd_hour_metrics = metrics_default, pd_minutes = [], pd_hours = [],
     pd_wrote_hour = False\<rparr>"

text \<open>\<open>n as f64 * unit\<close>, and \<open>elapsed - n as f64 * unit\<close>.\<close>

definition f64_times :: "nat \<Rightarrow> nat \<Rightarrow> f64" where
  "f64_times n unit = (case f64_of_rat (of_nat n) of Finite y \<Rightarrow> f64_of_rat (y * of_nat unit) | v \<Rightarrow> v)"

definition reached :: "rat \<Rightarrow> f64 \<Rightarrow> bool" where
  "reached elapsed v = (case v of Finite y \<Rightarrow> y \<le> elapsed | NegInfinity \<Rightarrow> True | _ \<Rightarrow> False)"

definition f64_minus :: "rat \<Rightarrow> f64 \<Rightarrow> f64" where
  "f64_minus x v = (case v of Finite y \<Rightarrow> f64_of_rat (x - y) | NegInfinity \<Rightarrow> Infinity | Infinity \<Rightarrow> NegInfinity | NaN \<Rightarrow> NaN)"

definition over_nano :: "f64 \<Rightarrow> rat option" where
  "over_nano v = (case (v, f64_of_rat (1 / 10 ^ 9)) of (Finite y, Finite nano) \<Rightarrow> if nano < y then Some y else None | _ \<Rightarrow> None)"

text \<open>One round of the loop of \<open>Periods::advance\<close>: the row of a minute, and of an hour when it is full.\<close>

definition minute_row :: "periods \<times> metrics_store \<Rightarrow> periods \<times> metrics_store" where
  "minute_row ps =
     (let (p, s) = ps;
          (m, s) = take_minute s (pd_minute p);
          p = p\<lparr>pd_minutes := pd_minutes p @ [\<lparr>rw_index = pd_minute p, rw_start = pd_minute p * 60, rw_seconds = 60, rw_complete = True, rw_metrics = m\<rparr>],
                pd_hour_metrics := merge (pd_hour_metrics p) m, pd_minute := pd_minute p + 1\<rparr>
      in (if pd_minute p mod 60 = 0 then
            p\<lparr>pd_hours := pd_hours p @ [\<lparr>rw_index = pd_hour p, rw_start = pd_hour p * 3600, rw_seconds = 3600, rw_complete = True, rw_metrics = pd_hour_metrics p\<rparr>],
              pd_hour := pd_hour p + 1, pd_hour_metrics := metrics_default, pd_wrote_hour := True\<rparr>
          else p, s))"

partial_function (option) minute_loop :: "rat \<Rightarrow> periods \<times> metrics_store \<Rightarrow> (periods \<times> metrics_store) option" where
  "minute_loop elapsed ps =
     (if reached elapsed (f64_times (pd_minute (fst ps) + 1) 60) then minute_loop elapsed (minute_row ps) else Some ps)"

text \<open>The rows of the minute and of the hour the run ended in.\<close>

definition final_rows :: "rat \<Rightarrow> periods \<times> metrics_store \<Rightarrow> periods \<times> metrics_store" where
  "final_rows elapsed ps =
     (let (p, s) = ps;
          (p, s) = (case over_nano (f64_minus elapsed (f64_times (pd_minute p) 60)) of
             None \<Rightarrow> (p, s)
           | Some partial \<Rightarrow>
               let (m, s) = take_minute s (pd_minute p)
               in (p\<lparr>pd_minutes := pd_minutes p @ [\<lparr>rw_index = pd_minute p, rw_start = pd_minute p * 60, rw_seconds = partial, rw_complete = False, rw_metrics = m\<rparr>],
                     pd_hour_metrics := merge (pd_hour_metrics p) m\<rparr>, s))
      in (case over_nano (f64_minus elapsed (f64_times (pd_hour p) 3600)) of
            None \<Rightarrow> p
          | Some partial \<Rightarrow>
              p\<lparr>pd_hours := pd_hours p @ [\<lparr>rw_index = pd_hour p, rw_start = pd_hour p * 3600, rw_seconds = partial, rw_complete = False, rw_metrics = pd_hour_metrics p\<rparr>],
                pd_wrote_hour := True\<rparr>, s))"

definition periods_advance :: "rat \<Rightarrow> bool \<Rightarrow> metrics_store \<Rightarrow> periods \<Rightarrow> (periods \<times> metrics_store) option" where
  "periods_advance elapsed finished s p =
     Option.bind (minute_loop elapsed (p\<lparr>pd_wrote_hour := False\<rparr>, s)) (\<lambda>ps. Some (if finished then final_rows elapsed ps else ps))"

text \<open>\<open>Logs::advance\<close>: the rows are written from the drained slots, without the lock.\<close>

definition logs_advance :: "rat \<Rightarrow> bool \<Rightarrow> metrics_store \<Rightarrow> periods \<Rightarrow> (periods \<times> metrics_store) option" where
  "logs_advance elapsed finished s p =
     (let (snapshot, s) = drain s elapsed finished
      in Option.bind (periods_advance elapsed finished snapshot p) (\<lambda>(p, _). Some (p, s)))"

section \<open>Counters\<close>

text \<open>A counter of the metrics that \<open>merge\<close> combines with an operation of a commutative monoid.\<close>

locale metric_fold = comm_monoid join unit
  for join :: "'a \<Rightarrow> 'a \<Rightarrow> 'a" and unit :: 'a +
  fixes f :: "metrics \<Rightarrow> 'a"
  assumes f_merge: "f (merge a b) = join (f a) (f b)"
    and f_default: "f metrics_default = unit"

definition fold_rows :: "('a \<Rightarrow> 'a \<Rightarrow> 'a) \<Rightarrow> 'a \<Rightarrow> (metrics \<Rightarrow> 'a) \<Rightarrow> log_row list \<Rightarrow> 'a" where
  "fold_rows join unit f rows = foldr (\<lambda>r. join (f (rw_metrics r))) rows unit"

definition fold_slots :: "('a \<Rightarrow> 'a \<Rightarrow> 'a) \<Rightarrow> 'a \<Rightarrow> (metrics \<Rightarrow> 'a) \<Rightarrow> (nat \<times> metrics) option list \<Rightarrow> 'a" where
  "fold_slots join unit f slots = foldr (\<lambda>x. join (case x of None \<Rightarrow> unit | Some (k, m) \<Rightarrow> f m)) slots unit"

text \<open>The slots hold minutes from \<open>lo\<close> on, each in the slot of its parity.\<close>

definition slots_ok :: "nat \<Rightarrow> (nat \<times> metrics) option list \<Rightarrow> bool" where
  "slots_ok lo slots \<longleftrightarrow> length slots = 2 \<and> (\<forall>i<2. \<forall>k m. slots ! i = Some (k, m) \<longrightarrow> k mod 2 = i \<and> lo \<le> k)"

definition periods_ok :: "periods \<Rightarrow> bool" where
  "periods_ok p \<longleftrightarrow> pd_hour p = pd_minute p div 60 \<and> (pd_minute p mod 60 = 0 \<longrightarrow> pd_hour_metrics p = metrics_default)"

lemma two_slots: "length slots = 2 \<longleftrightarrow> (\<exists>a b. slots = [a, b])"
  by (metis (no_types, opaque_lifting) One_nat_def Suc_1 length_0_conv length_Suc_conv)

lemma minute_row_ok:
  assumes "periods_ok p" and "slots_ok (pd_minute p) (ms_slots s)" and "minute_row (p, s) = (p', s')"
  shows "periods_ok p'" and "pd_minute p' = pd_minute p + 1" and "slots_ok (pd_minute p') (ms_slots s')"
    and "i < 2 \<Longrightarrow> ms_slots s' ! i = Some x \<Longrightarrow> ms_slots s ! i = Some x"
proof -
  obtain m s1 where t: "take_minute s (pd_minute p) = (m, s1)" by fastforce
  have s': "s' = s1" and pm: "pd_minute p' = pd_minute p + 1"
    using assms(3) by (auto simp: minute_row_def Let_def t split: if_splits)
  show "pd_minute p' = pd_minute p + 1" by (rule pm)
  show "periods_ok p'"
    using assms(1,3) by (auto simp: minute_row_def Let_def t periods_ok_def div_Suc split: if_splits)
  have sub: "ms_slots s1 ! i = Some x \<Longrightarrow> ms_slots s ! i = Some x \<and> fst x \<noteq> pd_minute p" if "i < 2" for i x
    using t assms(2) that
    by (cases x; cases "i = pd_minute p mod 2")
      (auto simp: take_minute_def slots_ok_def split: option.splits if_splits prod.splits)
  then show "i < 2 \<Longrightarrow> ms_slots s' ! i = Some x \<Longrightarrow> ms_slots s ! i = Some x" using s' by blast
  have "length (ms_slots s1) = 2"
    using t assms(2) by (auto simp: take_minute_def slots_ok_def split: option.splits if_splits prod.splits)
  then show "slots_ok (pd_minute p') (ms_slots s')"
    using sub assms(2) s' pm unfolding slots_ok_def by (metis Suc_eq_plus1 fst_conv le_neq_implies_less not_less_eq_eq not_le)
qed

lemma minute_rows_ok:
  assumes "(minute_row ^^ n) (p, s) = (p', s')" and "periods_ok p" and "slots_ok (pd_minute p) (ms_slots s)"
  shows "periods_ok p' \<and> pd_minute p' = pd_minute p + n \<and> slots_ok (pd_minute p') (ms_slots s')
    \<and> (\<forall>i<2. \<forall>x. ms_slots s' ! i = Some x \<longrightarrow> ms_slots s ! i = Some x)"
  using assms
proof (induction n arbitrary: p' s')
  case (Suc n)
  obtain q t where q: "(minute_row ^^ n) (p, s) = (q, t)" by fastforce
  then have r: "minute_row (q, t) = (p', s')" using Suc.prems(1) by simp
  note ih = Suc.IH [OF q Suc.prems(2,3)]
  then show ?case using minute_row_ok [OF _ _ r] by auto
qed simp

lemma minute_row_keeps:
  assumes "minute_row (p, s) = (p', s')" and "ms_slots s ! i = Some (k, m)" and "pd_minute p < k"
  shows "ms_slots s' ! i = Some (k, m) \<and> pd_minute p' = pd_minute p + 1"
proof -
  obtain a s1 where t: "take_minute s (pd_minute p) = (a, s1)" by fastforce
  have "s' = s1" "pd_minute p' = pd_minute p + 1" using assms(1) by (auto simp: minute_row_def Let_def t split: if_splits)
  then show ?thesis
    using t assms(2,3) by (cases "i = pd_minute p mod 2") (auto simp: take_minute_def split: option.splits if_splits prod.splits)
qed

lemma minute_rows_keep:
  assumes "(minute_row ^^ n) (p, s) = (p', s')" and "ms_slots s ! i = Some (k, m)" and "pd_minute p + n \<le> k"
  shows "ms_slots s' ! i = Some (k, m)"
  using assms
proof (induction n arbitrary: p s)
  case (Suc n)
  obtain q r where q: "minute_row (p, s) = (q, r)" by fastforce
  have "(minute_row ^^ n) (q, r) = (p', s')" using Suc.prems(1) q by (simp add: funpow_Suc_right del: funpow.simps)
  then show ?case using Suc.IH [of q r] minute_row_keeps [OF q Suc.prems(2)] Suc.prems(3) by simp
qed simp

text \<open>The loop runs once per whole minute since the last row.\<close>

lemma f64_times_exact:
  assumes "n * k < 2 ^ 53" and "0 < k"
  shows "f64_times n k = Finite (of_nat (n * k))"
proof -
  have "n \<le> n * k" using assms(2) by simp
  then have "n < 2 ^ 53" using assms(1) by linarith
  then show ?thesis using f64_of_nat_exact [of n] f64_of_nat_exact [OF assms(1)] by (simp add: f64_times_def)
qed

lemma whole_minutes_le: "0 \<le> (t :: rat) \<Longrightarrow> of_nat (k * 60) \<le> t \<longleftrightarrow> k \<le> nat \<lfloor>t / 60\<rfloor>"
  by (simp add: nat_le_iff le_nat_iff le_floor_iff pos_le_divide_eq)

lemma minute_bound:
  fixes t :: rat
  assumes "0 \<le> t" and "t < 2 ^ 52" and "k \<le> nat \<lfloor>t / 60\<rfloor>"
  shows "(k + 1) * 60 < 2 ^ 53" and "k * 60 < 2 ^ 52"
proof -
  have "(of_nat (k * 60) :: rat) < of_nat (2 ^ 52)" using whole_minutes_le [OF assms(1), of k] assms(2,3) by simp
  then show "k * 60 < 2 ^ 52" unfolding of_nat_less_iff .
  then show "(k + 1) * 60 < 2 ^ 53" by simp
qed

lemma minute_loop_rows:
  assumes t: "0 \<le> t" "t < 2 ^ 52" and "pd_minute p \<le> nat \<lfloor>t / 60\<rfloor>"
  shows "minute_loop t (p, s) = Some ((minute_row ^^ (nat \<lfloor>t / 60\<rfloor> - pd_minute p)) (p, s))"
  using assms(3)
proof (induction "nat \<lfloor>t / 60\<rfloor> - pd_minute p" arbitrary: p s)
  case 0
  then show ?case
    using whole_minutes_le [OF t(1), of "pd_minute p + 1"] minute_bound(1) [OF t 0(2)]
    by (simp add: minute_loop.simps [of t "(p, s)"] f64_times_exact reached_def)
next
  case (Suc n)
  obtain q r where q: "minute_row (p, s) = (q, r)" by fastforce
  have m: "pd_minute q = pd_minute p + 1" using q by (auto simp: minute_row_def Let_def split: prod.splits if_splits)
  have lt: "pd_minute p + 1 \<le> nat \<lfloor>t / 60\<rfloor>" and n: "n = nat \<lfloor>t / 60\<rfloor> - pd_minute q" using Suc(2) m by simp_all
  have "reached t (f64_times (pd_minute p + 1) 60)"
    using whole_minutes_le [OF t(1), of "pd_minute p + 1"] minute_bound(1) [OF t, of "pd_minute p"] lt
    by (simp add: f64_times_exact reached_def)
  then have "minute_loop t (p, s) = minute_loop t (q, r)" by (simp add: minute_loop.simps [of t "(p, s)"] q)
  also have "minute_loop t (q, r) = Some ((minute_row ^^ n) (q, r))" using Suc(1) [OF n, of r] lt m n by simp
  finally show ?case unfolding Suc(2) [symmetric] funpow_Suc_right by (simp add: q)
qed

section \<open>Accounting\<close>

context metric_fold
begin

lemma fold_rows_append: "fold_rows join unit f (xs @ [r]) = join (fold_rows join unit f xs) (f (rw_metrics r))"
  by (induction xs) (simp_all add: fold_rows_def assoc left_neutral right_neutral)

lemma fold_two: "fold_slots join unit f [a, b] = join (fold_slots join unit f [a]) (fold_slots join unit f [b])"
  by (simp add: fold_slots_def right_neutral)

lemma take_minute_fold:
  assumes "length (ms_slots s) = 2" and "take_minute s j = (m, s')"
  shows "join (f m) (fold_slots join unit f (ms_slots s')) = fold_slots join unit f (ms_slots s)"
proof -
  obtain a b where ab: "ms_slots s = [a, b]" using assms(1) two_slots [of "ms_slots s"] by auto
  have "j mod 2 = 0 \<or> j mod 2 = Suc 0" by (rule less_2_cases) simp
  then show ?thesis
    using assms(2) ab
    by (auto simp: take_minute_def fold_slots_def f_default left_neutral right_neutral assoc commute left_commute split: option.splits if_splits prod.splits)
qed

lemma minute_row_fold:
  assumes "length (ms_slots s) = 2" and "minute_row (p, s) = (p', s')"
  shows "join (fold_rows join unit f (pd_minutes p')) (fold_slots join unit f (ms_slots s'))
      = join (fold_rows join unit f (pd_minutes p)) (fold_slots join unit f (ms_slots s))"
    and "fold_rows join unit f (pd_minutes p) = join (fold_rows join unit f (pd_hours p)) (f (pd_hour_metrics p)) \<Longrightarrow>
      fold_rows join unit f (pd_minutes p') = join (fold_rows join unit f (pd_hours p')) (f (pd_hour_metrics p'))"
proof -
  obtain m s1 where t: "take_minute s (pd_minute p) = (m, s1)" by fastforce
  note e = take_minute_fold [OF assms(1) t]
  have s': "s' = s1" "pd_minutes p' = pd_minutes p @ [\<lparr>rw_index = pd_minute p, rw_start = pd_minute p * 60, rw_seconds = 60, rw_complete = True, rw_metrics = m\<rparr>]"
    using assms(2) by (auto simp: minute_row_def Let_def t split: if_splits)
  show "join (fold_rows join unit f (pd_minutes p')) (fold_slots join unit f (ms_slots s'))
      = join (fold_rows join unit f (pd_minutes p)) (fold_slots join unit f (ms_slots s))"
    by (simp add: s' fold_rows_append e [symmetric] assoc)
  show "fold_rows join unit f (pd_minutes p') = join (fold_rows join unit f (pd_hours p')) (f (pd_hour_metrics p'))"
    if "fold_rows join unit f (pd_minutes p) = join (fold_rows join unit f (pd_hours p)) (f (pd_hour_metrics p))"
    using assms(2) that
    by (auto simp: minute_row_def Let_def t fold_rows_append f_merge f_default right_neutral assoc split: if_splits)
qed

lemma minute_rows_fold:
  assumes "(minute_row ^^ n) (p, s) = (p', s')" and "periods_ok p" and "slots_ok (pd_minute p) (ms_slots s)"
    and "fold_rows join unit f (pd_minutes p) = join (fold_rows join unit f (pd_hours p)) (f (pd_hour_metrics p))"
  shows "join (fold_rows join unit f (pd_minutes p')) (fold_slots join unit f (ms_slots s'))
      = join (fold_rows join unit f (pd_minutes p)) (fold_slots join unit f (ms_slots s))
    \<and> fold_rows join unit f (pd_minutes p') = join (fold_rows join unit f (pd_hours p')) (f (pd_hour_metrics p'))"
  using assms(1)
proof (induction n arbitrary: p' s')
  case 0
  then show ?case using assms(4) by simp
next
  case (Suc n)
  obtain q t where q: "(minute_row ^^ n) (p, s) = (q, t)" by fastforce
  then have r: "minute_row (q, t) = (p', s')" using Suc.prems by simp
  have "length (ms_slots t) = 2" using minute_rows_ok [OF q assms(2,3)] by (simp add: slots_ok_def)
  from minute_row_fold [OF this r] Suc.IH [OF q] show ?case by metis
qed

lemma drain_fold:
  assumes "length (ms_slots s) = 2" and "drain s t fin = (snap, s')"
  shows "join (fold_slots join unit f (ms_slots snap)) (fold_slots join unit f (ms_slots s')) = fold_slots join unit f (ms_slots s)"
proof -
  obtain a b where "ms_slots s = [a, b]" using assms(1) two_slots [of "ms_slots s"] by auto
  then show ?thesis
    using assms(2) by (auto simp: drain_def Let_def fold_slots_def left_neutral right_neutral assoc commute left_commute)
qed

lemma record_fold:
  assumes "slots_ok lo (ms_slots s)" and "record_metrics s t v = Inr s'"
  shows "fold_slots join unit f (ms_slots s') = join (f v) (fold_slots join unit f (ms_slots s))"
    and "f (ms_total s') = join (f (ms_total s)) (f v)"
proof -
  obtain a b where ab: "ms_slots s = [a, b]" using assms(1) two_slots [of "ms_slots s"] by (auto simp: slots_ok_def)
  have "minute_of t mod 2 = 0 \<or> minute_of t mod 2 = Suc 0" by (rule less_2_cases) simp
  then show "fold_slots join unit f (ms_slots s') = join (f v) (fold_slots join unit f (ms_slots s))"
    using assms(2)
    by (auto simp: record_metrics_def Let_def ab fold_slots_def f_merge f_default left_neutral right_neutral assoc commute left_commute
        split: option.splits if_splits prod.splits)
  show "f (ms_total s') = join (f (ms_total s)) (f v)"
    using assms(2) by (auto simp: record_metrics_def Let_def f_merge split: option.splits if_splits prod.splits)
qed

end

section \<open>A run\<close>

text \<open>
  Measurements are recorded, until the deadline if the run has one, and the logs advance. A measurement may be
  taken before an advance that was timed earlier, but never before one that is complete: its time is read under
  the lock. It may come after the time at which the logs are closed.
\<close>

inductive log_run :: "rat option \<Rightarrow> rat \<Rightarrow> metrics_store \<Rightarrow> periods \<Rightarrow> bool" for duration where
  log_start: "log_run duration 0 store_default periods_default"
| log_record: "log_run duration t s p \<Longrightarrow> is_f64 t' \<Longrightarrow> t \<le> t' \<Longrightarrow> t' < 2 ^ 52 \<Longrightarrow>
    shared_record duration t' v (s, l) = Inr (b, s', l') \<Longrightarrow> log_run duration t s' p"
| log_advance: "log_run duration t s p \<Longrightarrow> is_f64 t' \<Longrightarrow> t \<le> t' \<Longrightarrow> t' < 2 ^ 52 \<Longrightarrow>
    logs_advance t' False s p = Some (p', s') \<Longrightarrow> log_run duration t' s' p'"

lemma shared_record_cases:
  assumes "shared_record duration t v (s, l) = Inr (b, s', l')"
  obtains "s' = s" | "record_metrics s t v = Inr s'" "\<And>limit. duration = Some limit \<Longrightarrow> t < limit"
  using assms by (cases duration) (auto simp: shared_record_def and_then_eq_Inr split: if_splits)

definition log_inv :: "rat \<Rightarrow> metrics_store \<Rightarrow> periods \<Rightarrow> bool" where
  "log_inv t s p \<longleftrightarrow> 0 \<le> t \<and> t < 2 ^ 52 \<and> periods_ok p \<and> pd_minute p = nat \<lfloor>t / 60\<rfloor> \<and> slots_ok (pd_minute p) (ms_slots s)"

lemma minute_of_floor: "is_f64 t \<Longrightarrow> 0 \<le> t \<Longrightarrow> t < 2 ^ 52 \<Longrightarrow> minute_of t = nat \<lfloor>t / 60\<rfloor>"
  by (simp add: minute_of_def minute_floor)

lemma minute_mono: "t \<le> t' \<Longrightarrow> nat \<lfloor>t / 60\<rfloor> \<le> nat \<lfloor>t' / (60 :: rat)\<rfloor>"
  by (intro nat_mono floor_mono divide_right_mono) simp_all

lemma drain_slots:
  assumes "slots_ok lo (ms_slots s)" and "drain s t fin = (snap, s')"
  shows "slots_ok lo (ms_slots snap)" and "slots_ok lo (ms_slots s')" and "ms_total s' = ms_total s"
    and "i < 2 \<Longrightarrow> ms_slots snap ! i = Some (k, m) \<Longrightarrow> ms_slots s ! i = Some (k, m) \<and> (k < minute_of t \<or> fin \<and> k = minute_of t)"
    and "i < 2 \<Longrightarrow> ms_slots s' ! i = Some (k, m) \<Longrightarrow> ms_slots s ! i = Some (k, m) \<and> \<not> (k < minute_of t \<or> fin \<and> k = minute_of t)"
  using assms by (auto simp: drain_def Let_def slots_ok_def drains_slot_def split: if_splits option.splits)

lemma logs_advance_rows:
  assumes "log_inv t s p" and "t \<le> t'" and "t' < 2 ^ 52" and "drain s t' fin = (snap, s')"
    and "(minute_row ^^ (nat \<lfloor>t' / 60\<rfloor> - pd_minute p)) (p\<lparr>pd_wrote_hour := False\<rparr>, snap) = (q, r)"
  shows "logs_advance t' fin s p = Some (if fin then fst (final_rows t' (q, r)) else q, s')"
proof -
  have "0 \<le> t'" "pd_minute (p\<lparr>pd_wrote_hour := False\<rparr>) \<le> nat \<lfloor>t' / 60\<rfloor>" using assms(1,2) minute_mono by (auto simp: log_inv_def)
  from minute_loop_rows [OF this(1) assms(3) this(2), of snap] show ?thesis
    using assms(4,5) by (simp add: logs_advance_def periods_advance_def split: prod.splits)
qed

lemma rows_of_advance:
  assumes "log_inv t s p" and "is_f64 t'" and "t \<le> t'" and "t' < 2 ^ 52" and "drain s t' fin = (snap, s')"
    and "(minute_row ^^ (nat \<lfloor>t' / 60\<rfloor> - pd_minute p)) (p\<lparr>pd_wrote_hour := False\<rparr>, snap) = (q, r)"
  shows "periods_ok q" and "pd_minute q = nat \<lfloor>t' / 60\<rfloor>" and "slots_ok (nat \<lfloor>t' / 60\<rfloor>) (ms_slots s')"
    and "length (ms_slots r) = 2"
    and "i < 2 \<Longrightarrow> ms_slots r ! i = Some (k, m) \<Longrightarrow> fin \<and> k = nat \<lfloor>t' / 60\<rfloor> \<and> i = k mod 2 \<and> ms_slots s ! i = Some (k, m)"
proof -
  let ?p = "p\<lparr>pd_wrote_hour := False\<rparr>" and ?T = "nat \<lfloor>t' / 60\<rfloor>"
  have t0: "0 \<le> t'" using assms(1,3) by (auto simp: log_inv_def)
  have T: "minute_of t' = ?T" by (rule minute_of_floor [OF assms(2) t0 assms(4)])
  have le: "pd_minute p \<le> ?T" using assms(1,3) minute_mono by (auto simp: log_inv_def)
  have ok: "slots_ok (pd_minute p) (ms_slots s)" "periods_ok p" using assms(1) unfolding log_inv_def by blast+
  note d = drain_slots [OF ok(1) assms(5)]
  have pok: "periods_ok ?p" "slots_ok (pd_minute ?p) (ms_slots snap)" using ok(2) d(1) by (simp_all add: periods_ok_def)
  note rows = minute_rows_ok [OF assms(6) pok]
  show "periods_ok q" "pd_minute q = ?T" using rows le by simp_all
  show "length (ms_slots r) = 2" using rows by (simp add: slots_ok_def)
  show "slots_ok ?T (ms_slots s')" using d(2,5) T by (fastforce simp: slots_ok_def)
  assume i: "i < 2" "ms_slots r ! i = Some (k, m)"
  then have "pd_minute q \<le> k" "k mod 2 = i" "ms_slots snap ! i = Some (k, m)" using rows by (auto simp: slots_ok_def)
  then show "fin \<and> k = ?T \<and> i = k mod 2 \<and> ms_slots s ! i = Some (k, m)" using d(4) [OF i(1), of k m] T \<open>pd_minute q = ?T\<close> by auto
qed

lemma log_run_inv: "log_run duration t s p \<Longrightarrow> log_inv t s p"
proof (induction rule: log_run.induct)
  case log_start
  show ?case by (auto simp: log_inv_def periods_ok_def periods_default_def slots_ok_def store_default_def less_Suc_eq numeral_2_eq_2)
next
  case (log_record t s p t' v l b s' l')
  have t0: "0 \<le> t'" using log_record by (auto simp: log_inv_def)
  have le: "pd_minute p \<le> minute_of t'"
    using log_record minute_mono minute_of_floor [OF log_record(2) t0 log_record(4)] by (simp add: log_inv_def)
  from log_record(5) have "slots_ok (pd_minute p) (ms_slots s')"
  proof (cases rule: shared_record_cases)
    case 2
    then show ?thesis
      using log_record(6) le
      by (auto simp: record_metrics_def Let_def log_inv_def slots_ok_def nth_list_update split: option.splits if_splits prod.splits)
  qed (use log_record(6) in \<open>auto simp: log_inv_def\<close>)
  then show ?case using log_record(6) by (simp add: log_inv_def)
next
  case (log_advance t s p t' p' s')
  obtain snap s1 where d: "drain s t' False = (snap, s1)" by fastforce
  obtain q r where q: "(minute_row ^^ (nat \<lfloor>t' / 60\<rfloor> - pd_minute p)) (p\<lparr>pd_wrote_hour := False\<rparr>, snap) = (q, r)" by fastforce
  have e: "p' = q" "s' = s1" using logs_advance_rows [OF log_advance(6,3,4) d q] log_advance(5) by simp_all
  have "0 \<le> t'" using log_advance by (auto simp: log_inv_def)
  then show ?case using rows_of_advance [OF log_advance(6,2,3,4) d q] e log_advance(4) by (simp add: log_inv_def)
qed

text \<open>
  The end of the run at \<open>t\<close>. A measurement of a minute is in a row when the minute ended before \<open>t\<close>, or is
  that of \<open>t\<close> and \<open>t\<close> is more than a nanosecond into it. \<open>unlogged\<close> are the other measurements the store holds.
\<close>

definition closed_minute :: "rat \<Rightarrow> nat \<Rightarrow> bool" where
  "closed_minute t k \<longleftrightarrow> k < nat \<lfloor>t / 60\<rfloor> \<or> k = nat \<lfloor>t / 60\<rfloor> \<and> over_nano (f64_minus t (f64_times k 60)) \<noteq> None"

definition unlogged_slots :: "rat \<Rightarrow> metrics_store \<Rightarrow> (nat \<times> metrics) option list" where
  "unlogged_slots t s = map (\<lambda>x. case x of Some (k, m) \<Rightarrow> if closed_minute t k then None else x | None \<Rightarrow> None) (ms_slots s)"

definition unlogged :: "rat \<Rightarrow> metrics_store \<Rightarrow> metrics list" where
  "unlogged t s = map snd (filter (\<lambda>(k, m). \<not> closed_minute t k) (map the (filter (\<lambda>x. x \<noteq> None) (ms_slots s))))"

text \<open>With a deadline only measurements before it are in the store.\<close>

lemma log_run_deadline:
  assumes "log_run duration t s p" and "duration = Some limit" and "i < 2" and "ms_slots s ! i = Some (k, m)"
  shows "of_nat (k * 60) < limit"
  using assms
proof (induction arbitrary: k m rule: log_run.induct)
  case log_start
  then show ?case by (auto simp: store_default_def less_2_cases_iff)
next
  case (log_record t s p t' v l b s' l')
  have len: "length (ms_slots s) = 2" using log_run_inv [OF log_record(1)] by (simp add: log_inv_def slots_ok_def)
  have t0: "0 \<le> t'" using log_run_inv [OF log_record(1)] log_record(3) by (simp add: log_inv_def)
  from log_record(5) show ?case
  proof (cases rule: shared_record_cases)
    case 1
    then show ?thesis using log_record by auto
  next
    case 2
    then have "k = minute_of t' \<or> (\<exists>m. ms_slots s ! i = Some (k, m))"
      using log_record(9) len log_record.prems(2)
      by (cases "i = minute_of t' mod 2") (auto simp: record_metrics_def Let_def split: option.splits if_splits prod.splits)
    moreover have "of_nat (minute_of t' * 60) \<le> t'"
      using whole_minutes_le [OF t0, of "minute_of t'"] minute_of_floor [OF log_record(2) t0 log_record(4)] by simp
    ultimately show ?thesis using 2(2) [OF log_record.prems(1)] log_record.IH log_record.prems by auto
  qed
next
  case (log_advance t s p t' p' s')
  have ok: "slots_ok (pd_minute p) (ms_slots s)" using log_run_inv [OF log_advance(1)] unfolding log_inv_def by blast
  obtain snap where "drain s t' False = (snap, s')"
    using log_advance(5) by (cases "drain s t' False") (auto simp: logs_advance_def bind_eq_Some_conv split: prod.splits)
  from drain_slots(5) [OF ok this log_advance.prems(2,3)] show ?case using log_advance.IH log_advance.prems by blast
qed

lemma deadline_all_logged:
  assumes "log_run (Some t') t s p" and "0 \<le> t'"
    and "t' = of_nat (nat \<lfloor>t' / 60\<rfloor> * 60) \<or> over_nano (f64_minus t' (f64_times (nat \<lfloor>t' / 60\<rfloor>) 60)) \<noteq> None"
  shows "unlogged t' s = []"
proof -
  let ?T = "nat \<lfloor>t' / 60\<rfloor>"
  have closed: "closed_minute t' k" if mem: "Some (k, m) \<in> set (ms_slots s)" for k m
  proof -
    have len: "length (ms_slots s) = 2" using log_run_inv [OF assms(1)] by (simp add: log_inv_def slots_ok_def)
    obtain i where "i < 2" "ms_slots s ! i = Some (k, m)" using mem len unfolding in_set_conv_nth by metis
    from log_run_deadline [OF assms(1) refl this] have k: "of_nat (k * 60) < t'" .
    then have "k \<le> ?T" using whole_minutes_le [OF assms(2), of k] by simp
    moreover have "k < ?T" if "t' = of_nat (?T * 60)"
    proof -
      have "(of_nat (k * 60) :: rat) < of_nat (?T * 60)" using k that by simp
      then show ?thesis unfolding of_nat_less_iff by simp
    qed
    ultimately show ?thesis using assms(3) by (auto simp: closed_minute_def le_less)
  qed
  have "filter (\<lambda>(k, m). \<not> closed_minute t' k) (map the (filter (\<lambda>x. x \<noteq> None) (ms_slots s))) = []"
    using closed by (auto simp: filter_empty_conv)
  then show ?thesis by (simp add: unlogged_def)
qed

text \<open>Without a row for the hour, the run ended on the hour.\<close>

lemma no_hour_row:
  assumes t: "0 \<le> t" "t < 2 ^ 52" and "over_nano (f64_minus t (f64_times (nat \<lfloor>t / 60\<rfloor> div 60) 3600)) = None"
  shows "nat \<lfloor>t / 60\<rfloor> mod 60 = 0"
proof (rule ccontr)
  define T where "T = nat \<lfloor>t / 60\<rfloor>"
  assume "nat \<lfloor>t / 60\<rfloor> mod 60 \<noteq> 0"
  then have m: "1 \<le> T mod 60" by (simp add: T_def)
  have T: "T * 60 < 2 ^ 52" "of_nat (T * 60) \<le> t"
    using minute_bound(2) [OF t, of T] whole_minutes_le [OF t(1), of T] by (simp_all add: T_def)
  have "T = h * 60 + r \<Longrightarrow> T * 60 = h * 3600 + r * 60" for h r :: nat by simp
  then have split: "T * 60 = T div 60 * 3600 + T mod 60 * 60" using div_mult_mod_eq [of T 60] by metis
  then have "f64_times (T div 60) 3600 = Finite (of_nat (T div 60 * 3600))" using T(1) by (intro f64_times_exact) simp_all
  then have e: "f64_minus t (f64_times (T div 60) 3600) = f64_of_rat (t - of_nat (T div 60 * 3600))" by (simp add: f64_minus_def)
  have "of_nat (T div 60 * 3600 + 60) \<le> (of_nat (T * 60) :: rat)" using split m by (intro of_nat_mono) simp
  then have d: "of_nat 60 \<le> t - of_nat (T div 60 * 3600)" using T(2) by simp
  then have "0 < t - of_nat (T div 60 * 3600)" "t - of_nat (T div 60 * 3600) < 2 ^ 53" using t(2) by simp_all
  from f64_of_rat_ge [OF this d] obtain y where y: "f64_of_rat (t - of_nat (T div 60 * 3600)) = Finite y" "60 \<le> y" by auto
  obtain nano where "f64_of_rat (1 / 10 ^ 9) = Finite nano" "nano \<le> 1" using f64_of_rat_unit [of "1 / 10 ^ 9"] by auto
  then show False using assms(3) e y by (simp add: over_nano_def T_def [symmetric])
qed

context metric_fold
begin

lemma fold_none:
  assumes "length slots = 2" and none: "\<And>i. i < 2 \<Longrightarrow> slots ! i = None"
  shows "fold_slots join unit f slots = unit"
proof -
  obtain a b where "slots = [a, b]" using assms(1) two_slots [of slots] by auto
  then show ?thesis using none [of 0] none [of 1] by (simp add: fold_slots_def right_neutral left_neutral)
qed

lemma fold_union:
  assumes "length a = 2" and "length b = 2" and "length c = 2"
    and u: "\<And>i. i < 2 \<Longrightarrow> a ! i = None \<and> c ! i = b ! i \<or> b ! i = None \<and> c ! i = a ! i"
  shows "join (fold_slots join unit f a) (fold_slots join unit f b) = fold_slots join unit f c"
proof -
  obtain a0 a1 b0 b1 c0 c1 where "a = [a0, a1]" "b = [b0, b1]" "c = [c0, c1]" using assms(1-3) two_slots by metis
  then show ?thesis
    using u [of 0] u [of 1] by (auto simp: fold_slots_def left_neutral right_neutral assoc commute left_commute)
qed

lemma fold_unlogged: "fold_slots join unit f (unlogged_slots t s) = foldr (\<lambda>m. join (f m)) (unlogged t s) unit"
proof -
  have "fold_slots join unit f (map (\<lambda>x. case x of Some (k, m) \<Rightarrow> if closed_minute t k then None else x | None \<Rightarrow> None) slots)
    = foldr (\<lambda>m. join (f m)) (map snd (filter (\<lambda>(k, m). \<not> closed_minute t k) (map the (filter (\<lambda>x. x \<noteq> None) slots)))) unit" for slots
    by (induction slots) (auto simp: fold_slots_def left_neutral split: option.splits prod.splits)
  then show ?thesis by (simp add: unlogged_slots_def unlogged_def)
qed

lemma log_run_fold:
  "log_run duration t s p \<Longrightarrow> join (fold_rows join unit f (pd_minutes p)) (fold_slots join unit f (ms_slots s)) = f (ms_total s)
    \<and> fold_rows join unit f (pd_minutes p) = join (fold_rows join unit f (pd_hours p)) (f (pd_hour_metrics p))"
proof (induction rule: log_run.induct)
  case log_start
  show ?case by (simp add: fold_rows_def fold_slots_def periods_default_def store_default_def f_default right_neutral left_neutral)
next
  case (log_record t s p t' v l b s' l')
  have ok: "slots_ok (pd_minute p) (ms_slots s)" using log_run_inv [OF log_record(1)] unfolding log_inv_def by blast
  from log_record(5) show ?case
  proof (cases rule: shared_record_cases)
    case 2
    from record_fold [OF ok 2(1)] log_record(6) show ?thesis by (metis commute left_commute)
  qed (use log_record(6) in blast)
next
  case (log_advance t s p t' p' s')
  note inv = log_run_inv [OF log_advance(1)]
  obtain snap s1 where d: "drain s t' False = (snap, s1)" by fastforce
  obtain q r where q: "(minute_row ^^ (nat \<lfloor>t' / 60\<rfloor> - pd_minute p)) (p\<lparr>pd_wrote_hour := False\<rparr>, snap) = (q, r)" by fastforce
  have e: "p' = q" "s' = s1" using logs_advance_rows [OF inv log_advance(3,4) d q] log_advance(5) by simp_all
  have ok: "slots_ok (pd_minute p) (ms_slots s)" "periods_ok p" using inv unfolding log_inv_def by blast+
  have pok: "periods_ok (p\<lparr>pd_wrote_hour := False\<rparr>)" "slots_ok (pd_minute (p\<lparr>pd_wrote_hour := False\<rparr>)) (ms_slots snap)"
    using ok(2) drain_slots(1) [OF ok(1) d] by (simp_all add: periods_ok_def)
  have "fold_slots join unit f (ms_slots r) = unit"
    using rows_of_advance(4,5) [OF inv log_advance(2-4) d q] by (intro fold_none) (auto, metis not_None_eq surj_pair)
  moreover have "length (ms_slots s) = 2" using ok(1) by (simp add: slots_ok_def)
  ultimately show ?case
    using minute_rows_fold [OF q pok] log_advance(6) drain_fold [OF _ d] drain_slots(3) [OF ok(1) d] e
    by (simp add: right_neutral) (metis assoc)
qed

lemma final_rows_close:
  assumes t: "0 \<le> t" "t < 2 ^ 52" and q: "periods_ok q" "pd_minute q = nat \<lfloor>t / 60\<rfloor>" and len: "length (ms_slots r) = 2"
    and left: "\<And>i k m. i < 2 \<Longrightarrow> ms_slots r ! i = Some (k, m) \<Longrightarrow> k = pd_minute q \<and> i = k mod 2"
    and total: "join (fold_rows join unit f (pd_minutes q)) (fold_slots join unit f (ms_slots r)) = x"
    and hours: "fold_rows join unit f (pd_minutes q) = join (fold_rows join unit f (pd_hours q)) (f (pd_hour_metrics q))"
  shows "join (fold_rows join unit f (pd_minutes (fst (final_rows t (q, r)))))
      (if over_nano (f64_minus t (f64_times (pd_minute q) 60)) = None then fold_slots join unit f (ms_slots r) else unit) = x
    \<and> fold_rows join unit f (pd_hours (fst (final_rows t (q, r)))) = fold_rows join unit f (pd_minutes (fst (final_rows t (q, r))))"
proof -
  let ?T = "pd_minute q"
  define v where "v = over_nano (f64_minus t (f64_times ?T 60))"
  define rest where "rest = (if v = None then fold_slots join unit f (ms_slots r) else unit)"
  obtain m r' where m: "take_minute r ?T = (m, r')" by fastforce
  have "ms_slots r' ! i = None" if "i < 2" for i
    using m len left [OF that] that
    by (cases "ms_slots r ! i") (auto simp: take_minute_def nth_list_update split: option.splits if_splits prod.splits)
  moreover have "length (ms_slots r') = 2" using m len by (auto simp: take_minute_def split: option.splits if_splits prod.splits)
  ultimately have m_r: "f m = fold_slots join unit f (ms_slots r)"
    using take_minute_fold [OF len m] fold_none [of "ms_slots r'"] by (simp add: right_neutral)
  define p2 where "p2 = (case v of None \<Rightarrow> q
     | Some partial \<Rightarrow> q\<lparr>pd_minutes := pd_minutes q @ [\<lparr>rw_index = ?T, rw_start = ?T * 60, rw_seconds = partial, rw_complete = False, rw_metrics = m\<rparr>],
          pd_hour_metrics := merge (pd_hour_metrics q) m\<rparr>)"
  have p2: "join (fold_rows join unit f (pd_minutes p2)) rest = x"
    "join (fold_rows join unit f (pd_hours p2)) (f (pd_hour_metrics p2)) = fold_rows join unit f (pd_minutes p2)"
    using total hours m_r by (auto simp: p2_def rest_def fold_rows_append f_merge right_neutral assoc [symmetric] split: option.splits)
  define w where "w = over_nano (f64_minus t (f64_times (?T div 60) 3600))"
  have hm: "f (pd_hour_metrics p2) = unit" if "w = None"
  proof -
    have z: "?T mod 60 = 0" using no_hour_row [OF t] that q(2) by (simp add: w_def)
    then have "?T div 60 * 3600 = ?T * 60" by auto
    then have "f64_times (?T div 60) 3600 = f64_times ?T 60"
      using minute_bound(2) [OF t order.refl] q(2) by (simp add: f64_times_exact)
    then have "v = None" using that by (simp add: v_def w_def)
    then show ?thesis using q(1) z by (simp add: p2_def periods_ok_def f_default)
  qed
  have "pd_hour p2 = ?T div 60" using q(1) by (simp add: p2_def periods_ok_def split: option.splits)
  then have "fst (final_rows t (q, r)) = (case w of None \<Rightarrow> p2
     | Some partial \<Rightarrow> p2\<lparr>pd_hours := pd_hours p2 @ [\<lparr>rw_index = ?T div 60, rw_start = ?T div 60 * 3600, rw_seconds = partial, rw_complete = False, rw_metrics = pd_hour_metrics p2\<rparr>],
          pd_wrote_hour := True\<rparr>)"
    using m unfolding w_def by (auto simp: final_rows_def Let_def p2_def v_def split: option.splits)
  then have "join (fold_rows join unit f (pd_minutes (fst (final_rows t (q, r))))) rest = x"
    "fold_rows join unit f (pd_hours (fst (final_rows t (q, r)))) = fold_rows join unit f (pd_minutes (fst (final_rows t (q, r))))"
    using p2 hm by (cases w; simp add: fold_rows_append right_neutral)+
  then show ?thesis by (simp add: rest_def v_def)
qed

lemma final_rows_fold:
  assumes run: "log_run duration t s p" and t': "is_f64 t'" "t \<le> t'" "t' < 2 ^ 52"
  shows "\<exists>p' s'. logs_advance t' True s p = Some (p', s')
    \<and> join (fold_rows join unit f (pd_minutes p')) (foldr (\<lambda>m. join (f m)) (unlogged t' s) unit) = f (ms_total s)
    \<and> join (fold_rows join unit f (pd_hours p')) (foldr (\<lambda>m. join (f m)) (unlogged t' s) unit) = f (ms_total s)"
proof -
  let ?T = "nat \<lfloor>t' / 60\<rfloor>" and ?p = "p\<lparr>pd_wrote_hour := False\<rparr>"
  note inv = log_run_inv [OF run] and sums = log_run_fold [OF run]
  have t0: "0 \<le> t'" using inv t'(2) by (auto simp: log_inv_def)
  obtain snap s1 where d: "drain s t' True = (snap, s1)" by fastforce
  obtain q r where q: "(minute_row ^^ (?T - pd_minute p)) (?p, snap) = (q, r)" by fastforce
  note rows = rows_of_advance [OF inv t' d q]
  have ok: "slots_ok (pd_minute p) (ms_slots s)" "periods_ok p" using inv unfolding log_inv_def by blast+
  then have len: "length (ms_slots s) = 2" by (simp add: slots_ok_def)
  have le: "pd_minute p \<le> ?T" using inv t'(2) minute_mono by (auto simp: log_inv_def)
  have pok: "periods_ok ?p" "slots_ok (pd_minute ?p) (ms_slots snap)"
    using ok(2) drain_slots(1) [OF ok(1) d] by (simp_all add: periods_ok_def)
  have T: "minute_of t' = ?T" by (rule minute_of_floor [OF t'(1) t0 t'(3)])
  define v where "v = over_nano (f64_minus t' (f64_times ?T 60))"
  have kept: "ms_slots r ! i = Some (?T, m)" if "i < 2" "ms_slots s ! i = Some (?T, m)" for i m
    using minute_rows_keep [OF q] that le len d T by (auto simp: drain_def Let_def drains_slot_def)
  have union: "x ! i = None \<and> unlogged_slots t' s ! i = ms_slots s1 ! i \<or> ms_slots s1 ! i = None \<and> unlogged_slots t' s ! i = x ! i"
    if i: "i < 2" and x: "x = (if v = None then ms_slots r else [None, None])" for i x
  proof (cases "ms_slots s ! i")
    case None
    then have "ms_slots s1 ! i = None" "ms_slots r ! i = None" "unlogged_slots t' s ! i = None"
      using i len d rows(5) [OF i] by (auto simp: drain_def Let_def unlogged_slots_def drains_slot_def not_None_eq) (metis option.distinct(1) option.exhaust surj_pair)
    then show ?thesis using x i by (auto simp: less_2_cases_iff)
  next
    case (Some y)
    obtain k m where y: "y = (k, m)" by fastforce
    consider "k < ?T" | "k = ?T" | "?T < k" by linarith
    then show ?thesis
    proof cases
      case 1
      then have "ms_slots r ! i = None" using rows(5) [OF i] Some y by (cases "ms_slots r ! i") auto
      moreover have "ms_slots s1 ! i = None" using Some y 1 i len d T by (auto simp: drain_def Let_def drains_slot_def)
      ultimately show ?thesis using Some y 1 x i len by (auto simp: unlogged_slots_def closed_minute_def less_2_cases_iff)
    next
      case 2
      then have "ms_slots s1 ! i = None" using Some y i len d T by (auto simp: drain_def Let_def drains_slot_def)
      then show ?thesis using kept [OF i] Some y 2 x i len by (auto simp: unlogged_slots_def closed_minute_def v_def less_2_cases_iff)
    next
      case 3
      then have "ms_slots r ! i = None" using rows(5) [OF i] Some y by (cases "ms_slots r ! i") auto
      moreover have "ms_slots s1 ! i = Some (k, m)" using Some y 3 i len d T by (auto simp: drain_def Let_def drains_slot_def)
      ultimately show ?thesis using Some y 3 x i len by (auto simp: unlogged_slots_def closed_minute_def less_2_cases_iff)
    qed
  qed
  define rest where "rest = (if v = None then fold_slots join unit f (ms_slots r) else unit)"
  have "rest = fold_slots join unit f (if v = None then ms_slots r else [None, None])"
    by (simp add: rest_def fold_slots_def left_neutral)
  moreover have "length (unlogged_slots t' s) = 2" "length (ms_slots s1) = 2" "length (if v = None then ms_slots r else [None, None]) = 2"
    using len drain_slots(2) [OF ok(1) d] rows(4) by (simp_all add: unlogged_slots_def slots_ok_def)
  ultimately have unlogged: "join rest (fold_slots join unit f (ms_slots s1)) = foldr (\<lambda>m. join (f m)) (unlogged t' s) unit"
    using fold_union [OF _ _ _ union [OF _ refl]] fold_unlogged by simp
  have "fold_rows join unit f (pd_minutes ?p) = join (fold_rows join unit f (pd_hours ?p)) (f (pd_hour_metrics ?p))" using sums by simp
  note mr = minute_rows_fold [OF q pok this]
  have left: "k = pd_minute q \<and> i = k mod 2" if "i < 2" "ms_slots r ! i = Some (k, m)" for i k m
    using rows(2) rows(5) [OF that] by auto
  let ?x = "join (fold_rows join unit f (pd_minutes q)) (fold_slots join unit f (ms_slots r))"
  have x: "join ?x (fold_slots join unit f (ms_slots s1)) = f (ms_total s)"
    using conjunct1 [OF mr] conjunct1 [OF sums] drain_fold [OF len d] by (simp add: assoc)
  let ?e = "fst (final_rows t' (q, r))"
  from final_rows_close [OF t0 t'(3) rows(1,2,4) left refl conjunct2 [OF mr]]
  have e: "join (fold_rows join unit f (pd_minutes ?e)) rest = ?x"
    "fold_rows join unit f (pd_hours ?e) = fold_rows join unit f (pd_minutes ?e)"
    by (simp_all add: rest_def v_def rows(2))
  then have "join (fold_rows join unit f (pd_minutes ?e)) (foldr (\<lambda>m. join (f m)) (unlogged t' s) unit) = f (ms_total s)"
    using x by (simp add: unlogged [symmetric] assoc [symmetric])
  then show ?thesis using logs_advance_rows [OF inv t'(2,3) d q] e(2) by simp
qed

end

section \<open>The counters\<close>

lemma max_word_0 [simp]: "max (x :: 'a::len word) 0 = x" "max 0 (x :: 'a::len word) = x"
  by (simp_all add: max_def)

lemma max_comm_monoid: "comm_monoid max (0 :: 'a::len word)"
  by unfold_locales (simp_all add: max.assoc max.commute)

interpretation writes: metric_fold "(+)" 0 mt_writes
  by unfold_locales (simp_all add: merge_def metrics_default_def)

interpretation bytes: metric_fold "(+)" 0 mt_bytes
  by unfold_locales (simp_all add: merge_def metrics_default_def)

interpretation write_time: metric_fold "(+)" 0 mt_write_ns
  by unfold_locales (simp_all add: merge_def metrics_default_def)

interpretation rotations: metric_fold "(+)" 0 mt_rotations
  by unfold_locales (simp_all add: merge_def metrics_default_def)

interpretation deleted: metric_fold "(+)" 0 mt_deleted
  by unfold_locales (simp_all add: merge_def metrics_default_def)

interpretation slow_writes: metric_fold "(+)" 0 mt_writes_over_200ms
  by unfold_locales (simp_all add: merge_def metrics_default_def)

interpretation max_write: metric_fold max 0 mt_max_write_ns
  by (intro metric_fold.intro max_comm_monoid metric_fold_axioms.intro) (simp_all add: merge_def metrics_default_def)

interpretation max_close_queue: metric_fold max 0 mt_max_close_queue
  by (intro metric_fold.intro max_comm_monoid metric_fold_axioms.intro) (simp_all add: merge_def metrics_default_def)

lemma fold_rows_sum: "fold_rows (+) 0 f rows = sum_list (map (\<lambda>r. f (rw_metrics r)) rows)"
  by (induction rows) (simp_all add: fold_rows_def)

lemma fold_unlogged_sum: "foldr (\<lambda>m. (+) (f m)) ms 0 = sum_list (map f ms)"
  by (induction ms) simp_all

text \<open>
  C27: what the logs account for. After any interleaving of recorded measurements and advances, closing the
  logs at time \<open>t'\<close> writes minute rows, and hour rows, whose writes, bytes and write times, together with
  those of the unlogged measurements, add up to the totals of the run, and likewise for the largest write time:
  nothing is counted twice, and what is missing is exactly the measurements of the minutes that \<open>t'\<close> does not
  close. A run closed at its deadline has none of these, unless the deadline is within a nanosecond after a
  whole minute; a run without a deadline, or stopped before it, may have some, because \<open>t'\<close> is read before the
  workers stop. The division of \<open>f64\<close> seconds into minutes is rounded on one side and compared exactly on the
  other; the theorem covers every run of up to \<open>2^52\<close> seconds.\<close>

theorem log_rows_complete:
  assumes "log_run duration t s p" and "is_f64 t'" and "t \<le> t'" and "t' < 2 ^ 52"
  shows "\<exists>p' s'. logs_advance t' True s p = Some (p', s')
    \<and> sum_list (map (\<lambda>r. mt_writes (rw_metrics r)) (pd_minutes p')) + sum_list (map mt_writes (unlogged t' s)) = mt_writes (ms_total s)
    \<and> sum_list (map (\<lambda>r. mt_writes (rw_metrics r)) (pd_hours p')) + sum_list (map mt_writes (unlogged t' s)) = mt_writes (ms_total s)
    \<and> sum_list (map (\<lambda>r. mt_bytes (rw_metrics r)) (pd_minutes p')) + sum_list (map mt_bytes (unlogged t' s)) = mt_bytes (ms_total s)
    \<and> sum_list (map (\<lambda>r. mt_bytes (rw_metrics r)) (pd_hours p')) + sum_list (map mt_bytes (unlogged t' s)) = mt_bytes (ms_total s)
    \<and> sum_list (map (\<lambda>r. mt_write_ns (rw_metrics r)) (pd_minutes p')) + sum_list (map mt_write_ns (unlogged t' s)) = mt_write_ns (ms_total s)
    \<and> sum_list (map (\<lambda>r. mt_write_ns (rw_metrics r)) (pd_hours p')) + sum_list (map mt_write_ns (unlogged t' s)) = mt_write_ns (ms_total s)
    \<and> max (fold_rows max 0 mt_max_write_ns (pd_minutes p')) (foldr (\<lambda>m. max (mt_max_write_ns m)) (unlogged t' s) 0) = mt_max_write_ns (ms_total s)
    \<and> max (fold_rows max 0 mt_max_write_ns (pd_hours p')) (foldr (\<lambda>m. max (mt_max_write_ns m)) (unlogged t' s) 0) = mt_max_write_ns (ms_total s)
    \<and> (duration = Some t' \<and> (t' = of_nat (nat \<lfloor>t' / 60\<rfloor> * 60) \<or> over_nano (f64_minus t' (f64_times (nat \<lfloor>t' / 60\<rfloor>) 60)) \<noteq> None)
         \<longrightarrow> unlogged t' s = [])"
proof -
  have "0 \<le> t'" using log_run_inv [OF assms(1)] assms(3) by (simp add: log_inv_def)
  then have "duration = Some t' \<and> (t' = of_nat (nat \<lfloor>t' / 60\<rfloor> * 60) \<or> over_nano (f64_minus t' (f64_times (nat \<lfloor>t' / 60\<rfloor>) 60)) \<noteq> None)
      \<longrightarrow> unlogged t' s = []"
    using assms(1) deadline_all_logged by blast
  then show ?thesis
    using writes.final_rows_fold [OF assms] bytes.final_rows_fold [OF assms] write_time.final_rows_fold [OF assms]
      max_write.final_rows_fold [OF assms]
    unfolding fold_rows_sum fold_unlogged_sum by force
qed

text \<open>Two writes in the first minute and one in the second, closed after ninety seconds.\<close>

definition example_metrics :: "u64 \<Rightarrow> metrics" where
  "example_metrics n = metrics_default\<lparr>mt_writes := n, mt_bytes := n * 65536, mt_max_write_ns := n * 1000\<rparr>"

definition example_store :: "metrics_store result" where
  "example_store = and_then (record_metrics store_default 1 (example_metrics 2)) (\<lambda>s. record_metrics s 61 (example_metrics 1))"

theorem log_rows_complete_witness:
  "\<exists>s p' s'. example_store = Inr s \<and> mt_writes (ms_total s) = 3
    \<and> logs_advance 90 True s periods_default = Some (p', s') \<and> unlogged 90 s = []
    \<and> sum_list (map (\<lambda>r. mt_writes (rw_metrics r)) (pd_minutes p')) = 3"
proof -
  have f: "is_f64 1" "is_f64 61" "is_f64 90" using f64_of_nat_exact [of 1] f64_of_nat_exact [of 61] f64_of_nat_exact [of 90] by (simp_all add: is_f64_def)
  have fl: "\<lfloor>61 / (60 :: rat)\<rfloor> = 1" "\<lfloor>90 / (60 :: rat)\<rfloor> = 1" by (rule floor_unique; simp)+
  have m: "minute_of 1 = 0" "minute_of 61 = 1" using minute_of_floor [OF f(1)] minute_of_floor [OF f(2)] by (simp_all add: fl)
  define a where "a = \<lparr>ms_slots = [Some (0, merge metrics_default (example_metrics 2)), None], ms_total = merge metrics_default (example_metrics 2)\<rparr>"
  define s where "s = \<lparr>ms_slots = [Some (0, merge metrics_default (example_metrics 2)), Some (1, merge metrics_default (example_metrics 1))],
      ms_total = merge (merge metrics_default (example_metrics 2)) (example_metrics 1)\<rparr>"
  have a: "record_metrics store_default 1 (example_metrics 2) = Inr a" by (simp add: record_metrics_def m store_default_def a_def)
  have s: "record_metrics a 61 (example_metrics 1) = Inr s" by (simp add: record_metrics_def m a_def s_def)
  have w: "mt_writes (ms_total s) = 3" by (simp add: s_def merge_def metrics_default_def example_metrics_def)
  have r: "shared_record (Some 90) 1 (example_metrics 2) (store_default, 0) = Inr (True, a, 0)"
    "shared_record (Some 90) 61 (example_metrics 1) (a, 0) = Inr (True, s, 0)"
    by (simp_all add: shared_record_def a s)
  have run: "log_run (Some 90) 0 s periods_default"
    by (rule log_run.log_record [OF log_run.log_record [OF log_run.log_start f(1) _ _ r(1)] f(2) _ _ r(2)]) simp_all
  obtain nano where "f64_of_rat (1 / 10 ^ 9) = Finite nano" "nano \<le> 1" using f64_of_rat_unit [of "1 / 10 ^ 9"] by auto
  then have "over_nano (f64_minus 90 (f64_times 1 60)) \<noteq> None"
    using f64_of_nat_exact [of 30] by (simp add: f64_times_exact f64_minus_def over_nano_def)
  moreover have "nat \<lfloor>90 / (60 :: rat)\<rfloor> = 1" using fl(2) by (simp only: nat_one_as_int)
  ultimately have "over_nano (f64_minus 90 (f64_times (nat \<lfloor>90 / (60 :: rat)\<rfloor>) 60)) \<noteq> None" by simp
  with log_rows_complete [OF run f(3)] a s w show ?thesis by (auto simp: example_store_def)
qed

text \<open>
  A measurement that comes after the closing time was read can be lost to the rows. Closing at \<open>t'\<close> a run that
  is stopped before its deadline or has none, a write recorded later, in a minute that \<open>t'\<close> does not close, is
  in the totals the run reports and in no row.
\<close>

lemma unlogged_after_record:
  assumes "length (ms_slots s) = 2" and "unlogged t s = []" and "record_metrics s t' v = Inr s'" and "\<not> closed_minute t (minute_of t')"
  shows "unlogged t s' = [merge metrics_default v]"
proof -
  obtain a b where ab: "ms_slots s = [a, b]" using assms(1) two_slots [of "ms_slots s"] by auto
  have "minute_of t' mod 2 = 0 \<or> minute_of t' mod 2 = Suc 0" by (rule less_2_cases) simp
  then show ?thesis
    using assms(2-4) ab
    by (auto simp: unlogged_def record_metrics_def Let_def split: option.splits if_splits prod.splits)
qed

theorem write_after_closing_in_no_row:
  assumes "log_run duration t s p" and "is_f64 t'" and "t \<le> t'" and "t' < 2 ^ 52" and "unlogged t' s = []"
    and "is_f64 t''" and "t' \<le> t''" and "t'' < 2 ^ 52" and "shared_record duration t'' v (s, l) = Inr (True, s', l')"
    and "\<not> closed_minute t' (minute_of t'')"
  shows "\<exists>p' s1. logs_advance t' True s' p = Some (p', s1)
    \<and> sum_list (map (\<lambda>r. mt_writes (rw_metrics r)) (pd_minutes p')) + mt_writes v = mt_writes (ms_total s')"
proof -
  have run: "log_run duration t s' p" by (rule log_run.log_record [OF assms(1,6) _ assms(8,9)]) (use assms(3,7) in simp)
  have "length (ms_slots s) = 2" using log_run_inv [OF assms(1)] by (simp add: log_inv_def slots_ok_def)
  moreover have "record_metrics s t'' v = Inr s'" using assms(9) by (auto simp: shared_record_def and_then_eq_Inr split: if_splits)
  ultimately have "unlogged t' s' = [merge metrics_default v]" using assms(5,10) unlogged_after_record by blast
  then show ?thesis
    using writes.final_rows_fold [OF run assms(2-4)] unfolding fold_rows_sum fold_unlogged_sum
    by (force simp: merge_def metrics_default_def)
qed

end
