(* ===== verification/Cameras.thy ===== *)
theory Cameras
  imports F64_Floor
begin

text \<open>
  The camera counts of a run (\<open>src/rust/src/cctv.rs\<close>): \<open>parse_cameras\<close> reads \<open>N\<close>, \<open>START..END/STEP\<close> or
  \<open>START..END*RATIO\<close>, and \<open>camera_counts\<close> lists the counts that are run one after the other. The geometric loop
  multiplies an \<open>f64\<close> until it passes the end; the lemmas show that it does, whatever ratio above one was read.
\<close>

section \<open>Parsing\<close>

text \<open>\<open>s.split_once(pat)\<close> for a pattern that is not empty.\<close>

fun split_str :: "string \<Rightarrow> string \<Rightarrow> (string \<times> string) option" where
  "split_str pat [] = None"
| "split_str pat (c # cs) =
     (if take (length pat) (c # cs) = pat then Some ([], drop (length pat) (c # cs))
      else map_option (\<lambda>(a, b). (c # a, b)) (split_str pat cs))"

definition camera_usage :: string where
  "camera_usage = ''--cctv needs COUNT,MBPS,HOURS; COUNT is N, START..END/STEP (e.g. 10..100/10) or START..END*RATIO (e.g. 10..200*sqrt2)''"

text \<open>\<open>std::f64::consts::SQRT_2\<close>.\<close>

definition sqrt_2 :: rat where
  "sqrt_2 = 6369051672525773 / 2 ^ 52"

definition parse_ratio :: "string \<Rightarrow> rat result" where
  "parse_ratio s =
     (if s = ''sqrt2'' then Inr sqrt_2
      else case parse_f64 s of Some (Finite r) \<Rightarrow> if 1 < r then Inr r else Inl (Err camera_usage) | _ \<Rightarrow> Inl (Err camera_usage))"

definition split_ratio :: "string \<Rightarrow> (string \<times> rat) result" where
  "split_ratio s =
     (case split_once (\<lambda>c. c = CHR ''*'') s of
        Some (part, ratio) \<Rightarrow> and_then (parse_ratio ratio) (\<lambda>r. Inr (part, r))
      | None \<Rightarrow> Inr (s, 1))"

definition split_step :: "string \<Rightarrow> (string \<times> nat) result" where
  "split_step s =
     (case split_once (\<lambda>c. c = CHR ''/'') s of
        Some (part, step) \<Rightarrow> and_then (ok_or (parse_uint 64 step) camera_usage) (\<lambda>n. Inr (part, n))
      | None \<Rightarrow> Inr (s, 1))"

definition split_ends :: "string \<Rightarrow> (nat \<times> nat) result" where
  "split_ends s =
     (case split_str ''..'' s of
        Some (a, b) \<Rightarrow> and_then (ok_or (parse_uint 64 a) camera_usage) (\<lambda>a.
           and_then (ok_or (parse_uint 64 b) camera_usage) (\<lambda>b. Inr (a, b)))
      | None \<Rightarrow> and_then (ok_or (parse_uint 64 s) camera_usage) (\<lambda>n. Inr (n, n)))"

definition parse_cameras :: "string \<Rightarrow> (nat \<times> nat \<times> nat \<times> rat) result" where
  "parse_cameras s =
     and_then (split_ratio s) (\<lambda>(s, ratio).
     and_then (split_step s) (\<lambda>(part, step).
     and_then (split_ends part) (\<lambda>(start, stop).
       if \<not> (1 \<le> start \<and> start \<le> 1024) \<or> \<not> (start \<le> stop \<and> stop \<le> 1024) \<or> step = 0 then Inl (Err camera_usage)
       else Inr (start, stop, step, ratio))))"

section \<open>The counts\<close>

text \<open>\<open>x.round() as usize\<close> of a value that is not negative: halves go up.\<close>

definition round_up_half :: "rat \<Rightarrow> nat" where
  "round_up_half x = nat \<lfloor>x + 1 / 2\<rfloor>"

definition push_count :: "nat \<Rightarrow> nat list \<Rightarrow> nat list" where
  "push_count n counts = (if counts \<noteq> [] \<and> last counts = n then counts else counts @ [n])"

text \<open>The loop ends as well when the product overflows to infinity.\<close>

partial_function (option) count_loop :: "nat \<Rightarrow> rat \<Rightarrow> rat \<Rightarrow> nat list \<Rightarrow> nat list option" where
  "count_loop stop ratio x counts =
     (if x \<le> of_nat stop + 1 / 2 then
        (case f64_of_rat (x * ratio) of
           Finite y \<Rightarrow> count_loop stop ratio y (push_count (round_up_half x) counts)
         | _ \<Rightarrow> Some (push_count (round_up_half x) counts))
      else Some counts)"

definition camera_counts :: "nat \<Rightarrow> nat \<Rightarrow> nat \<Rightarrow> rat \<Rightarrow> nat list option" where
  "camera_counts start stop step ratio =
     (if ratio = 1 then Some (map (\<lambda>i. start + i * step) [0..<(stop - start) div step + 1])
      else map_option (push_count stop) (count_loop stop ratio (of_nat start) []))"

section \<open>The loop ends\<close>

text \<open>Rounding moves a value by less than \<open>2^-53\<close> of it.\<close>

lemma round_half_even_lower: "x - 1 / 2 \<le> of_int (round_half_even x)"
  unfolding round_half_even_def Let_def by (auto; linarith)

lemma f64_of_rat_lower:
  assumes "1 \<le> x" and "f64_of_rat x = Finite y"
  shows "x - x / 2 ^ 53 \<le> y"
proof -
  have "0 \<le> floor_log2 x" using floor_log2_ge [of 0 x] assms(1) by simp
  then have u: "ulp x = two_pow (floor_log2 x - 52)" by (simp add: ulp_def)
  have "two_pow 52 * ulp x = two_pow (floor_log2 x)" using two_pow_add [of 52 "floor_log2 x - 52"] by (simp add: u)
  moreover have "two_pow (floor_log2 x) \<le> x" using floor_log2_le [of x] assms(1) by simp
  ultimately have "two_pow 52 * ulp x \<le> x" by simp
  then have "ulp x / 2 \<le> x / 2 ^ 53" by (simp add: two_pow_def)
  moreover have "y = of_int (round_half_even (x / ulp x)) * ulp x"
    using assms by (auto simp: f64_of_rat_def Let_def ulp_def split: if_splits)
  moreover have "(x / ulp x - 1 / 2) * ulp x \<le> of_int (round_half_even (x / ulp x)) * ulp x"
    by (intro mult_right_mono round_half_even_lower) (simp add: less_imp_le)
  moreover have "(x / ulp x - 1 / 2) * ulp x = x - ulp x / 2" using less_imp_neq [OF ulp_pos, of x] by (simp add: field_simps)
  ultimately show ?thesis by linarith
qed

lemma f64_above_one:
  assumes "f64_of_rat q = Finite r" and "1 < r"
  shows "1 + 1 / 2 ^ 52 \<le> r"
proof -
  have q: "1 \<le> q"
  proof (rule ccontr)
    assume "\<not> 1 \<le> q"
    then consider "0 \<le> q" "q \<le> 1" | "q < 0" by linarith
    then show False
    proof cases
      case 1
      then show False using f64_of_rat_unit [of q] assms by auto
    next
      case 2
      have "0 \<le> of_int (round_half_even (\<bar>q\<bar> / ulp \<bar>q\<bar>)) * ulp \<bar>q\<bar>"
        using round_half_even_mono [of 0 "\<bar>q\<bar> / ulp \<bar>q\<bar>"] ulp_pos [of "\<bar>q\<bar>"] by (simp add: less_imp_le)
      then show False using 2 assms by (auto simp: f64_of_rat_def Let_def ulp_def split: if_splits)
    qed
  qed
  then have l: "0 \<le> floor_log2 q" using floor_log2_ge [of 0 q] by simp
  have r: "r = of_int (round_half_even (q / ulp q)) * ulp q"
    using assms q by (auto simp: f64_of_rat_def Let_def ulp_def split: if_splits)
  obtain e where e: "floor_log2 q = int e" using l nonneg_int_cases by blast
  have u: "ulp q * 2 ^ 52 = 2 ^ e" using two_pow_add [of 52 "int e - 52"] by (simp add: ulp_def e two_pow_def [of 52])
  then have "1 / 2 ^ 52 \<le> ulp q" by (simp add: pos_divide_le_eq)
  moreover have "of_int (2 ^ 52) < (of_int (round_half_even (q / ulp q)) :: rat) \<or> 2 \<le> r"
  proof (cases e)
    case 0
    then have "ulp q = 1 / 2 ^ 52" using u by (simp add: field_simps)
    then have "1 < of_int (round_half_even (q / ulp q)) * (1 / 2 ^ 52 :: rat)" using r assms(2) by metis
    moreover have "1 < k * (1 / 2 ^ 52) \<Longrightarrow> 2 ^ 52 < k" for k :: rat by simp
    ultimately have "2 ^ 52 < (of_int (round_half_even (q / ulp q)) :: rat)" by blast
    then show ?thesis by simp
  next
    case (Suc f)
    have "2 ^ e \<le> q" using floor_log2_le [of q] q e by simp
    then have "of_int (2 ^ 52) \<le> q / ulp q" using u by (simp add: pos_le_divide_eq mult.commute)
    then have "2 ^ 52 \<le> round_half_even (q / ulp q)" using round_half_even_mono round_half_even_of_int by metis
    then have "of_int (2 ^ 52) * ulp q \<le> r" unfolding r by (intro mult_right_mono) (simp_all only: of_int_le_iff less_imp_le [OF ulp_pos])
    moreover have "(2 :: rat) \<le> 2 ^ e" by (simp add: Suc)
    ultimately show ?thesis using u by (simp add: mult.commute)
  qed
  moreover have "1 + 1 / 2 ^ 52 \<le> r" if k: "of_int (2 ^ 52) < (of_int (round_half_even (q / ulp q)) :: rat)"
  proof -
    have "2 ^ 52 + 1 \<le> round_half_even (q / ulp q)" using k unfolding of_int_less_iff by simp
    then have "of_int (2 ^ 52 + 1) * ulp q \<le> r" unfolding r by (intro mult_right_mono) (simp_all only: of_int_le_iff less_imp_le [OF ulp_pos])
    moreover have "of_int (2 ^ 52 + 1) * (1 / 2 ^ 52) \<le> of_int (2 ^ 52 + 1) * ulp q" using calculation \<open>1 / 2 ^ 52 \<le> ulp q\<close> by (intro mult_left_mono) simp_all
    ultimately have "of_int (2 ^ 52 + 1) * (1 / 2 ^ 52) \<le> r" by linarith
    then show ?thesis by simp
  qed
  ultimately show ?thesis by fastforce
qed

lemma count_grows:
  assumes "1 + 1 / 2 ^ 52 \<le> r" and "1 \<le> x" and "f64_of_rat (x * r) = Finite y"
  shows "x + 1 / 2 ^ 54 \<le> y"
proof -
  define d :: rat where "d = 1 / 2 ^ 53"
  have d: "0 < d" "d \<le> 1 / 4" by (simp_all add: d_def)
  have r: "1 + 2 * d \<le> r" using assms(1) by (simp add: d_def)
  have z: "x * (1 + 2 * d) \<le> x * r" using r assms(2) by (intro mult_left_mono) simp_all
  have "1 * 1 \<le> x * r" using r d assms(2) by (intro mult_mono) simp_all
  then have "x * r - x * r * d \<le> y" using f64_of_rat_lower [OF _ assms(3)] by (simp add: d_def)
  moreover have "x * (1 + 2 * d) * (1 - d) \<le> x * r * (1 - d)" using z d by (intro mult_right_mono) simp_all
  moreover have "x * (1 + d / 2) \<le> x * ((1 + 2 * d) * (1 - d))"
  proof (intro mult_left_mono)
    have "d * d \<le> 1 / 4 * d" using d by (intro mult_right_mono) simp_all
    then show "1 + d / 2 \<le> (1 + 2 * d) * (1 - d)" by (simp add: algebra_simps)
  qed (use assms(2) in simp)
  moreover have "1 * (d / 2) \<le> x * (d / 2)" using assms(2) d by (intro mult_right_mono) simp_all
  ultimately have "x + d / 2 \<le> y" by (simp add: algebra_simps)
  then show ?thesis by (simp add: d_def)
qed

lemma count_loop_returns:
  assumes r: "1 + 1 / 2 ^ 52 \<le> r"
  shows "1 \<le> x \<Longrightarrow> (of_nat stop + 1 / 2 - x) * 2 ^ 54 < of_nat n \<Longrightarrow>
    \<exists>more. count_loop stop r x counts = Some (counts @ more) \<and> (\<forall>k\<in>set more. k \<le> stop + 1)
      \<and> (x \<le> of_nat stop + 1 / 2 \<longrightarrow> counts = [] \<longrightarrow> more \<noteq> [] \<and> hd more = round_up_half x)"
proof (induction n arbitrary: x counts)
  case 0
  then have "\<not> x \<le> of_nat stop + 1 / 2" by simp
  then show ?case by (simp add: count_loop.simps [of stop r x])
next
  case (Suc n)
  show ?case
  proof (cases "x \<le> of_nat stop + 1 / 2")
    case False
    then show ?thesis by (simp add: count_loop.simps [of stop r x])
  next
    case True
    let ?n = "round_up_half x"
    have "\<lfloor>x + 1 / 2\<rfloor> \<le> \<lfloor>of_nat stop + (1 :: rat)\<rfloor>" using True by (intro floor_mono) simp
    then have b: "?n \<le> stop + 1" by (simp add: round_up_half_def nat_le_iff)
    obtain one where one: "push_count ?n counts = counts @ one" "set one \<subseteq> {?n}" "counts = [] \<longrightarrow> one = [?n]"
      by (cases "counts \<noteq> [] \<and> last counts = ?n") (auto simp: push_count_def)
    show ?thesis
    proof (cases "\<exists>y. f64_of_rat (x * r) = Finite y")
      case False
      then have "count_loop stop r x counts = Some (counts @ one)"
        using True one(1) by (simp add: count_loop.simps [of stop r x] split: f64.splits)
      then show ?thesis using one b by auto
    next
      case yes: True
      then obtain y where y: "f64_of_rat (x * r) = Finite y" by blast
      note g = count_grows [OF r Suc.prems(1) y]
      have "(of_nat stop + 1 / 2 - y) * 2 ^ 54 \<le> (of_nat stop + 1 / 2 - (x + 1 / 2 ^ 54)) * 2 ^ 54"
        using g by (intro mult_right_mono) simp_all
      also have "\<dots> = (of_nat stop + 1 / 2 - x) * 2 ^ 54 - 1" by (simp add: algebra_simps)
      also have "\<dots> < of_nat n" using Suc.prems(2) by simp
      finally have m: "(of_nat stop + 1 / 2 - y) * 2 ^ 54 < of_nat n" .
      have "x \<le> x + 1 / 2 ^ 54" by simp
      then have "1 \<le> y" using g Suc.prems(1) by (meson order_trans)
      from Suc.IH [OF this m, of "counts @ one"] obtain more where
        "count_loop stop r y (counts @ one) = Some (counts @ one @ more)" "\<forall>k\<in>set more. k \<le> stop + 1" by auto
      then show ?thesis using True y one b by (auto simp: count_loop.simps [of stop r x] intro!: exI [of _ "one @ more"])
    qed
  qed
qed

lemma parsed_cameras:
  assumes "parse_cameras s = Inr (start, stop, step, ratio)"
  shows "1 \<le> start \<and> start \<le> stop \<and> stop \<le> 1024 \<and> 0 < step \<and> (ratio = 1 \<or> 1 + 1 / 2 ^ 52 \<le> ratio)"
proof -
  from assms obtain t where t: "split_ratio s = Inr (t, ratio)" and rest: "1 \<le> start \<and> start \<le> stop \<and> stop \<le> 1024 \<and> 0 < step"
    by (auto simp: parse_cameras_def and_then_eq_Inr split: prod.splits if_splits)
  have "1 + 1 / 2 ^ 52 \<le> r" if p: "parse_ratio x = Inr r" for x r
  proof (cases "x = ''sqrt2''")
    case True
    then show ?thesis using p by (simp add: parse_ratio_def sqrt_2_def)
  next
    case False
    then obtain "parse_f64 x = Some (Finite r)" "1 < r"
      using p by (auto simp: parse_ratio_def split: if_splits option.splits f64.splits)
    then show ?thesis using f64_above_one by (auto simp: parse_f64_def Let_def split: if_splits prod.splits)
  qed
  then have "ratio = 1 \<or> 1 + 1 / 2 ^ 52 \<le> ratio"
    using t by (auto simp: split_ratio_def and_then_eq_Inr split: option.splits prod.splits)
  then show ?thesis using rest by blast
qed

text \<open>
  C28: listing the camera counts ends. For every range that \<open>parse_cameras\<close> accepts, with a step or with a ratio
  however close to one, the loop over \<open>f64\<close> values returns; the list starts with START, ends with END when a ratio is
  given, and holds no count above END + 1 (END when a step is given).\<close>

theorem camera_counts_returns:
  assumes "parse_cameras s = Inr (start, stop, step, ratio)"
  shows "\<exists>counts. camera_counts start stop step ratio = Some counts \<and> counts \<noteq> [] \<and> hd counts = start
    \<and> (\<forall>k\<in>set counts. k \<le> (if ratio = 1 then stop else stop + 1)) \<and> (ratio \<noteq> 1 \<longrightarrow> last counts = stop)"
proof -
  note p = parsed_cameras [OF assms]
  show ?thesis
  proof (cases "ratio = 1")
    case True
    have "start + i * step \<le> stop" if "i < (stop - start) div step + 1" for i
    proof -
      have "i * step \<le> (stop - start) div step * step" using that by (intro mult_right_mono) simp_all
      also have "\<dots> \<le> stop - start" by simp
      finally show ?thesis using p by linarith
    qed
    then show ?thesis using True p by (auto simp: camera_counts_def upt_conv_Cons [of 0] simp del: upt_Suc)
  next
    case False
    then have r: "1 + 1 / 2 ^ 52 \<le> ratio" using p by blast
    obtain n where n: "(of_nat stop + 1 / 2 - of_nat start) * 2 ^ 54 < (of_nat n :: rat)" using reals_Archimedean2 by blast
    have h: "\<lfloor>1 / (2 :: rat)\<rfloor> = 0" by (rule floor_unique) simp_all
    have "1 \<le> (of_nat start :: rat)" using p by simp
    from count_loop_returns [OF r this n, of "[]"] obtain more where
      m: "count_loop stop ratio (of_nat start) [] = Some more" "\<forall>k\<in>set more. k \<le> stop + 1" "more \<noteq> []" "hd more = start"
      using p h by (auto simp: round_up_half_def)
    show ?thesis using False m by (auto simp: camera_counts_def push_count_def)
  qed
qed

text \<open>A value with its bits in the binade of \<open>2^e\<close> is exact.\<close>

lemma f64_exact:
  assumes "two_pow e \<le> x" and "x < two_pow (e + 1)" and "- 1022 \<le> e" and "e \<le> 52" and "x = of_int k * two_pow (e - 52)"
  shows "f64_of_rat x = Finite x"
proof -
  have x: "0 < x" using assms(1) two_pow_pos [of e] by linarith
  have "floor_log2 x = e" using floor_log2_ge [OF assms(1)] floor_log2_less [OF x assms(2)] by simp
  then have u: "ulp x = two_pow (e - 52)" using assms(3) by (simp add: ulp_def)
  have "two_pow (e + 1) \<le> two_pow 53" using assms(4) by (intro two_pow_mono) simp
  then have "x < 2 ^ 53" using assms(2) by (simp add: two_pow_def [of 53])
  moreover have "x / ulp x = of_int k" using assms(5) u less_imp_neq [OF ulp_pos, of x] by simp
  ultimately show ?thesis using f64_of_rat_pos [OF x] assms(5) u by simp
qed

lemma example_values:
  "f64_of_rat (3 / 2) = Finite (3 / 2)" "f64_of_rat 3 = Finite 3" "f64_of_rat (9 / 2) = Finite (9 / 2)" "f64_of_rat (27 / 4) = Finite (27 / 4)"
  by (rule f64_exact [of 0 _ "3 * 2 ^ 51"] f64_exact [of 1 _ "3 * 2 ^ 51"] f64_exact [of 2 _ "9 * 2 ^ 49"] f64_exact [of 2 _ "27 * 2 ^ 48"];
      simp add: two_pow_def)+

lemma example_range: "parse_cameras ''2..4*1.5'' = Inr (2, 4, 1, 3 / 2)"
proof -
  have "parse_f64 ''1.5'' = Some (Finite (3 / 2))"
    using example_values(1)
    by (simp add: parse_f64_def parse_number_def parse_exponent_def is_digit_def digit_value_def lower_def ten_pow_def Let_def)
  then show ?thesis
    by (simp add: parse_cameras_def split_ratio_def split_step_def split_ends_def parse_ratio_def parse_uint_def is_digit_def digit_value_def)
qed

theorem camera_counts_returns_witness:
  "\<exists>counts. parse_cameras ''2..4*1.5'' = Inr (2, 4, 1, 3 / 2) \<and> camera_counts 2 4 1 (3 / 2) = Some counts \<and> hd counts = 2 \<and> last counts = 4"
proof -
  from camera_counts_returns [OF example_range] example_range show ?thesis by auto
qed

section \<open>Ranges that surprise\<close>

text \<open>A count above END is run: with 2 to 4 cameras by a ratio of 1.5 the value 4.5 rounds to 5, and 4 comes after it.\<close>

theorem ratio_passes_end: "camera_counts 2 4 1 (3 / 2) = Some [2, 3, 5, 4]"
proof -
  have "\<lfloor>7 / (2 :: rat)\<rfloor> = 3" "\<lfloor>5 / (2 :: rat)\<rfloor> = 2" by (rule floor_unique; simp)+
  then show ?thesis
    using example_values by (simp add: camera_counts_def count_loop.simps [of 4] push_count_def round_up_half_def)
qed

text \<open>The end of a linear range is left out when the step does not reach it.\<close>

theorem step_leaves_end_out: "camera_counts 10 100 40 1 = Some [10, 50, 90]"
  by (simp add: camera_counts_def upt_conv_Cons)

end
